(* ===== verification/Prelude.thy ===== *)
theory Prelude
  imports Main "HOL-Library.Char_ord" "HOL-Library.Sublist"
begin

text \<open>
  What every component of the server shares: the exceptions that cross component
  boundaries, results with an error branch and outcomes that may also be undefined or
  never come, \<open>size_t\<close> positions with the value \<open>npos\<close>, and
  the functions of the C and C++ standard libraries that the sources call on strings.

  A \<open>std::string\<close> and a byte buffer are both a \<open>string\<close> (a list of bytes). A C string
  is read out of such a list up to its first NUL byte (\<open>c_str\<close>).
\<close>

named_theorems unpack \<open>when a result or an outcome is a value, and which\<close>

section \<open>Exceptions and fallible results\<close>

text \<open>
  The classes the sources throw. \<open>fcgi_exception\<close>, \<open>logic_error\<close>,
  \<open>runtime_error\<close>, \<open>out_of_range\<close> and \<open>fcgi_server_exception\<close> derive from
  \<open>std::exception\<close>; \<open>db_exception\<close> does not.
\<close>

datatype exn =
    Fcgi_Exception string int
  | Logic_Error string
  | Runtime_Error string
  | Out_Of_Range string
  | Server_Exception string
  | Db_Exception string string

type_synonym 'a result = "exn + 'a"

definition bind_result :: "'a result \<Rightarrow> ('a \<Rightarrow> 'b result) \<Rightarrow> 'b result" where
  "bind_result r f = (case r of Inl e \<Rightarrow> Inl e | Inr a \<Rightarrow> f a)"

lemma bind_result_simps [simp]:
  "bind_result (Inl e) f = Inl e"
  "bind_result (Inr a) f = f a"
  by (simp_all add: bind_result_def)

lemma bind_result_Inr_iff [unpack]:
  "bind_result r f = Inr b \<longleftrightarrow> (\<exists>a. r = Inr a \<and> f a = Inr b)"
  by (cases r) auto

section \<open>Outcomes\<close>

text \<open>A value, an exception, undefined behaviour, or a loop that never ends.\<close>

datatype 'a outcome = Returns 'a | Throws exn | Undefined | Diverges

definition bind_outcome :: "'a outcome \<Rightarrow> ('a \<Rightarrow> 'b outcome) \<Rightarrow> 'b outcome" where
  "bind_outcome r f =
     (case r of Returns a \<Rightarrow> f a | Throws e \<Rightarrow> Throws e | Undefined \<Rightarrow> Undefined | Diverges \<Rightarrow> Diverges)"

lemma bind_outcome_simps [simp]:
  "bind_outcome (Returns a) f = f a"
  "bind_outcome (Throws e) f = Throws e"
  "bind_outcome Undefined f = Undefined"
  "bind_outcome Diverges f = Diverges"
  by (simp_all add: bind_outcome_def)

lemma bind_outcome_Returns_iff [unpack]:
  "bind_outcome r f = Returns b \<longleftrightarrow> (\<exists>a. r = Returns a \<and> f a = Returns b)"
  by (cases r) auto

definition of_result :: "'a result \<Rightarrow> 'a outcome" where
  "of_result r = (case r of Inl e \<Rightarrow> Throws e | Inr a \<Rightarrow> Returns a)"

lemma of_result_Returns_iff [unpack]: "of_result r = Returns a \<longleftrightarrow> r = Inr a"
  by (cases r) (simp_all add: of_result_def)

text \<open>A loop over a list whose body may fail.\<close>

fun for_each :: "('x \<Rightarrow> 'a \<Rightarrow> 'a outcome) \<Rightarrow> 'x list \<Rightarrow> 'a \<Rightarrow> 'a outcome" where
  "for_each f [] a = Returns a"
| "for_each f (x # xs) a = bind_outcome (f x a) (for_each f xs)"

section \<open>Positions in strings\<close>

text \<open>
  \<open>size_t\<close> has 64 bits. \<open>npos\<close> is its greatest value; a difference wraps.
\<close>

definition npos :: nat where
  "npos = 18446744073709551615"

definition size_sub :: "nat \<Rightarrow> nat \<Rightarrow> nat" where
  "size_sub a b = (a + (18446744073709551616 - b)) mod 18446744073709551616"

lemma size_sub_le:
  assumes "b \<le> a" "a \<le> npos"
  shows "size_sub a b = a - b"
proof -
  have "a + (18446744073709551616 - b) = (a - b) + 18446744073709551616"
    using assms by (simp add: npos_def)
  moreover have "a - b < 18446744073709551616"
    using assms by (simp add: npos_def)
  ultimately show ?thesis
    by (simp add: size_sub_def)
qed

lemma size_sub_bound: "size_sub a b \<le> npos"
proof -
  have "size_sub a b < 18446744073709551616"
    unfolding size_sub_def by (rule mod_less_divisor) simp
  then show ?thesis by (simp add: npos_def)
qed

text \<open>The first position of a byte, and of a string, in a list of bytes.\<close>

fun index_of :: "char \<Rightarrow> string \<Rightarrow> nat option" where
  "index_of c [] = None"
| "index_of c (x # xs) = (if x = c then Some 0 else map_option Suc (index_of c xs))"

fun sub_index :: "string \<Rightarrow> string \<Rightarrow> nat option" where
  "sub_index pat [] = (if pat = [] then Some 0 else None)"
| "sub_index pat (x # xs) =
     (if prefix pat (x # xs) then Some 0 else map_option Suc (sub_index pat xs))"

lemma index_of_None_iff: "index_of c s = None \<longleftrightarrow> c \<notin> set s"
  by (induction s) auto

lemma index_of_SomeD:
  "index_of c s = Some i \<Longrightarrow>
     i < length s \<and> s ! i = c \<and> c \<notin> set (take i s) \<and> s = take i s @ c # drop (Suc i) s"
  by (induction s arbitrary: i) (auto split: if_splits)

lemma index_of_Some_length: "index_of c s = Some i \<Longrightarrow> i < length s"
  by (simp add: index_of_SomeD)

lemma index_of_append_fresh: "c \<notin> set xs \<Longrightarrow> index_of c (xs @ c # ys) = Some (length xs)"
  by (induction xs) auto

lemma sub_index_SomeD:
  "sub_index pat s = Some i \<Longrightarrow> i + length pat \<le> length s \<and> prefix pat (drop i s)"
proof (induction s arbitrary: i)
  case Nil
  then show ?case by (auto split: if_splits)
next
  case (Cons x xs)
  show ?case
  proof (cases "prefix pat (x # xs)")
    case True
    then show ?thesis using Cons.prems by (auto dest: prefix_length_le)
  next
    case False
    then obtain k where "sub_index pat xs = Some k" "i = Suc k"
      using Cons.prems by auto
    then show ?thesis using Cons.IH by auto
  qed
qed

lemma sub_index_None_iff: "sub_index pat s = None \<longleftrightarrow> \<not> sublist pat s"
  by (induction s) (auto simp: sublist_Cons_right)

lemma sub_index_least: "sub_index pat s = Some i \<Longrightarrow> j < i \<Longrightarrow> \<not> prefix pat (drop j s)"
proof (induction s arbitrary: i j)
  case Nil
  then show ?case by (auto split: if_splits)
next
  case (Cons x xs)
  then show ?case
    by (cases j) (auto split: if_splits)
qed

text \<open>\<open>std::string::find_first_of(c, pos)\<close>, \<open>find(pat, pos)\<close>, \<open>substr\<close>.\<close>

definition find_first_of :: "string \<Rightarrow> char \<Rightarrow> nat \<Rightarrow> nat" where
  "find_first_of s c pos = (case index_of c (drop pos s) of None \<Rightarrow> npos | Some i \<Rightarrow> pos + i)"

definition find_str :: "string \<Rightarrow> string \<Rightarrow> nat \<Rightarrow> nat" where
  "find_str s pat pos =
     (if length s < pos then npos
      else case sub_index pat (drop pos s) of None \<Rightarrow> npos | Some i \<Rightarrow> pos + i)"

definition std_substr :: "string \<Rightarrow> nat \<Rightarrow> nat \<Rightarrow> string result" where
  "std_substr s pos n =
     (if length s < pos then Inl (Out_Of_Range ''basic_string'')
      else Inr (take n (drop pos s)))"

lemma find_first_of_cases:
  assumes "length s < npos"
  obtains (npos) "find_first_of s c pos = npos" "c \<notin> set (drop pos s)"
  | (found) i where "find_first_of s c pos = pos + i" "pos + i < length s" "pos + i < npos"
      "s ! (pos + i) = c" "c \<notin> set (take i (drop pos s))" "index_of c (drop pos s) = Some i"
proof (cases "index_of c (drop pos s)")
  case None
  then have "find_first_of s c pos = npos" "c \<notin> set (drop pos s)"
    by (simp add: find_first_of_def) (use None in \<open>simp add: index_of_None_iff\<close>)
  then show ?thesis by (rule npos)
next
  case (Some i)
  then have "i < length (drop pos s)" "drop pos s ! i = c" "c \<notin> set (take i (drop pos s))"
    by (auto dest: index_of_SomeD)
  then show ?thesis
    using found[of i] Some assms by (auto simp: find_first_of_def nth_append)
qed

section \<open>C strings\<close>

abbreviation NUL :: char where "NUL \<equiv> CHR 0x00"
abbreviation CR :: char where "CR \<equiv> CHR 0x0D"
abbreviation LF :: char where "LF \<equiv> CHR 0x0A"
abbreviation QUOTE :: char where "QUOTE \<equiv> CHR 0x22"

text \<open>What a C function sees of a NUL-terminated buffer.\<close>

definition c_str :: "string \<Rightarrow> string" where
  "c_str s = takeWhile (\<lambda>c. c \<noteq> NUL) s"

lemma c_str_id: "NUL \<notin> set s \<Longrightarrow> c_str s = s"
  by (simp add: c_str_def takeWhile_eq_all_conv) metis

lemma NUL_c_str [simp]: "NUL \<notin> set (c_str s)"
  by (auto simp: c_str_def dest: set_takeWhileD)

text \<open>\<open>tolower\<close> in the C locale, and \<open>strncasecmp(pat, s, strlen(pat)) == 0\<close>.\<close>

definition to_lower :: "char \<Rightarrow> char" where
  "to_lower c = (if 65 \<le> (of_char c :: nat) \<and> (of_char c :: nat) \<le> 90
     then char_of ((of_char c :: nat) + 32) else c)"

definition strncaseeq :: "string \<Rightarrow> string \<Rightarrow> bool" where
  "strncaseeq pat s \<longleftrightarrow> map to_lower (take (length pat) s) = map to_lower pat"

lemma strncaseeq_append [simp]: "strncaseeq pat (pat @ s)"
  by (simp add: strncaseeq_def)

lemma strncaseeq_length: "strncaseeq pat s \<Longrightarrow> length pat \<le> length s"
  by (metis strncaseeq_def length_map length_take min.absorb_iff2)

text \<open>\<open>strspn\<close> and \<open>strcspn\<close>: the length of the initial run of (other) bytes.\<close>

definition strspn :: "string \<Rightarrow> string \<Rightarrow> nat" where
  "strspn s acc = length (takeWhile (\<lambda>c. c \<in> set acc) s)"

definition strcspn :: "string \<Rightarrow> string \<Rightarrow> nat" where
  "strcspn s rej = length (takeWhile (\<lambda>c. c \<notin> set rej) s)"

lemma strspn_le: "strspn s acc \<le> length s"
  by (simp add: strspn_def length_takeWhile_le)

lemma strcspn_le: "strcspn s rej \<le> length s"
  by (simp add: strcspn_def length_takeWhile_le)

lemma take_strcspn: "take (strcspn s rej) s = takeWhile (\<lambda>c. c \<notin> set rej) s"
  by (simp add: strcspn_def takeWhile_eq_take[symmetric])

lemma strcspn_append_stop:
  "set xs \<inter> set rej = {} \<Longrightarrow> r \<in> set rej \<Longrightarrow> strcspn (xs @ r # ys) rej = length xs"
  by (induction xs) (auto simp: strcspn_def)

lemma strcspn_all: "set xs \<inter> set rej = {} \<Longrightarrow> strcspn xs rej = length xs"
  by (induction xs) (auto simp: strcspn_def)

section \<open>Numbers as text\<close>

text \<open>\<open>operator<<\<close> of an unsigned and of a signed integer, in base ten.\<close>

definition digit_char :: "nat \<Rightarrow> char" where
  "digit_char d = char_of (48 + d)"

fun show_nat :: "nat \<Rightarrow> string" where
  "show_nat n = (if n < 10 then [digit_char n] else show_nat (n div 10) @ [digit_char (n mod 10)])"

declare show_nat.simps [simp del]

definition show_int :: "int \<Rightarrow> string" where
  "show_int i = (if i < 0 then CHR ''-'' # show_nat (nat (- i)) else show_nat (nat i))"

definition is_digit :: "char \<Rightarrow> bool" where
  "is_digit c \<longleftrightarrow> 48 \<le> (of_char c :: nat) \<and> (of_char c :: nat) \<le> 57"

definition digit_val :: "char \<Rightarrow> nat" where
  "digit_val c = of_char c - 48"

definition digits_val :: "string \<Rightarrow> nat" where
  "digits_val ds = foldl (\<lambda>n c. 10 * n + digit_val c) 0 ds"

definition is_space :: "char \<Rightarrow> bool" where
  "is_space c \<longleftrightarrow> (of_char c :: nat) = 32 \<or> (9 \<le> (of_char c :: nat) \<and> (of_char c :: nat) \<le> 13)"

lemma digit_char_digit: "d < 10 \<Longrightarrow> is_digit (digit_char d) \<and> digit_val (digit_char d) = d"
  by (simp add: digit_char_def is_digit_def digit_val_def)

lemma show_nat_digits: "list_all is_digit (show_nat n)"
proof (induction n rule: show_nat.induct)
  case (1 n)
  then show ?case
    by (subst show_nat.simps) (auto simp: digit_char_digit)
qed

lemma show_nat_nonempty: "show_nat n \<noteq> []"
  by (subst show_nat.simps) simp

lemma digits_val_show_nat: "digits_val (show_nat n) = n"
proof (induction n rule: show_nat.induct)
  case (1 n)
  then show ?case
    by (subst show_nat.simps) (auto simp: digits_val_def digit_char_digit)
qed

lemma show_nat_inj: "show_nat m = show_nat n \<Longrightarrow> m = n"
  by (metis digits_val_show_nat)

lemma takeWhile_digits: "list_all is_digit s \<Longrightarrow> takeWhile is_digit s = s"
  by (induction s) auto

lemma digit_not_special:
  "is_digit c \<Longrightarrow> \<not> is_space c \<and> c \<noteq> CHR ''-'' \<and> c \<noteq> CHR ''+'' \<and> c \<noteq> NUL"
  by (auto simp: is_digit_def is_space_def)

lemma digits_no_NUL: "list_all is_digit s \<Longrightarrow> NUL \<notin> set s"
  by (auto simp: list_all_iff dest: digit_not_special)

lemma show_nat_length: "n < 10 ^ Suc w \<Longrightarrow> length (show_nat n) \<le> Suc w"
proof (induction w arbitrary: n)
  case 0
  then show ?case by (subst show_nat.simps) simp
next
  case (Suc w)
  have "length (show_nat (n div 10)) \<le> Suc w"
    using Suc.prems by (intro Suc.IH) (simp add: less_mult_imp_div_less mult.commute)
  then show ?case by (subst show_nat.simps) simp
qed

text \<open>\<open>std::setfill('0') << std::setw(w)\<close> before a number.\<close>

definition setw0 :: "nat \<Rightarrow> nat \<Rightarrow> string" where
  "setw0 w n = replicate (w - length (show_nat n)) (CHR ''0'') @ show_nat n"

lemma digits_val_zeros: "digits_val (replicate k (CHR ''0'') @ s) = digits_val s"
  by (induction k) (simp_all add: digits_val_def digit_val_def)

lemma digits_val_setw0 [simp]: "digits_val (setw0 w n) = n"
  by (simp add: setw0_def digits_val_zeros digits_val_show_nat)

lemma length_setw0: "n < 10 ^ Suc w \<Longrightarrow> length (setw0 (Suc w) n) = Suc w"
  using show_nat_length[of n w] by (simp add: setw0_def)

lemma setw0_digits: "list_all is_digit (setw0 w n)"
  using show_nat_digits[of n] by (auto simp: setw0_def is_digit_def list_all_iff)

end
