(* ===== verification/Std_Map.thy ===== *)
theory Std_Map
  imports Prelude "HOL-Library.List_Lexorder"
begin

text \<open>
  The associative containers of the C++ standard library that the sources use, as key-sorted
  association lists: an iteration from \<open>begin()\<close> to \<open>end()\<close> is a walk over the list.

  \<^item> \<open>std::map::insert\<close> does nothing when the key is present (\<open>map_insert\<close>);
  \<^item> \<open>std::multimap::insert\<close> adds behind the entries of an equal key (\<open>mmap_insert\<close>);
  \<^item> strings are ordered bytewise, lexicographically (\<open>List_Lexorder\<close> over \<open>Char_ord\<close>).

  The contract the clients rely on, insertion where the first value of a key stays, is the
  locale \<open>first_wins_map\<close>; \<open>std\<close> interprets it on \<open>map_insert\<close> and \<open>map_find\<close>.
\<close>

section \<open>The containers\<close>

fun mmap_insert :: "'k::linorder \<Rightarrow> 'v \<Rightarrow> ('k \<times> 'v) list \<Rightarrow> ('k \<times> 'v) list" where
  "mmap_insert k v [] = [(k, v)]"
| "mmap_insert k v ((k', v') # m) =
     (if k < k' then (k, v) # (k', v') # m else (k', v') # mmap_insert k v m)"

definition map_find :: "('k \<times> 'v) list \<Rightarrow> 'k \<Rightarrow> 'v option" where
  "map_find m k = map_of m k"

definition map_insert :: "'k::linorder \<Rightarrow> 'v \<Rightarrow> ('k \<times> 'v) list \<Rightarrow> ('k \<times> 'v) list" where
  "map_insert k v m = (if map_find m k = None then mmap_insert k v m else m)"

definition equal_range :: "('k \<times> 'v) list \<Rightarrow> 'k \<Rightarrow> ('k \<times> 'v) list" where
  "equal_range m k = filter (\<lambda>e. fst e = k) m"

text \<open>Sorted keys (a multimap), and sorted distinct keys (a map).\<close>

definition keys_sorted :: "('k::linorder \<times> 'v) list \<Rightarrow> bool" where
  "keys_sorted m \<longleftrightarrow> sorted (map fst m)"

definition map_wf :: "('k::linorder \<times> 'v) list \<Rightarrow> bool" where
  "map_wf m \<longleftrightarrow> sorted (map fst m) \<and> distinct (map fst m)"

lemma sorted_last_le: "sorted xs \<Longrightarrow> x \<in> set xs \<Longrightarrow> x \<le> last xs"
  by (induction xs) auto

lemma set_mmap_insert [simp]: "set (mmap_insert k v m) = insert (k, v) (set m)"
  by (induction k v m rule: mmap_insert.induct) auto

lemma mset_fst_mmap_insert: "set (map fst (mmap_insert k v m)) = insert k (fst ` set m)"
  by simp

lemma length_mmap_insert [simp]: "length (mmap_insert k v m) = Suc (length m)"
  by (induction k v m rule: mmap_insert.induct) auto

lemma mmap_insert_sorted: "keys_sorted m \<Longrightarrow> keys_sorted (mmap_insert k v m)"
  by (induction k v m rule: mmap_insert.induct) (auto simp: keys_sorted_def)

lemma mmap_insert_distinct:
  "distinct (map fst m) \<Longrightarrow> k \<notin> fst ` set m \<Longrightarrow> distinct (map fst (mmap_insert k v m))"
  by (induction k v m rule: mmap_insert.induct) auto

text \<open>A new entry goes behind those of its own key, and moves no other pair of entries.\<close>

lemma filter_mmap_insert:
  "keys_sorted m \<Longrightarrow>
     filter (\<lambda>e. fst e = k') (mmap_insert k v m) =
       filter (\<lambda>e. fst e = k') m @ (if k' = k then [(k, v)] else [])"
proof (induction k v m rule: mmap_insert.induct)
  case (2 k v k1 v1 m)
  show ?case
  proof (cases "k < k1")
    case True
    with "2.prems" have "\<forall>e \<in> set ((k1, v1) # m). fst e \<noteq> k"
      by (force simp: keys_sorted_def)
    then have "filter (\<lambda>e. fst e = k) ((k1, v1) # m) = []"
      by (simp add: filter_empty_conv)
    with True show ?thesis by auto
  next
    case False
    with "2" show ?thesis by (simp add: keys_sorted_def)
  qed
qed simp

lemma map_find_None_iff: "map_find m k = None \<longleftrightarrow> k \<notin> fst ` set m"
  by (simp add: map_find_def map_of_eq_None_iff)

lemma map_find_mmap_insert:
  "map_find m k = None \<Longrightarrow> map_find (mmap_insert k v m) k' = (if k' = k then Some v else map_find m k')"
  by (induction k v m rule: mmap_insert.induct) (auto simp: map_find_def split: if_splits)

lemma map_find_Nil [simp]: "map_find [] k = None"
  by (simp add: map_find_def)

section \<open>The contract: the first value of a key stays\<close>

locale first_wins_map =
  fixes empty :: "'m"
    and ins :: "'k \<Rightarrow> 'v \<Rightarrow> 'm \<Rightarrow> 'm"
    and look :: "'m \<Rightarrow> 'k \<Rightarrow> 'v option"
    and ok :: "'m \<Rightarrow> bool"
  assumes ok_empty: "ok empty"
    and ok_ins: "ok m \<Longrightarrow> ok (ins k v m)"
    and look_empty: "look empty k = None"
    and look_ins: "look (ins k v m) k' =
          (if k' = k \<and> look m k = None then Some v else look m k')"
begin

lemma ok_fold: "ok m \<Longrightarrow> ok (fold (\<lambda>(k, v). ins k v) kvs m)"
  by (induction kvs arbitrary: m) (auto simp: ok_ins)

lemma look_fold:
  "look (fold (\<lambda>(k, v). ins k v) kvs m) k =
     (case look m k of Some w \<Rightarrow> Some w | None \<Rightarrow> map_of kvs k)"
  by (induction kvs arbitrary: m) (auto simp: look_ins split: option.splits)

lemma look_fold_empty: "look (fold (\<lambda>(k, v). ins k v) kvs empty) k = map_of kvs k"
  by (simp add: look_fold look_empty)

lemma look_ins_present: "look m k = Some w \<Longrightarrow> look (ins k v m) k = Some w"
  by (simp add: look_ins)

end

interpretation std: first_wins_map "[]" map_insert map_find map_wf
proof unfold_locales
  show "map_wf []" by (simp add: map_wf_def)
next
  fix m :: "('a \<times> 'b) list" and k v
  assume "map_wf m"
  then show "map_wf (map_insert k v m)"
    using mmap_insert_sorted[of m k v] mmap_insert_distinct[of m k v]
    by (simp add: map_wf_def map_insert_def map_find_None_iff keys_sorted_def)
next
  fix k :: 'a
  show "map_find [] k = None" by simp
next
  fix k :: 'a and v :: 'b and m k'
  show "map_find (map_insert k v m) k' =
          (if k' = k \<and> map_find m k = None then Some v else map_find m k')"
    by (auto simp: map_insert_def map_find_mmap_insert)
qed

section \<open>The contract: entries of a key in the order of their insertion\<close>

locale ordered_multimap =
  fixes mempty :: "'m"
    and mins :: "'k \<Rightarrow> 'v \<Rightarrow> 'm \<Rightarrow> 'm"
    and vals :: "'m \<Rightarrow> 'k \<Rightarrow> 'v list"
    and mok :: "'m \<Rightarrow> bool"
  assumes mok_empty: "mok mempty"
    and mok_ins: "mok m \<Longrightarrow> mok (mins k v m)"
    and vals_empty: "vals mempty k = []"
    and vals_ins: "mok m \<Longrightarrow> vals (mins k v m) k' = vals m k' @ (if k' = k then [v] else [])"
begin

lemma mok_fold: "mok m \<Longrightarrow> mok (fold (\<lambda>(k, v). mins k v) kvs m)"
  by (induction kvs arbitrary: m) (auto simp: mok_ins)

lemma vals_fold:
  "mok m \<Longrightarrow> vals (fold (\<lambda>(k, v). mins k v) kvs m) k =
     vals m k @ map snd (filter (\<lambda>e. fst e = k) kvs)"
  by (induction kvs arbitrary: m) (auto simp: vals_ins mok_ins)

end

definition values_at :: "('k \<times> 'v) list \<Rightarrow> 'k \<Rightarrow> 'v list" where
  "values_at m k = map snd (equal_range m k)"

interpretation multi: ordered_multimap "[]" mmap_insert values_at keys_sorted
  by unfold_locales
    (simp_all add: keys_sorted_def values_at_def equal_range_def filter_mmap_insert
      mmap_insert_sorted[unfolded keys_sorted_def])

lemma map_insert_present: "map_find m k = Some w \<Longrightarrow> map_insert k v m = m"
  by (simp add: map_insert_def)

end
