(* ===== verification/Supervisor.thy ===== *)
theory Supervisor
  imports Std_Map Step_System
begin

text \<open>
  The main process, which keeps the worker processes running and takes them down when it is told
  to stop (the class \<open>MainProcess\<close> and \<open>main\<close> of \<^verbatim>\<open>src/server/main.h\<close> and
  \<^verbatim>\<open>src/server/main.cpp\<close>).

  A worker function is the number of its address. The kernel is a parameter: what \<open>waitpid\<close>
  returns, the process ids that successive calls of \<open>fork\<close> give the parent (after the last of
  them \<open>fork\<close> fails), when the stop signal arrives. The local variables \<open>signalled\<close>
  and \<open>exited\<close> of \<open>run\<close> are fields of the state.
\<close>

section \<open>State and operations\<close>

type_synonym worker_pool = "(int \<times> nat) list"
type_synonym worker_functions = "(nat \<times> (nat \<times> nat)) list"

record main_process =
  m_workers :: worker_pool
  m_functions :: worker_functions
  m_last_respawn :: int
  m_exiting :: bool
  signalled :: bool
  exited :: bool
  kills :: "int list"

definition MainProcess_new :: "int \<Rightarrow> main_process" where
  "MainProcess_new now =
     \<lparr>m_workers = [], m_functions = [], m_last_respawn = now - 5, m_exiting = False,
      signalled = False, exited = False, kills = []\<rparr>"

definition add_function :: "nat \<Rightarrow> nat \<Rightarrow> main_process \<Rightarrow> main_process" where
  "add_function fp min_workers mp = mp\<lparr>m_functions := map_insert fp (0, min_workers) (m_functions mp)\<rparr>"

definition functions_defined :: "main_process \<Rightarrow> bool" where
  "functions_defined mp \<longleftrightarrow> m_functions mp \<noteq> []"

text \<open>The \<open>while\<close> loop of \<open>spawn\<close> for one function; the flag is false when \<open>fork\<close> failed.\<close>

fun spawn_function ::
  "int list \<Rightarrow> nat \<Rightarrow> nat \<Rightarrow> nat \<Rightarrow> worker_pool \<Rightarrow> bool \<times> int list \<times> nat \<times> worker_pool" where
  "spawn_function [] f n mn ws = (\<not> n < mn, [], n, ws)"
| "spawn_function (pid # forks) f n mn ws =
     (if n < mn then spawn_function forks f (n + 1) mn (map_insert pid f ws)
      else (True, pid # forks, n, ws))"

fun spawn_loop :: "int list \<Rightarrow> worker_functions \<Rightarrow> worker_pool \<Rightarrow> worker_functions \<times> worker_pool" where
  "spawn_loop forks [] ws = ([], ws)"
| "spawn_loop forks ((f, (n, mn)) # fns) ws =
     (case spawn_function forks f n mn ws of
        (True, forks', n', ws') \<Rightarrow>
          (let (fns', ws'') = spawn_loop forks' fns ws' in ((f, (n', mn)) # fns', ws''))
      | (False, forks', n', ws') \<Rightarrow> ((f, (n', mn)) # fns, ws'))"

definition spawn :: "int \<Rightarrow> int list \<Rightarrow> main_process \<Rightarrow> main_process" where
  "spawn now forks mp =
     (let (fns, ws) = spawn_loop forks (m_functions mp) (m_workers mp)
      in mp\<lparr>m_workers := ws, m_functions := fns, m_last_respawn := now\<rparr>)"

text \<open>\<open>m_functions[k].first--\<close>, with the entry that \<open>operator[]\<close> makes for a new key.\<close>

definition count_down :: "nat \<Rightarrow> worker_functions \<Rightarrow> worker_functions" where
  "count_down k fns =
     map (\<lambda>(f, n, mn). (f, (if f = k then size_sub n 1 else n), mn)) (map_insert k (0, 0) fns)"

text \<open>
  A worker has ended. Its entry is erased before \<open>i->second\<close> is read, which is undefined:
  \<open>freed_read f\<close> is what the freed entry, which held \<open>f\<close>, reads as, and may be anything
  (that the read ends the process is left out).
\<close>

definition reap :: "int \<Rightarrow> (nat \<Rightarrow> nat) \<Rightarrow> main_process \<Rightarrow> main_process" where
  "reap pid freed_read mp =
     (case map_find (m_workers mp) pid of
        None \<Rightarrow> mp
      | Some f \<Rightarrow> mp\<lparr>m_workers := filter (\<lambda>e. fst e \<noteq> pid) (m_workers mp),
                     m_functions := count_down (freed_read f) (m_functions mp)\<rparr>)"

text \<open>One turn of the loop of \<open>run\<close>, with what the kernel does in it.\<close>

record turn =
  wait_pid :: "int option"
  freed_read :: "nat \<Rightarrow> nat"
  quit_signal :: bool
  clock :: int
  forks :: "int list"

definition after_wait :: "turn \<Rightarrow> main_process \<Rightarrow> main_process" where
  "after_wait ev mp =
     (let mp1 = (case wait_pid ev of None \<Rightarrow> mp | Some pid \<Rightarrow> reap pid (freed_read ev) mp)
      in mp1\<lparr>m_exiting := m_exiting mp1 \<or> quit_signal ev\<rparr>)"

definition run_turn :: "turn \<Rightarrow> main_process \<Rightarrow> main_process" where
  "run_turn ev mp =
     (let mp1 = after_wait ev mp
      in if m_exiting mp1 then
           (let mp2 = (if \<not> signalled mp1
                       then mp1\<lparr>signalled := True, kills := kills mp1 @ map fst (m_workers mp1)\<rparr>
                       else mp1)
            in mp2\<lparr>exited := m_workers mp2 = []\<rparr>)
         else spawn (clock ev) (forks ev) mp1)"

fun run_loop :: "turn list \<Rightarrow> main_process \<Rightarrow> main_process" where
  "run_loop [] mp = mp"
| "run_loop (ev # evs) mp = (let mp1 = run_turn ev mp in if exited mp1 then mp1 else run_loop evs mp1)"

text \<open>\<open>run\<close> returns, or ends the process with the exit code of the worker function.\<close>

datatype run_end = Returned main_process | Process_Exit int

definition main_process_run ::
  "bool \<Rightarrow> int \<Rightarrow> int \<Rightarrow> int list \<Rightarrow> turn list \<Rightarrow> main_process \<Rightarrow> run_end" where
  "main_process_run run_main_process worker_rc now pids evs mp =
     (if run_main_process then Returned (run_loop evs (spawn now pids mp)) else Process_Exit worker_rc)"

section \<open>The command line\<close>

record options =
  daemon :: bool
  run_main_process :: bool
  conf_file_path :: string

fun parse_options :: "(char \<times> string) list \<Rightarrow> options \<Rightarrow> options" where
  "parse_options [] o1 = o1"
| "parse_options ((c, optarg) # cs) o1 =
     parse_options cs
       (if c = CHR ''n'' then o1\<lparr>daemon := False\<rparr>
        else if c = CHR ''m'' then o1\<lparr>run_main_process := False\<rparr>
        else if c = CHR ''c'' then o1\<lparr>conf_file_path := optarg\<rparr>
        else o1)"

definition default_options :: options where
  "default_options = \<lparr>daemon = True, run_main_process = True, conf_file_path = ''wp_frontend.conf''\<rparr>"

text \<open>What \<open>main\<close> does after the options: in the child of the daemon fork, or in place.\<close>

datatype main_role = Daemon_Child | Daemon_Parent | Fork_Failed | Foreground

definition main_role_of :: "options \<Rightarrow> int \<Rightarrow> main_role" where
  "main_role_of opts fork_rc =
     (if daemon opts then
        (if fork_rc = 0 then Daemon_Child else if fork_rc = -1 then Fork_Failed else Daemon_Parent)
      else Foreground)"

definition main_runs :: "main_role \<Rightarrow> bool" where
  "main_runs r \<longleftrightarrow> r = Daemon_Child \<or> r = Foreground"

definition main_exit_code :: "main_process \<Rightarrow> int" where
  "main_exit_code mp = (if functions_defined mp then 0 else -1)"

section \<open>Counting the workers\<close>

definition workers_of :: "worker_pool \<Rightarrow> nat \<Rightarrow> nat" where
  "workers_of ws f = length (filter (\<lambda>e. snd e = f) ws)"

abbreviation pids :: "worker_pool \<Rightarrow> int set" where
  "pids ws \<equiv> fst ` set ws"

lemma filter_length_mmap_insert:
  "length (filter P (mmap_insert k v m)) = length (filter P m) + (if P (k, v) then 1 else 0)"
  by (induction k v m rule: mmap_insert.induct) auto

lemma map_insert_fresh: "pid \<notin> pids ws \<Longrightarrow> map_insert pid f ws = mmap_insert pid f ws"
  by (simp add: map_insert_def map_find_None_iff)

lemma workers_of_insert [simp]:
  "pid \<notin> pids ws \<Longrightarrow> workers_of (map_insert pid f ws) g = workers_of ws g + (if f = g then 1 else 0)"
  by (simp add: workers_of_def map_insert_fresh filter_length_mmap_insert)

lemma pids_insert [simp]: "pid \<notin> pids ws \<Longrightarrow> pids (map_insert pid f ws) = insert pid (pids ws)"
  by (simp add: map_insert_fresh)

text \<open>
  What one function's loop does when the process ids are new: it adds workers of that function
  only, up to the minimum unless \<open>fork\<close> fails.
\<close>

lemma spawn_function_adds:
  assumes "distinct fks" "set fks \<inter> pids ws = {}" "map_wf ws"
    "spawn_function fks f n mn ws = (ok, fks', n', ws')"
  shows "n \<le> n' \<and> (n \<le> mn \<longrightarrow> n' \<le> mn) \<and> workers_of ws' f + n = workers_of ws f + n'
    \<and> (\<forall>g. g \<noteq> f \<longrightarrow> workers_of ws' g = workers_of ws g) \<and> map_wf ws'
    \<and> distinct fks' \<and> set fks' \<inter> pids ws' = {} \<and> length fks' + n' = length fks + n
    \<and> (ok \<longleftrightarrow> mn \<le> n') \<and> (\<not> ok \<longrightarrow> fks' = [])"
  using assms
proof (induction fks f n mn ws rule: spawn_function.induct)
  case (2 pid fks f n mn ws)
  show ?case
  proof (cases "n < mn")
    case True
    have p: "pid \<notin> pids ws" using "2.prems"(2) by auto
    have "set fks \<inter> pids (map_insert pid f ws) = {}" using "2.prems"(1,2) p by auto
    moreover have "map_wf (map_insert pid f ws)" using "2.prems"(3) by (rule std.ok_ins)
    moreover have "spawn_function fks f (n + 1) mn (map_insert pid f ws) = (ok, fks', n', ws')"
      using "2.prems"(4) True by simp
    ultimately show ?thesis
      using "2.IH"[OF True] "2.prems"(1) p True by auto
  next
    case False
    with "2.prems"(4) have "ok" "fks' = pid # fks" "n' = n" "ws' = ws" by auto
    with False "2.prems"(1-3) show ?thesis by simp
  qed
qed auto

text \<open>The state between turns: one count per function, each the number of its workers.\<close>

definition counted :: "worker_pool \<Rightarrow> worker_functions \<Rightarrow> bool" where
  "counted ws fns \<longleftrightarrow> list_all (\<lambda>(f, n, mn). n = workers_of ws f \<and> n \<le> mn) fns"

lemma countedD: "counted ws fns \<Longrightarrow> (f, n, mn) \<in> set fns \<Longrightarrow> n = workers_of ws f \<and> n \<le> mn"
  by (induction fns) (auto simp: counted_def)

lemma fullD: "list_all (\<lambda>(f, n, mn). n = mn) fns \<Longrightarrow> (f, n, mn) \<in> set fns \<Longrightarrow> n = mn"
  by (induction fns) auto

lemma counted_frame:
  "\<forall>g \<in> fst ` set fns. workers_of ws' g = workers_of ws g \<Longrightarrow> counted ws' fns = counted ws fns"
  by (induction fns) (auto simp: counted_def)

lemma spawn_loop_counts:
  assumes "distinct fks" "set fks \<inter> pids ws = {}" "map_wf ws" "distinct (map fst fns)"
    "counted ws fns" "spawn_loop fks fns ws = (fns', ws')"
  shows "counted ws' fns' \<and> map_wf ws' \<and> map fst fns' = map fst fns
    \<and> map (\<lambda>e. snd (snd e)) fns' = map (\<lambda>e. snd (snd e)) fns
    \<and> (\<forall>g. g \<notin> fst ` set fns \<longrightarrow> workers_of ws' g = workers_of ws g)
    \<and> ((\<Sum>(f, n, mn) \<leftarrow> fns. mn - n) \<le> length fks \<longrightarrow> list_all (\<lambda>(f, n, mn). n = mn) fns')"
  using assms
proof (induction fks fns ws arbitrary: fns' ws' rule: spawn_loop.induct)
  case (2 fks f n mn fns ws)
  obtain ok fks1 n1 ws1 where one: "spawn_function fks f n mn ws = (ok, fks1, n1, ws1)"
    by (cases "spawn_function fks f n mn ws")
  note a = spawn_function_adds[OF "2.prems"(1-3) one]
  have f: "n = workers_of ws f" "n \<le> mn" "f \<notin> fst ` set fns" "distinct (map fst fns)"
    and rest: "counted ws fns"
    using "2.prems"(4,5) by (auto simp: counted_def)
  have rest1: "counted ws1 fns"
  proof -
    have "\<forall>g \<in> fst ` set fns. workers_of ws1 g = workers_of ws g"
      using a f(3) by metis
    from counted_frame[OF this] rest show ?thesis by blast
  qed
  have n1: "n1 = workers_of ws1 f" "n1 \<le> mn" using a f(1,2) by auto
  show ?case
  proof (cases ok)
    case True
    obtain fns2 where two: "spawn_loop fks1 fns ws1 = (fns2, ws')" "fns' = (f, n1, mn) # fns2"
      using "2.prems"(6) one True by (auto split: prod.splits)
    have ih: "counted ws' fns2 \<and> map_wf ws' \<and> map fst fns2 = map fst fns
      \<and> map (\<lambda>e. snd (snd e)) fns2 = map (\<lambda>e. snd (snd e)) fns
      \<and> (\<forall>g. g \<notin> fst ` set fns \<longrightarrow> workers_of ws' g = workers_of ws1 g)
      \<and> ((\<Sum>(f, n, mn) \<leftarrow> fns. mn - n) \<le> length fks1 \<longrightarrow> list_all (\<lambda>(f, n, mn). n = mn) fns2)"
      using True a f(4) rest1 two(1) by (intro "2.IH"[OF one[symmetric] _ refl refl]) auto
    have full: "n1 = mn" using a n1(2) True by simp
    then have "length fks1 + mn = length fks + n" using a by simp
    then have "(\<Sum>(f, n, mn) \<leftarrow> fns. mn - n) \<le> length fks1"
      if "(\<Sum>(f, n, mn) \<leftarrow> (f, n, mn) # fns. mn - n) \<le> length fks"
      using that f(2) by simp
    moreover have "workers_of ws' f = n1" using ih f(3) n1 by simp
    ultimately show ?thesis
      using ih two(2) n1 f a full by (auto simp: counted_def)
  next
    case False
    then have res: "fns' = (f, n1, mn) # fns" "ws' = ws1" using "2.prems"(6) one by auto
    have "n1 < mn" "length fks < mn - n" using a False by auto
    then show ?thesis using res n1 rest1 a by (auto simp: counted_def)
  qed
qed (auto simp: counted_def)

section \<open>The family of processes as a system of steps\<close>

definition table :: "worker_functions \<Rightarrow> (nat \<times> nat) list" where
  "table fns = map (\<lambda>e. (fst e, snd (snd e))) fns"

definition configured :: "(nat \<times> nat) list \<Rightarrow> int \<Rightarrow> main_process" where
  "configured conf now = fold (\<lambda>(f, mn). add_function f mn) conf (MainProcess_new now)"

text \<open>
  What the kernel keeps to: a process id that \<open>fork\<close> gives out is not that of a worker which
  has not been waited for. An erased entry reads as anything; the turns in which it reads as it was
  are \<open>intact\<close>.
\<close>

definition kernel_ok :: "turn \<Rightarrow> main_process \<Rightarrow> bool" where
  "kernel_ok ev mp \<longleftrightarrow> distinct (forks ev) \<and> set (forks ev) \<inter> pids (m_workers (after_wait ev mp)) = {}"

definition intact :: "turn \<Rightarrow> bool" where
  "intact ev \<longleftrightarrow> (\<forall>f. freed_read ev f = f)"

definition family_start :: "(nat \<times> nat) list \<Rightarrow> main_process \<Rightarrow> bool" where
  "family_start conf mp \<longleftrightarrow> list_all (\<lambda>(f, mn). mn \<le> npos) conf \<and>
     (\<exists>now0 now fks. distinct fks \<and> mp = spawn now fks (configured conf now0))"

definition family_step :: "main_process \<Rightarrow> main_process \<Rightarrow> bool" where
  "family_step mp mp' \<longleftrightarrow> \<not> exited mp \<and> (\<exists>ev. kernel_ok ev mp \<and> mp' = run_turn ev mp)"

definition intact_step :: "main_process \<Rightarrow> main_process \<Rightarrow> bool" where
  "intact_step mp mp' \<longleftrightarrow> \<not> exited mp \<and> (\<exists>ev. kernel_ok ev mp \<and> intact ev \<and> mp' = run_turn ev mp)"

definition family_ok :: "(nat \<times> nat) list \<Rightarrow> main_process \<Rightarrow> bool" where
  "family_ok tab mp \<longleftrightarrow> map_wf (m_workers mp) \<and> map_wf (m_functions mp) \<and>
     counted (m_workers mp) (m_functions mp) \<and> table (m_functions mp) = tab \<and>
     list_all (\<lambda>(f, mn). mn \<le> npos) tab \<and>
     (\<forall>g. g \<notin> fst ` set (m_functions mp) \<longrightarrow> workers_of (m_workers mp) g = 0)"

lemma map_fst_table: "table fns' = table fns \<Longrightarrow> map fst fns' = map fst fns"
  unfolding table_def by (drule arg_cong[where f = "map fst"]) (simp add: comp_def)

lemma keys_same: "map fst fns' = map fst fns \<Longrightarrow> fst ` set fns' = fst ` set fns"
  by (metis set_map)

lemma spawn_ok:
  assumes "family_ok tab mp" "distinct fks" "set fks \<inter> pids (m_workers mp) = {}"
  shows "family_ok tab (spawn now fks mp)"
    and "(\<Sum>(f, n, mn) \<leftarrow> m_functions mp. mn - n) \<le> length fks \<Longrightarrow>
      list_all (\<lambda>(f, n, mn). n = mn) (m_functions (spawn now fks mp))"
proof -
  obtain fns' ws' where s: "spawn_loop fks (m_functions mp) (m_workers mp) = (fns', ws')"
    by (cases "spawn_loop fks (m_functions mp) (m_workers mp)")
  have "map_wf (m_workers mp)" "distinct (map fst (m_functions mp))" "counted (m_workers mp) (m_functions mp)"
    using assms(1) by (auto simp: family_ok_def map_wf_def)
  note c = spawn_loop_counts[OF assms(2,3) this s]
  then have "map fst fns' = map fst (m_functions mp)" and "table fns' = table (m_functions mp)"
    unfolding table_def by (simp_all add: list_eq_iff_nth_eq)
  then show "family_ok tab (spawn now fks mp)"
    using assms(1) c s keys_same[of fns' "m_functions mp"]
    by (simp add: family_ok_def spawn_def map_wf_def)
  show "(\<Sum>(f, n, mn) \<leftarrow> m_functions mp. mn - n) \<le> length fks \<Longrightarrow>
      list_all (\<lambda>(f, n, mn). n = mn) (m_functions (spawn now fks mp))"
    using c s by (simp add: spawn_def)
qed

lemma workers_of_erase:
  "distinct (map fst ws) \<Longrightarrow> map_find ws pid = Some f \<Longrightarrow>
   workers_of ws g = workers_of (filter (\<lambda>e. fst e \<noteq> pid) ws) g + (if g = f then 1 else 0)"
proof (induction ws)
  case (Cons e ws)
  show ?case
  proof (cases "fst e = pid")
    case True
    then have "filter (\<lambda>e. fst e \<noteq> pid) ws = ws"
      using Cons.prems(1) by (intro filter_True) (force simp: image_iff)
    then show ?thesis using True Cons.prems(2) by (cases e) (simp add: workers_of_def map_find_def)
  next
    case False
    then show ?thesis using Cons by (cases e; cases "g = f") (simp_all add: workers_of_def map_find_def)
  qed
qed (simp add: map_find_def)

lemma map_wf_filter: "map_wf m \<Longrightarrow> map_wf (filter P m)"
  by (induction m) (auto simp: map_wf_def)

lemma count_down_present:
  "f \<in> fst ` set fns \<Longrightarrow>
   count_down f fns = map (\<lambda>(g, n, mn). (g, (if g = f then size_sub n 1 else n), mn)) fns"
  by (simp add: count_down_def map_insert_def map_find_None_iff)

lemma reap_ok:
  assumes "family_ok tab mp" "\<And>f. freed f = f"
  shows "family_ok tab (reap pid freed mp)"
proof (cases "map_find (m_workers mp) pid")
  case None
  then show ?thesis using assms(1) by (simp add: reap_def)
next
  case (Some f)
  let ?ws = "filter (\<lambda>e. fst e \<noteq> pid) (m_workers mp)" and ?fns = "m_functions mp"
  have wf: "map_wf (m_workers mp)" "map_wf ?fns" "counted (m_workers mp) ?fns"
    and out: "\<And>g. g \<notin> fst ` set ?fns \<Longrightarrow> workers_of (m_workers mp) g = 0"
    and tab: "table ?fns = tab" "list_all (\<lambda>(f, mn). mn \<le> npos) tab"
    using assms(1) by (auto simp: family_ok_def)
  have erase: "workers_of (m_workers mp) g = workers_of ?ws g + (if g = f then 1 else 0)" for g
    using wf(1) Some by (intro workers_of_erase) (simp_all add: map_wf_def)
  have mem: "f \<in> fst ` set ?fns" using out[of f] erase[of f] by fastforce
  have r: "m_functions (reap pid freed mp) =
      map (\<lambda>(g, n, mn). (g, (if g = f then size_sub n 1 else n), mn)) ?fns"
    "m_workers (reap pid freed mp) = ?ws"
    using Some mem assms(2) by (simp_all add: reap_def count_down_present)
  have keys: "map fst (m_functions (reap pid freed mp)) = map fst ?fns"
    and tab': "table (m_functions (reap pid freed mp)) = tab"
    using tab(1) by (auto simp: r(1) table_def)
  have bound: "mn \<le> npos" if "(g, n, mn) \<in> set ?fns" for g n mn
    using tab that by (force simp: table_def list_all_iff)
  have "counted ?ws (m_functions (reap pid freed mp))"
    unfolding r(1) counted_def list_all_iff
  proof safe
    fix g n mn
    assume "(g, n, mn) \<in> set (map (\<lambda>(g, n, mn). (g, (if g = f then size_sub n 1 else n), mn)) ?fns)"
    then obtain k where k: "(g, k, mn) \<in> set ?fns" "n = (if g = f then size_sub k 1 else k)" by auto
    then have "k = workers_of (m_workers mp) g" "k \<le> mn"
      using wf(3) by (force simp: counted_def list_all_iff)+
    then show "n = workers_of ?ws g" "n \<le> mn"
      using k(2) erase[of g] bound[OF k(1)] by (auto simp: size_sub_le)
  qed
  moreover have "workers_of ?ws g = 0" if "g \<notin> fst ` set ?fns" for g
    using out[OF that] erase[of g] by simp
  ultimately show ?thesis
    using wf(1,2) tab(2) tab' r(2) keys keys_same[OF keys] map_wf_filter[OF wf(1)]
    by (simp add: family_ok_def map_wf_def)
qed

lemma set_map_insert: "e \<in> set (map_insert k v m) \<Longrightarrow> e = (k, v) \<or> e \<in> set m"
  by (auto simp: map_insert_def split: if_splits)

lemma configured_ok:
  assumes "list_all (\<lambda>(f, mn). mn \<le> npos) conf"
  shows "family_ok (table (m_functions (configured conf now))) (configured conf now)"
proof -
  let ?F = "\<lambda>conf. fold (\<lambda>(f, mn). map_insert f (0, mn)) conf []"
  have "configured conf now = (MainProcess_new now)\<lparr>m_functions := ?F conf\<rparr>"
    unfolding configured_def
    by (induction conf rule: rev_induct) (auto simp: MainProcess_new_def add_function_def)
  moreover have "map_wf (?F conf) \<and> (\<forall>(f, n, mn) \<in> set (?F conf). n = 0 \<and> mn \<le> npos)"
    using assms
  proof (induction conf rule: rev_induct)
    case (snoc e conf)
    then show ?case
      by (cases e) (auto simp: std.ok_ins dest: set_map_insert)
  qed (simp add: map_wf_def)
  ultimately show ?thesis
    by (auto simp: family_ok_def MainProcess_new_def workers_of_def counted_def table_def
        list_all_iff map_wf_def)
qed

lemma family_ok_cong:
  "m_workers mp' = m_workers mp \<Longrightarrow> m_functions mp' = m_functions mp \<Longrightarrow> family_ok tab mp' = family_ok tab mp"
  by (simp add: family_ok_def)

lemma after_wait_ok:
  assumes "family_ok tab mp" "\<And>f. freed_read ev f = f"
  shows "family_ok tab (after_wait ev mp)"
  using assms reap_ok[OF assms(1), of "freed_read ev"]
  by (auto simp: after_wait_def Let_def cong: family_ok_cong split: option.splits)

lemma run_turn_ok:
  assumes "family_ok tab mp" "kernel_ok ev mp" "intact ev"
  shows "family_ok tab (run_turn ev mp)"
proof -
  have a: "family_ok tab (after_wait ev mp)"
    using assms by (intro after_wait_ok) (simp_all add: intact_def)
  show ?thesis
  proof (cases "m_exiting (after_wait ev mp)")
    case True
    then have "m_workers (run_turn ev mp) = m_workers (after_wait ev mp)"
      "m_functions (run_turn ev mp) = m_functions (after_wait ev mp)"
      by (simp_all add: run_turn_def Let_def)
    then show ?thesis using a by (simp cong: family_ok_cong)
  next
    case False
    then show ?thesis using a assms(2) by (simp add: run_turn_def Let_def kernel_ok_def spawn_ok(1))
  qed
qed

lemma family_start_ok:
  "family_start conf mp \<Longrightarrow> family_ok (table (m_functions (configured conf 0))) mp"
proof -
  assume "family_start conf mp"
  then obtain now0 now fks where s: "list_all (\<lambda>(f, mn). mn \<le> npos) conf" "distinct fks"
    "mp = spawn now fks (configured conf now0)"
    by (auto simp: family_start_def)
  have same: "m_functions (configured conf n) = m_functions (configured conf 0)"
    "m_workers (configured conf n) = []" for n
    unfolding configured_def
    by (induction conf rule: rev_induct) (auto simp: MainProcess_new_def add_function_def)
  show ?thesis
    unfolding s(3) using configured_ok[OF s(1), of now0] s(2) same(1)[of now0] same(2)
    by (intro spawn_ok(1)) simp_all
qed

interpretation family: invariant_system
  "family_start conf" intact_step "family_ok (table (m_functions (configured conf 0)))" for conf
  by unfold_locales (auto simp: family_start_ok intact_step_def intro: run_turn_ok)

text \<open>The configuration of \<open>main\<close>, one worker process, as an example: it runs as process 100.\<close>

definition one_worker :: main_process where
  "one_worker = \<lparr>m_workers = [(100, 1)], m_functions = [(1, (1, 1))], m_last_respawn = 5,
     m_exiting = False, signalled = False, exited = False, kills = []\<rparr>"

lemma one_worker_start: "family_start [(1, 1)] one_worker"
  unfolding family_start_def
proof (intro conjI exI)
  show "one_worker = spawn 5 [100] (configured [(1, 1)] 0)"
    by (simp add: one_worker_def spawn_def configured_def add_function_def MainProcess_new_def map_insert_def)
qed (simp_all add: npos_def)

definition turn_of :: "int option \<Rightarrow> bool \<Rightarrow> int list \<Rightarrow> turn" where
  "turn_of pid quit fks = \<lparr>wait_pid = pid, freed_read = (\<lambda>f. f), quit_signal = quit, clock = 6, forks = fks\<rparr>"

section \<open>What the main process guarantees\<close>

text \<open>While every erased entry still reads as it was, the count kept for a worker function is the number
  of living workers that run it, never above its minimum; every worker runs a configured function, and
  the configuration stays as it was.\<close>

lemma counts_while_intact:
  assumes "reach (family_start conf) intact_step mp"
  shows "(\<forall>(f, n, mn) \<in> set (m_functions mp). n = workers_of (m_workers mp) f \<and> n \<le> mn)
    \<and> (\<forall>f. f \<notin> fst ` set (m_functions mp) \<longrightarrow> workers_of (m_workers mp) f = 0)
    \<and> table (m_functions mp) = table (m_functions (configured conf 0))"
  using family.reach_inv[OF assms] by (auto simp: family_ok_def counted_def list_all_iff)

text \<open>So long as nobody asks it to stop, the main process then brings every function back to its
  minimum of workers in one turn, whichever worker has ended, if \<open>fork\<close> succeeds often enough.\<close>

lemma respawn_while_intact:
  assumes "reach (family_start conf) intact_step mp" "kernel_ok ev mp" "intact ev"
    and "\<not> m_exiting mp" "\<not> quit_signal ev"
    and "(\<Sum>(f, mn) \<leftarrow> table (m_functions mp). mn) \<le> length (forks ev)"
  shows "\<forall>(f, mn) \<in> set (table (m_functions (configured conf 0))).
    workers_of (m_workers (run_turn ev mp)) f = mn"
proof -
  let ?tab = "table (m_functions (configured conf 0))"
  let ?a = "after_wait ev mp" and ?mp' = "run_turn ev mp"
  have ok: "family_ok ?tab mp" using assms(1) by (rule family.reach_inv)
  have a: "family_ok ?tab ?a" using ok assms(3) by (intro after_wait_ok) (simp_all add: intact_def)
  have "\<not> m_exiting ?a"
    using assms(4,5) by (auto simp: after_wait_def reap_def Let_def split: option.splits)
  then have s: "?mp' = spawn (clock ev) (forks ev) ?a" by (simp add: run_turn_def Let_def)
  have "(\<Sum>(f, n, mn) \<leftarrow> m_functions ?a. mn - n) \<le> (\<Sum>(f, n, mn) \<leftarrow> m_functions ?a. mn)"
    by (rule sum_list_mono) auto
  also have "\<dots> = (\<Sum>(f, mn) \<leftarrow> table (m_functions ?a). mn)"
    by (simp only: table_def map_map comp_def case_prod_unfold fst_conv snd_conv)
  also have "table (m_functions ?a) = table (m_functions mp)"
    using ok a by (simp add: family_ok_def)
  finally have full: "list_all (\<lambda>(f, n, mn). n = mn) (m_functions ?mp')"
    using assms(2,6) a unfolding s kernel_ok_def by (intro spawn_ok(2)) auto
  have "family_ok ?tab ?mp'" using ok assms(2,3) by (rule run_turn_ok)
  then have tab: "?tab = table (m_functions ?mp')" and c: "counted (m_workers ?mp') (m_functions ?mp')"
    by (auto simp: family_ok_def)
  show ?thesis
    unfolding tab
  proof safe
    fix f mn
    assume "(f, mn) \<in> set (table (m_functions ?mp'))"
    then obtain n where e: "(f, n, mn) \<in> set (m_functions ?mp')" by (auto simp: table_def)
    show "workers_of (m_workers ?mp') f = mn"
      using countedD[OF c e] fullD[OF full e] by simp
  qed
qed

text \<open>A turn while the process is stopping only takes the ended worker out.\<close>

lemma stopping_turn:
  assumes "m_exiting mp" "signalled mp"
  shows "m_workers (run_turn ev mp) = filter (\<lambda>e. wait_pid ev \<noteq> Some (fst e)) (m_workers mp)"
    "m_exiting (run_turn ev mp)" "signalled (run_turn ev mp)" "kills (run_turn ev mp) = kills mp"
    "exited (run_turn ev mp) \<longleftrightarrow> m_workers (run_turn ev mp) = []"
proof -
  have "filter (\<lambda>e. fst e \<noteq> pid) (m_workers mp) = m_workers mp" if "map_find (m_workers mp) pid = None" for pid
    using that by (intro filter_True) (force simp: map_find_None_iff)
  then have "m_workers (reap pid r mp) = filter (\<lambda>e. fst e \<noteq> pid) (m_workers mp)" for pid r
    by (simp add: reap_def split: option.splits)
  moreover have "(\<lambda>e. Some pid \<noteq> Some (fst e)) = (\<lambda>e :: int \<times> nat. fst e \<noteq> pid)" for pid :: int
    by auto
  moreover have "m_exiting (reap pid r mp)" "signalled (reap pid r mp)" for pid r
    using assms by (simp_all add: reap_def split: option.splits)
  ultimately show "m_workers (run_turn ev mp) = filter (\<lambda>e. wait_pid ev \<noteq> Some (fst e)) (m_workers mp)"
    using assms by (cases "wait_pid ev") (simp_all add: run_turn_def after_wait_def Let_def)
qed (use assms in \<open>auto simp: run_turn_def after_wait_def reap_def Let_def split: option.splits\<close>)

lemma stopping_loop:
  assumes "m_exiting mp" "signalled mp" "m_workers mp \<noteq> []"
    "\<forall>p \<in> pids (m_workers mp). Some p \<in> wait_pid ` set evs"
  shows "exited (run_loop evs mp) \<and> m_workers (run_loop evs mp) = [] \<and> kills (run_loop evs mp) = kills mp"
  using assms
proof (induction evs arbitrary: mp)
  case (Cons ev evs)
  note st = stopping_turn[OF Cons.prems(1,2), of ev]
  show ?case
  proof (cases "m_workers (run_turn ev mp) = []")
    case False
    have "\<forall>p \<in> pids (m_workers (run_turn ev mp)). Some p \<in> wait_pid ` set evs"
      using Cons.prems(4) by (force simp: st(1))
    then show ?thesis using Cons.IH[OF st(2,3) False] False st by simp
  qed (use st in simp)
qed auto

text \<open>A stop is orderly and ends: when the signal has come, every worker that is then alive is
  told to quit, once; no worker is started again; and once the workers have all been waited for, in
  whatever order and among other children, the main process leaves its loop.\<close>

theorem shutdown_completes:
  assumes "\<not> signalled mp" "quit_signal ev \<or> m_exiting mp"
    and "\<forall>p \<in> pids (m_workers (after_wait ev mp)). Some p \<in> wait_pid ` set evs"
  shows "exited (run_loop (ev # evs) mp) \<and> m_workers (run_loop (ev # evs) mp) = []
    \<and> kills (run_loop (ev # evs) mp) = kills mp @ map fst (m_workers (after_wait ev mp))"
proof -
  let ?a = "after_wait ev mp" and ?r = "run_turn ev mp"
  have a: "m_exiting ?a" "\<not> signalled ?a" "kills ?a = kills mp"
    using assms(1,2) by (auto simp: after_wait_def reap_def Let_def split: option.splits)
  have r: "m_workers ?r = m_workers ?a" "m_exiting ?r" "signalled ?r"
    "kills ?r = kills mp @ map fst (m_workers ?a)" "exited ?r \<longleftrightarrow> m_workers ?a = []"
    using a by (simp_all add: run_turn_def Let_def)
  show ?thesis
  proof (cases "m_workers ?a = []")
    case False
    then show ?thesis
      using stopping_loop[OF r(2,3), of evs] r assms(3) by (simp add: Let_def)
  qed (use r in simp)
qed

theorem shutdown_completes_witness:
  "exited (run_loop [turn_of None True [], turn_of (Some 7) False [], turn_of (Some 100) False [200]] one_worker)
    \<and> kills (run_loop [turn_of None True [], turn_of (Some 7) False [], turn_of (Some 100) False [200]] one_worker) = [100]"
proof -
  let ?ev = "turn_of None True []" and ?evs = "[turn_of (Some 7) False [], turn_of (Some 100) False [200]]"
  have "m_workers (after_wait ?ev one_worker) = [(100, 1)]"
    by (simp add: after_wait_def turn_of_def one_worker_def)
  moreover have "\<not> signalled one_worker" "quit_signal ?ev \<or> m_exiting one_worker"
    "kills one_worker = []"
    by (simp_all add: one_worker_def turn_of_def)
  ultimately show ?thesis
    using shutdown_completes[of one_worker ?ev ?evs] by (simp add: turn_of_def)
qed

lemma map_find_count_down:
  "map_find (count_down g fns) k =
     map_option (\<lambda>(n, mn). (if k = g then size_sub n 1 else n, mn)) (map_find (map_insert g (0, 0) fns) k)"
proof -
  have "map_of (map (\<lambda>(f, n, mn). (f, (if f = g then size_sub n 1 else n), mn)) m) k =
      map_option (\<lambda>(n, mn). (if k = g then size_sub n 1 else n, mn)) (map_of m k)" for m
    by (induction m) auto
  then show ?thesis by (simp add: count_down_def map_find_def)
qed

lemma spawn_loop_full: "list_all (\<lambda>(f, n, mn). mn \<le> n) fns \<Longrightarrow> spawn_loop fks fns ws = (fns, ws)"
proof (induction fns)
  case (Cons e fns)
  obtain f n mn where e: "e = (f, n, mn)" by (cases e)
  have "spawn_function fks f n mn ws = (True, fks, n, ws)"
    using Cons.prems e by (cases fks) auto
  then show ?case using Cons e by simp
qed simp

lemma count_down_stranger:
  assumes "list_all (\<lambda>(f, n, mn). n = mn) fns" "g \<notin> fst ` set fns"
  shows "list_all (\<lambda>(f, n, mn). mn \<le> n) (count_down g fns)"
proof -
  have "mn \<le> n" if new: "(h, n, mn) \<in> set (count_down g fns)" for h n mn
  proof -
    obtain k where k: "(h, k, mn) \<in> set (map_insert g (0, 0) fns)" "n = (if h = g then size_sub k 1 else k)"
      using new by (auto simp: count_down_def)
    from set_map_insert[OF k(1)] show ?thesis
    proof
      assume "(h, k, mn) \<in> set fns"
      then have "k = mn" "h \<noteq> g" using fullD[OF assms(1)] assms(2) by (auto simp: image_iff)
      then show ?thesis using k(2) by simp
    qed simp
  qed
  then show ?thesis by (auto simp: list_all_iff)
qed

text \<open>\<open>i->second\<close> is read after the entry was erased. If that memory has been used again
  and holds an address that is no worker function, the count of the worker's function stays: no
  worker takes the place of the one that ended, in this turn or in any later call of
  \<open>spawn\<close>, and the table has a made-up entry whose count has wrapped around.\<close>

theorem stale_entry_loses_worker:
  assumes "family_ok tab mp" "list_all (\<lambda>(f, n, mn). n = mn) (m_functions mp)"
    and "map_find (m_workers mp) pid = Some f" "wait_pid ev = Some pid"
    and "freed_read ev f = g" "g \<notin> fst ` set (m_functions mp)"
    and "\<not> m_exiting mp" "\<not> quit_signal ev"
  shows "m_workers (run_turn ev mp) = filter (\<lambda>e. fst e \<noteq> pid) (m_workers mp)
    \<and> Suc (workers_of (m_workers (run_turn ev mp)) f) = workers_of (m_workers mp) f
    \<and> map_find (m_functions (run_turn ev mp)) f = map_find (m_functions mp) f
    \<and> map_find (m_functions (run_turn ev mp)) g = Some (npos, 0)
    \<and> (\<forall>now fks. m_workers (spawn now fks (run_turn ev mp)) = m_workers (run_turn ev mp))"
proof -
  let ?ws = "filter (\<lambda>e. fst e \<noteq> pid) (m_workers mp)"
  let ?fns = "count_down g (m_functions mp)"
  have full: "list_all (\<lambda>(f, n, mn). mn \<le> n) ?fns" by (rule count_down_stranger[OF assms(2,6)])
  have "after_wait ev mp = mp\<lparr>m_workers := ?ws, m_functions := ?fns\<rparr>"
    using assms(3-5,7,8) by (simp add: after_wait_def reap_def Let_def)
  then have turn: "run_turn ev mp = mp\<lparr>m_workers := ?ws, m_functions := ?fns, m_last_respawn := clock ev\<rparr>"
    using assms(7,8) full by (simp add: run_turn_def Let_def spawn_def spawn_loop_full)
  have "f \<noteq> g"
  proof
    assume "f = g"
    then have "workers_of (m_workers mp) f = 0" using assms(1,6) by (simp add: family_ok_def)
    moreover have "(pid, f) \<in> set (m_workers mp)" using assms(3) by (simp add: map_find_def map_of_SomeD)
    ultimately show False by (auto simp: workers_of_def filter_empty_conv)
  qed
  then have f: "map_find ?fns f = map_find (m_functions mp) f"
    by (cases "map_find (m_functions mp) f") (auto simp: map_find_count_down std.look_ins)
  have "map_find (m_functions mp) g = None" using assms(6) by (simp add: map_find_None_iff)
  then have g: "map_find ?fns g = Some (npos, 0)"
    by (simp add: map_find_count_down std.look_ins size_sub_def npos_def)
  have w: "Suc (workers_of ?ws f) = workers_of (m_workers mp) f"
    using assms(1,3) workers_of_erase[of "m_workers mp" pid f f] by (simp add: family_ok_def map_wf_def)
  have "m_workers (spawn now fks (run_turn ev mp)) = ?ws" for now fks
    using full by (simp add: turn spawn_def spawn_loop_full)
  then show ?thesis using f g w by (simp add: turn)
qed

theorem stale_entry_loses_worker_witness:
  "m_workers (run_turn ((turn_of (Some 100) False [101, 102])\<lparr>freed_read := \<lambda>_. 0\<rparr>) one_worker) = []"
proof -
  let ?ev = "(turn_of (Some 100) False [101, 102])\<lparr>freed_read := \<lambda>_. 0\<rparr>"
  have ok: "family_ok (table (m_functions (configured [(1, 1)] 0))) one_worker"
    using one_worker_start by (rule family_start_ok)
  have "list_all (\<lambda>(f, n, mn). n = mn) (m_functions one_worker)"
    "map_find (m_workers one_worker) 100 = Some 1" "wait_pid ?ev = Some 100" "freed_read ?ev 1 = 0"
    "0 \<notin> fst ` set (m_functions one_worker)" "\<not> m_exiting one_worker" "\<not> quit_signal ?ev"
    by (simp_all add: one_worker_def turn_of_def map_find_def)
  from stale_entry_loses_worker[OF ok this] show ?thesis by (simp add: one_worker_def)
qed

text \<open>The options can come in any order; of several configuration files the last is kept.\<close>

lemma parse_options_flags:
  "daemon (parse_options cs opts) \<longleftrightarrow> daemon opts \<and> CHR ''n'' \<notin> fst ` set cs"
  "run_main_process (parse_options cs opts) \<longleftrightarrow> run_main_process opts \<and> CHR ''m'' \<notin> fst ` set cs"
  by (induction cs opts rule: parse_options.induct) auto

end
