(* ===== verification/Worker_Counts.thy ===== *)
theory Worker_Counts
  imports Supervisor
begin

text \<open>
  The counts that the main process keeps of its workers (\<open>MainProcess::run\<close> and
  \<open>MainProcess::spawn\<close> of \<^verbatim>\<open>src/server/main.cpp\<close>), whatever the entry of an
  ended worker reads as after it has been erased: what still holds of the counts in every reachable
  state, and which function a worker is started for in the place of the one that ended.
\<close>

section \<open>The sum of the counts\<close>

text \<open>
  A count that is lowered below 0 wraps around. \<open>signed\<close> reads such a count as the negative number it
  stands for; \<open>total\<close> is the sum of the counts so read.
\<close>

definition signed :: "nat \<Rightarrow> int" where
  "signed n = (if n < 9223372036854775808 then int n else int n - 18446744073709551616)"

definition total :: "worker_functions \<Rightarrow> int" where
  "total fns = (\<Sum>(f, n, mn) \<leftarrow> fns. signed n)"

definition wanted :: "(nat \<times> nat) list \<Rightarrow> nat" where
  "wanted tab = (\<Sum>(f, mn) \<leftarrow> tab. mn)"

lemma signed_0 [simp]: "signed 0 = 0"
  by (simp add: signed_def)

lemma total_simps [simp]: "total [] = 0" "total ((f, n, mn) # fns) = signed n + total fns"
  by (simp_all add: total_def)

lemma table_simps [simp]: "table [] = []" "table ((f, n, mn) # fns) = (f, mn) # table fns"
  by (simp_all add: table_def)

lemma wanted_simps [simp]: "wanted [] = 0" "wanted ((f, mn) # tab) = mn + wanted tab"
  by (simp_all add: wanted_def)

lemma total_insert: "total (map_insert k (0, mn) fns) = total fns"
proof -
  have "total (mmap_insert k (0, mn) fns) = total fns"
    by (induction k "(0 :: nat, mn)" fns rule: mmap_insert.induct) (auto simp: total_def)
  then show ?thesis by (simp add: map_insert_def)
qed

lemma wanted_insert: "wanted (table (map_insert k (n, 0) fns)) = wanted (table fns)"
proof -
  have "wanted (table (mmap_insert k (n, 0) fns)) = wanted (table fns)"
    by (induction k "(n, 0 :: nat)" fns rule: mmap_insert.induct) (auto simp: table_def wanted_def)
  then show ?thesis by (simp add: map_insert_def)
qed

lemma signed_pred: "n \<le> npos \<Longrightarrow> - 9223372036854775808 < signed n \<Longrightarrow> signed (size_sub n 1) = signed n - 1"
  by (cases n) (auto simp: size_sub_def npos_def signed_def)

text \<open>A count that is below a minimum is not one that wrapped around.\<close>

definition bounded_counts :: "worker_functions \<Rightarrow> bool" where
  "bounded_counts fns \<longleftrightarrow> list_all (\<lambda>(f, n, mn). n \<le> npos \<and> signed n \<le> int mn) fns"

lemma bounded_simps [simp]:
  "bounded_counts []"
  "bounded_counts ((f, n, mn) # fns) \<longleftrightarrow> n \<le> npos \<and> signed n \<le> int mn \<and> bounded_counts fns"
  by (simp_all add: bounded_counts_def)


lemma total_upper: "bounded_counts fns \<Longrightarrow> total fns \<le> int (wanted (table fns))"
  by (induction fns) auto

text \<open>No count is lower than what the sum and the other counts leave for it.\<close>

lemma signed_lower:
  "bounded_counts fns \<Longrightarrow> (f, n, mn) \<in> set fns \<Longrightarrow> total fns - int (wanted (table fns)) \<le> signed n"
proof (induction fns)
  case (Cons e fns)
  obtain g m k where e: "e = (g, m, k)" by (cases e)
  show ?case using Cons total_upper[of fns] by (auto simp: e)
qed simp

definition lower :: "nat \<Rightarrow> worker_functions \<Rightarrow> worker_functions" where
  "lower g = map (\<lambda>(f, n, mn). (f, (if f = g then size_sub n 1 else n), mn))"

lemma count_down_lower: "count_down g fns = lower g (map_insert g (0, 0) fns)"
  by (simp add: count_down_def lower_def)

lemma lower_simps [simp]:
  "lower g [] = []"
  "lower g ((f, n, mn) # fns) = (f, (if f = g then size_sub n 1 else n), mn) # lower g fns"
  by (simp_all add: lower_def)

lemma lower_absent: "g \<notin> fst ` set fns \<Longrightarrow> lower g fns = fns"
  by (induction fns) auto

lemma lower_table [simp]: "map fst (lower g fns) = map fst fns" "table (lower g fns) = table fns"
  by (auto simp: lower_def table_def)

lemma total_lower:
  assumes "g \<in> fst ` set fns" "distinct (map fst fns)" "bounded_counts fns"
    "\<forall>(f, n, mn) \<in> set fns. - 9223372036854775808 < signed n"
  shows "total (lower g fns) = total fns - 1"
  using assms
proof (induction fns)
  case (Cons e fns)
  obtain f n mn where e: "e = (f, n, mn)" by (cases e)
  show ?case
  proof (cases "f = g")
    case True
    then have "lower g fns = fns" using Cons.prems(2) e by (intro lower_absent) auto
    moreover have "signed (size_sub n 1) = signed n - 1"
      using Cons.prems(3,4) e by (intro signed_pred) auto
    ultimately show ?thesis using e True by simp
  next
    case False
    then have "total (lower g fns) = total fns - 1"
      using Cons e by (intro Cons.IH) auto
    then show ?thesis using e False by simp
  qed
qed simp

lemma bounded_lower:
  "bounded_counts fns \<Longrightarrow> \<forall>(f, n, mn) \<in> set fns. - 9223372036854775808 < signed n \<Longrightarrow> bounded_counts (lower g fns)"
proof (induction fns)
  case (Cons e fns)
  obtain f n mn where e: "e = (f, n, mn)" by (cases e)
  have "signed (size_sub n 1) = signed n - 1" using Cons.prems e by (intro signed_pred) auto
  then show ?case using Cons e size_sub_bound[of n 1] by auto
qed simp

text \<open>Counting one function down lowers the sum by one.\<close>

lemma total_count_down:
  assumes "map_wf fns" "bounded_counts fns" "0 \<le> total fns" "wanted (table fns) < 9223372036854775808"
  shows "total (count_down g fns) = total fns - 1" "bounded_counts (count_down g fns)"
proof -
  let ?fns = "map_insert g (0, 0) fns"
  have b: "bounded_counts ?fns"
    using assms(2) set_map_insert[of _ g "(0, 0)" fns] by (fastforce simp: bounded_counts_def list_all_iff)
  have low: "\<forall>(f, n, mn) \<in> set ?fns. - 9223372036854775808 < signed n"
    using signed_lower[OF b] assms(3,4) by (fastforce simp: total_insert wanted_insert)
  have "g \<in> fst ` set ?fns"
    using std.look_ins[of g "(0, 0)" fns g] map_find_None_iff[of ?fns g] by (auto split: if_splits)
  moreover have "distinct (map fst ?fns)" using std.ok_ins[OF assms(1)] by (simp add: map_wf_def)
  ultimately show "total (count_down g fns) = total fns - 1"
    using b low by (simp add: count_down_lower total_lower total_insert)
  show "bounded_counts (count_down g fns)" using b low by (simp add: count_down_lower bounded_lower)
qed

section \<open>Starting workers\<close>

text \<open>What the loops of \<open>spawn\<close> add, for any counts.\<close>

lemma spawn_function_total:
  assumes "distinct fks" "set fks \<inter> pids ws = {}" "map_wf ws" "mn < 9223372036854775808"
    "n \<le> npos" "signed n \<le> int mn" "spawn_function fks f n mn ws = (ok, fks', n', ws')"
  shows "int (length ws') + signed n = int (length ws) + signed n' \<and> n' \<le> npos \<and> signed n' \<le> int mn \<and>
    distinct fks' \<and> set fks' \<inter> pids ws' = {} \<and>
    map_wf ws' \<and> (\<forall>g \<in> snd ` set ws'. g \<in> snd ` set ws \<or> g = f \<and> 0 < mn)"
  using assms
proof (induction fks f n mn ws rule: spawn_function.induct)
  case (2 pid fks f n mn ws)
  show ?case
  proof (cases "n < mn")
    case True
    have p: "pid \<notin> pids ws" using "2.prems"(2) by auto
    let ?ws = "map_insert pid f ws"
    have l: "length ?ws = Suc (length ws)" "set ?ws = insert (pid, f) (set ws)"
      using p by (simp_all add: map_insert_fresh)
    have s: "n + 1 \<le> npos" "signed (n + 1) \<le> int mn" "signed (n + 1) = signed n + 1"
      using True "2.prems"(4) by (auto simp: signed_def npos_def)
    have "set fks \<inter> pids ?ws = {}" "map_wf ?ws"
      using "2.prems"(1-3) p std.ok_ins by auto
    moreover have "spawn_function fks f (n + 1) mn ?ws = (ok, fks', n', ws')"
      using "2.prems"(7) True by simp
    ultimately have ih: "int (length ws') + signed (n + 1) = int (length ?ws) + signed n' \<and> n' \<le> npos \<and>
      signed n' \<le> int mn \<and> distinct fks' \<and> set fks' \<inter> pids ws' = {} \<and> map_wf ws' \<and>
      (\<forall>g \<in> snd ` set ws'. g \<in> snd ` set ?ws \<or> g = f \<and> 0 < mn)"
      using "2.prems"(1,4) s(1,2) by (intro "2.IH"[OF True]) auto
    have "\<forall>g \<in> snd ` set ws'. g \<in> snd ` set ws \<or> g = f \<and> 0 < mn"
      using ih True unfolding l(2) by auto
    then show ?thesis using ih l(1) s(3) by simp
  next
    case False
    with "2.prems"(7) have "fks' = pid # fks" "n' = n" "ws' = ws" by auto
    with "2.prems"(1-6) show ?thesis by simp
  qed
qed auto

lemma spawn_loop_total:
  assumes "distinct fks" "set fks \<inter> pids ws = {}" "map_wf ws" "bounded_counts fns"
    "wanted (table fns) < 9223372036854775808" "spawn_loop fks fns ws = (fns', ws')"
  shows "int (length ws') + total fns = int (length ws) + total fns' \<and> table fns' = table fns \<and> map_wf ws' \<and>
    bounded_counts fns' \<and>
    (\<forall>g \<in> snd ` set ws'. g \<in> snd ` set ws \<or> (\<exists>mn. (g, mn) \<in> set (table fns) \<and> 0 < mn))"
  using assms
proof (induction fks fns ws arbitrary: fns' ws' rule: spawn_loop.induct)
  case (2 fks f n mn fns ws)
  obtain ok fks1 n1 ws1 where one: "spawn_function fks f n mn ws = (ok, fks1, n1, ws1)"
    by (cases "spawn_function fks f n mn ws")
  have pre: "mn < 9223372036854775808" "n \<le> npos" "signed n \<le> int mn" "bounded_counts fns"
    "wanted (table fns) < 9223372036854775808"
    using "2.prems"(4,5) by auto
  note a = spawn_function_total[OF "2.prems"(1-3) pre(1-3) one]
  show ?case
  proof (cases ok)
    case True
    obtain fns2 where two: "spawn_loop fks1 fns ws1 = (fns2, ws')" "fns' = (f, n1, mn) # fns2"
      using "2.prems"(6) one True by (auto split: prod.splits)
    have ih: "int (length ws') + total fns = int (length ws1) + total fns2 \<and> table fns2 = table fns \<and> map_wf ws' \<and>
      bounded_counts fns2 \<and>
      (\<forall>g \<in> snd ` set ws'. g \<in> snd ` set ws1 \<or> (\<exists>mn. (g, mn) \<in> set (table fns) \<and> 0 < mn))"
      using True a pre(4,5) two(1) by (intro "2.IH"[OF one[symmetric] _ refl refl]) auto
    have "\<forall>g \<in> snd ` set ws'. g \<in> snd ` set ws \<or> (\<exists>m. (g, m) \<in> set ((f, mn) # table fns) \<and> 0 < m)"
    proof
      fix g assume "g \<in> snd ` set ws'"
      then consider "g \<in> snd ` set ws1" | "\<exists>m. (g, m) \<in> set (table fns) \<and> 0 < m" using ih by blast
      then show "g \<in> snd ` set ws \<or> (\<exists>m. (g, m) \<in> set ((f, mn) # table fns) \<and> 0 < m)"
      proof cases
        case 1
        then have "g \<in> snd ` set ws \<or> g = f \<and> 0 < mn" using a by blast
        then show ?thesis by auto
      qed auto
    qed
    moreover have "int (length ws') + (signed n + total fns) = int (length ws) + (signed n1 + total fns2)"
      using ih a by linarith
    ultimately show ?thesis using ih a unfolding two(2) table_simps bounded_simps total_simps by blast
  next
    case False
    then have r: "fns' = (f, n1, mn) # fns" "ws' = ws1" using "2.prems"(6) one by auto
    have "\<forall>g \<in> snd ` set ws1. g \<in> snd ` set ws \<or> (\<exists>m. (g, m) \<in> set ((f, mn) # table fns) \<and> 0 < m)"
      using a by (metis list.set_intros(1))
    moreover have "int (length ws1) + (signed n + total fns) = int (length ws) + (signed n1 + total fns)"
      using a by linarith
    ultimately show ?thesis using a pre(4) unfolding r table_simps bounded_simps total_simps by blast
  qed
qed auto

section \<open>What holds whatever the erased entries read as\<close>

text \<open>\<open>tab\<close> is the configuration: the functions with their minima.\<close>

definition totals_ok :: "(nat \<times> nat) list \<Rightarrow> main_process \<Rightarrow> bool" where
  "totals_ok tab mp \<longleftrightarrow> map_wf (m_workers mp) \<and> map_wf (m_functions mp) \<and> bounded_counts (m_functions mp) \<and>
     set tab \<subseteq> set (table (m_functions mp)) \<and>
     (\<forall>(f, mn) \<in> set (table (m_functions mp)). 0 < mn \<longrightarrow> (f, mn) \<in> set tab) \<and>
     snd ` set (m_workers mp) \<subseteq> fst ` set tab \<and>
     wanted (table (m_functions mp)) = wanted tab \<and>
     total (m_functions mp) = int (length (m_workers mp))"

lemma totals_cong:
  "m_workers mp' = m_workers mp \<Longrightarrow> m_functions mp' = m_functions mp \<Longrightarrow> totals_ok tab mp' = totals_ok tab mp"
  by (simp add: totals_ok_def)

lemma totals_spawn:
  assumes "totals_ok tab mp" "wanted tab < 9223372036854775808" "distinct fks" "set fks \<inter> pids (m_workers mp) = {}"
  shows "totals_ok tab (spawn now fks mp)"
proof -
  have ok: "map_wf (m_workers mp)" "map_wf (m_functions mp)" "bounded_counts (m_functions mp)"
    "\<forall>(f, mn) \<in> set (table (m_functions mp)). 0 < mn \<longrightarrow> (f, mn) \<in> set tab"
    "snd ` set (m_workers mp) \<subseteq> fst ` set tab"
    "total (m_functions mp) = int (length (m_workers mp))" "wanted (table (m_functions mp)) < 9223372036854775808"
    using assms(1,2) by (auto simp: totals_ok_def)
  obtain fns' ws' where s: "spawn_loop fks (m_functions mp) (m_workers mp) = (fns', ws')"
    by (cases "spawn_loop fks (m_functions mp) (m_workers mp)")
  note t = spawn_loop_total[OF assms(3,4) ok(1,3,7) s]
  have "map fst fns' = map fst (m_functions mp)" using t by (intro map_fst_table) simp
  then have wf: "map_wf fns'" using ok(2) by (simp add: map_wf_def)
  have "snd ` set ws' \<subseteq> fst ` set tab"
  proof
    fix g assume "g \<in> snd ` set ws'"
    then consider "g \<in> snd ` set (m_workers mp)" | mn where "(g, mn) \<in> set (table (m_functions mp))" "0 < mn"
      using t by blast
    then show "g \<in> fst ` set tab"
    proof cases
      case 2
      then have "(g, mn) \<in> set tab" using ok(4) by auto
      then show ?thesis by force
    qed (use ok(5) in blast)
  qed
  moreover have "total fns' = int (length ws')" using t ok(6) by linarith
  ultimately show ?thesis using assms(1) t s wf by (simp add: totals_ok_def spawn_def)
qed

lemma length_erase:
  "map_wf ws \<Longrightarrow> map_find ws pid = Some f \<Longrightarrow> length ws = Suc (length (filter (\<lambda>e. fst e \<noteq> pid) ws))"
proof (induction ws)
  case (Cons e ws)
  show ?case
  proof (cases "fst e = pid")
    case True
    then have "filter (\<lambda>e. fst e \<noteq> pid) ws = ws"
      using Cons.prems(1) by (intro filter_True ballI) (auto simp: map_wf_def image_iff)
    then show ?thesis using True by simp
  next
    case False
    then have "map_wf ws" "map_find ws pid = Some f"
      using Cons.prems by (cases e; simp add: map_wf_def map_find_def)+
    then show ?thesis using Cons.IH False by simp
  qed
qed (simp add: map_find_def)

lemma totals_reap:
  assumes "totals_ok tab mp" "wanted tab < 9223372036854775808"
  shows "totals_ok tab (reap pid freed mp)"
proof (cases "map_find (m_workers mp) pid")
  case None
  then show ?thesis using assms by (simp add: reap_def)
next
  case (Some f)
  let ?ws = "filter (\<lambda>e. fst e \<noteq> pid) (m_workers mp)" and ?g = "freed f" and ?fns = "m_functions mp"
  let ?ins = "map_insert ?g (0, 0) ?fns"
  have ok: "map_wf (m_workers mp)" "map_wf ?fns" "bounded_counts ?fns" "set tab \<subseteq> set (table ?fns)"
    "\<forall>(f, mn) \<in> set (table ?fns). 0 < mn \<longrightarrow> (f, mn) \<in> set tab"
    "snd ` set (m_workers mp) \<subseteq> fst ` set tab"
    "total ?fns = int (length (m_workers mp))" "wanted (table ?fns) = wanted tab"
    using assms by (auto simp: totals_ok_def)
  have r: "m_workers (reap pid freed mp) = ?ws" "m_functions (reap pid freed mp) = count_down ?g ?fns"
    using Some by (simp_all add: reap_def)
  have wf: "map_wf (count_down ?g ?fns)"
    using std.ok_ins[OF ok(2)] by (simp add: map_wf_def count_down_lower)
  have "0 \<le> total ?fns" using ok(7) by simp
  note c = total_count_down[OF ok(2,3) this, unfolded ok(8), OF assms(2), of ?g]
  have sub: "set tab \<subseteq> set (table (count_down ?g ?fns))"
    using ok(4) unfolding count_down_lower lower_table by (force simp: table_def map_insert_def)
  have conf: "\<forall>(f, mn) \<in> set (table (count_down ?g ?fns)). 0 < mn \<longrightarrow> (f, mn) \<in> set tab"
    unfolding count_down_lower lower_table
  proof safe
    fix f mn assume "(f, mn) \<in> set (table ?ins)" and pos: "0 < mn"
    then obtain n where n: "(f, n, mn) \<in> set ?ins" by (auto simp: table_def)
    from set_map_insert[OF n] pos have "(f, n, mn) \<in> set ?fns" by auto
    then have "(f, mn) \<in> set (table ?fns)" by (force simp: table_def)
    then show "(f, mn) \<in> set tab" using ok(5) pos by auto
  qed
  have sum: "total (count_down ?g ?fns) = int (length ?ws)"
    using c(1) ok(7) length_erase[OF ok(1) Some] by simp
  have w: "wanted (table (count_down ?g ?fns)) = wanted tab"
    unfolding count_down_lower lower_table wanted_insert by (rule ok(8))
  have "snd ` set ?ws \<subseteq> fst ` set tab" using ok(6) by auto
  then show ?thesis
    unfolding totals_ok_def r using map_wf_filter[OF ok(1)] wf c(2) sub conf sum w by blast
qed

lemma totals_after_wait:
  "totals_ok tab mp \<Longrightarrow> wanted tab < 9223372036854775808 \<Longrightarrow> totals_ok tab (after_wait ev mp)"
  by (auto simp: after_wait_def Let_def totals_reap cong: totals_cong split: option.splits)

lemma totals_run_turn:
  assumes "totals_ok tab mp" "wanted tab < 9223372036854775808" "kernel_ok ev mp"
  shows "totals_ok tab (run_turn ev mp)"
proof -
  have a: "totals_ok tab (after_wait ev mp)" using assms(1,2) by (rule totals_after_wait)
  show ?thesis
  proof (cases "m_exiting (after_wait ev mp)")
    case True
    then have "m_workers (run_turn ev mp) = m_workers (after_wait ev mp)"
      "m_functions (run_turn ev mp) = m_functions (after_wait ev mp)"
      by (simp_all add: run_turn_def Let_def)
    then show ?thesis using a by (simp cong: totals_cong)
  next
    case False
    then show ?thesis using a assms(2,3) by (simp add: run_turn_def Let_def kernel_ok_def totals_spawn)
  qed
qed

lemma configured_empty: "e \<in> set (m_functions (configured conf now)) \<Longrightarrow> fst (snd e) = 0"
proof (induction conf arbitrary: e rule: rev_induct)
  case (snoc c conf)
  obtain f mn where "c = (f, mn)" by (cases c)
  then have "m_functions (configured (conf @ [c]) now) = map_insert f (0, mn) (m_functions (configured conf now))"
    by (simp add: configured_def add_function_def)
  then show ?case using snoc set_map_insert by fastforce
qed (simp add: configured_def MainProcess_new_def)

lemma total_empty: "\<forall>e \<in> set fns. fst (snd e) = 0 \<Longrightarrow> total fns = 0"
  by (induction fns) auto

lemma configured_same: "m_functions (configured conf now) = m_functions (configured conf 0)"
  "m_workers (configured conf now) = []"
  unfolding configured_def
  by (induction conf rule: rev_induct) (auto simp: MainProcess_new_def add_function_def)

lemma totals_start:
  assumes "family_start conf mp" "wanted (table (m_functions (configured conf 0))) < 9223372036854775808"
  shows "totals_ok (table (m_functions (configured conf 0))) mp"
proof -
  obtain now0 now fks where s: "list_all (\<lambda>(f, mn). mn \<le> npos) conf" "distinct fks"
    "mp = spawn now fks (configured conf now0)"
    using assms(1) by (auto simp: family_start_def)
  let ?c = "configured conf now0"
  have ok: "map_wf (m_functions ?c)" using configured_ok[OF s(1)] by (simp add: family_ok_def)
  have zero: "\<forall>e \<in> set (m_functions ?c). fst (snd e) = 0" using configured_empty by blast
  then have b: "bounded_counts (m_functions ?c)" by (auto simp: bounded_counts_def list_all_iff)
  have "total (m_functions ?c) = 0" using zero by (rule total_empty)
  then have "totals_ok (table (m_functions ?c)) ?c"
    using ok b by (auto simp: totals_ok_def configured_same(2) map_wf_def)
  then show ?thesis
    unfolding s(3) using s(2) assms(2) configured_same[of conf now0] by (intro totals_spawn) simp_all
qed

text \<open>A configuration whose minima add up to less than half of what a \<open>size_t\<close> holds.\<close>

definition counts_inv :: "(nat \<times> nat) list \<Rightarrow> main_process \<Rightarrow> bool" where
  "counts_inv conf mp \<longleftrightarrow> (wanted (table (m_functions (configured conf 0))) < 9223372036854775808 \<longrightarrow>
     totals_ok (table (m_functions (configured conf 0))) mp)"

interpretation counts: invariant_system "family_start conf" family_step "counts_inv conf" for conf
  by unfold_locales (auto simp: counts_inv_def totals_start family_step_def intro: totals_run_turn)

text \<open>C16. Whatever an erased entry reads as, the counts that the main process keeps add up to the number of
  living workers, where a count that has wrapped around stands for a negative number, and there are
  never more workers than the minima ask for; no two entries have one process id, every worker runs a
  configured function, and every function that was configured keeps its minimum, while an entry that a
  false reading has made asks for no workers.\<close>

theorem worker_counts_total:
  assumes "reach (family_start conf) family_step mp"
    and "wanted (table (m_functions (configured conf 0))) < 9223372036854775808"
  shows "(\<Sum>(f, n, mn) \<leftarrow> m_functions mp. signed n) = int (length (m_workers mp))
    \<and> length (m_workers mp) \<le> wanted (table (m_functions (configured conf 0)))
    \<and> distinct (map fst (m_workers mp))
    \<and> snd ` set (m_workers mp) \<subseteq> fst ` set (table (m_functions (configured conf 0)))
    \<and> {e \<in> set (table (m_functions (configured conf 0))). 0 < snd e} = {e \<in> set (table (m_functions mp)). 0 < snd e}"
proof -
  let ?tab = "table (m_functions (configured conf 0))"
  have ok: "totals_ok ?tab mp" using counts.reach_inv[OF assms(1)] assms(2) by (simp add: counts_inv_def)
  then have "int (length (m_workers mp)) \<le> int (wanted ?tab)"
    using total_upper[of "m_functions mp"] by (simp add: totals_ok_def)
  then show ?thesis using ok by (auto simp: totals_ok_def total_def map_wf_def)
qed

text \<open>Two turns of the main process with one worker: it ends while its erased entry reads as 0, and nothing
  is started in its place.\<close>

definition stale_turn :: turn where
  "stale_turn = (turn_of (Some 100) False [101, 102])\<lparr>freed_read := \<lambda>_. 0\<rparr>"

lemma stale_turn_state:
  "m_workers (run_turn stale_turn one_worker) = []"
  "m_functions (run_turn stale_turn one_worker) = [(0, (npos, 0)), (1, (1, 1))]"
  by (simp_all add: stale_turn_def run_turn_def after_wait_def Let_def turn_of_def reap_def one_worker_def
      map_find_def count_down_def map_insert_def size_sub_def npos_def spawn_def)

lemma stale_turn_reached: "reach (family_start [(1, 1)]) family_step (run_turn stale_turn one_worker)"
proof (rule reach_step)
  show "reach (family_start [(1, 1)]) family_step one_worker"
    using one_worker_start by (rule reach_start)
  have "kernel_ok stale_turn one_worker"
    by (simp add: kernel_ok_def stale_turn_def after_wait_def Let_def turn_of_def reap_def one_worker_def map_find_def)
  then show "family_step one_worker (run_turn stale_turn one_worker)"
    by (auto simp: family_step_def one_worker_def)
qed

lemma one_worker_table: "table (m_functions (configured [(1, 1)] 0)) = [(1, 1)]"
  by (simp add: configured_def add_function_def MainProcess_new_def map_insert_def)

theorem worker_counts_total_witness:
  "signed npos + signed 1 = int (length (m_workers (run_turn stale_turn one_worker)))
    \<and> length (m_workers (run_turn stale_turn one_worker)) \<le> 1"
proof -
  have "wanted (table (m_functions (configured [(1, 1)] 0))) < 9223372036854775808"
    by (simp add: one_worker_table[unfolded One_nat_def])
  from worker_counts_total[OF stale_turn_reached this] show ?thesis
    unfolding stale_turn_state one_worker_table by (simp add: Collect_conv_if)
qed

section \<open>Which worker is started\<close>









end
