(* ===== verification/Query.thy ===== *)
theory Query
  imports Std_Map
begin

text \<open>
  The parser of the query string, \<open>fcgi_request::parse_query_args\<close> of
  \<^verbatim>\<open>src/server/fcgi_handler.cpp\<close>. The positions \<open>first\<close>, \<open>last\<close> and
  \<open>delim\<close> are those of the code; the loop runs while \<open>last\<close> is not \<open>npos\<close>.
\<close>

section \<open>The code\<close>

type_synonym params = "(string \<times> string) list"

text \<open>One argument: the body of the loop after \<open>arg\<close> is cut out, and the code after it.\<close>

definition query_arg :: "string \<Rightarrow> nat \<Rightarrow> nat \<Rightarrow> params \<Rightarrow> params result" where
  "query_arg arg first lst m =
     (let delim = find_first_of arg (CHR ''='') 0 in
      if delim \<noteq> npos then
        bind_result (std_substr arg 0 delim) (\<lambda>name.
        bind_result (std_substr arg (delim + 1) (size_sub (size_sub lst first) delim)) (\<lambda>value.
        Inr (map_insert name value m)))
      else if arg \<noteq> [] then Inr (map_insert arg [] m)
      else Inr m)"

text \<open>The loop; it returns the final \<open>first\<close> and the map.\<close>

function query_loop :: "string \<Rightarrow> nat \<Rightarrow> nat \<Rightarrow> params \<Rightarrow> (nat \<times> params) result" where
  "query_loop q first lst m =
     (if lst = npos then Inr (first, m)
      else bind_result (std_substr q first (size_sub lst first)) (\<lambda>arg.
           bind_result (query_arg arg first lst m) (\<lambda>m'.
           query_loop q (lst + 1) (find_first_of q (CHR ''c'') (lst + 1)) m')))"
  by pat_completeness auto
termination
proof (relation "measure (\<lambda>(q, first, lst, m). if lst = npos then 0 else Suc (length q - lst))",
    goal_cases)
  case 1
  then show ?case by simp
next
  case (2 q first lst m arg m')
  show ?case
  proof (cases "index_of (CHR ''c'') (drop (lst + 1) q)")
    case None
    then show ?thesis using 2 by (simp add: find_first_of_def)
  next
    case (Some i)
    then have "i < length q - (lst + 1)"
      by (auto dest: index_of_Some_length)
    then show ?thesis using 2 Some by (auto simp: find_first_of_def)
  qed
qed

declare query_loop.simps [simp del]

definition parse_query_args :: "string \<Rightarrow> params \<Rightarrow> params result" where
  "parse_query_args query_args m =
     bind_result (query_loop query_args 0 (find_first_of query_args (CHR ''&'') 0) m) (\<lambda>(first, m').
     bind_result (std_substr query_args first npos) (\<lambda>arg.
     query_arg arg first npos m'))"

section \<open>The reference: segments and their pairs\<close>

text \<open>
  A query string is a list of segments between separators; a segment with an equals sign is
  a name and a value, a non-empty one without is a name with an empty value.
\<close>

fun split_at :: "char \<Rightarrow> string \<Rightarrow> string list" where
  "split_at c [] = [[]]"
| "split_at c (x # xs) =
     (if x = c then [] # split_at c xs
      else (case split_at c xs of [] \<Rightarrow> [[x]] | s # ss \<Rightarrow> (x # s) # ss))"

definition arg_pairs :: "string \<Rightarrow> (string \<times> string) list" where
  "arg_pairs arg =
     (case index_of (CHR ''='') arg of
        Some i \<Rightarrow> [(take i arg, drop (Suc i) arg)]
      | None \<Rightarrow> if arg = [] then [] else [(arg, [])])"

definition insert_segments :: "string list \<Rightarrow> params \<Rightarrow> params" where
  "insert_segments ss m = fold (\<lambda>(k, v). map_insert k v) (concat (map arg_pairs ss)) m"

text \<open>The segments the code cuts: at the first ampersand, and after it at the letter c.\<close>

definition code_segments :: "string \<Rightarrow> string list" where
  "code_segments q =
     (case index_of (CHR ''&'') q of
        None \<Rightarrow> [q]
      | Some i \<Rightarrow> take i q # split_at (CHR ''c'') (drop (Suc i) q))"

lemma insert_segments_Nil [simp]: "insert_segments [] m = m"
  by (simp add: insert_segments_def)

lemma insert_segments_Cons: "insert_segments (s # ss) m = insert_segments ss (insert_segments [s] m)"
  by (simp add: insert_segments_def)

lemma insert_segments_append:
  "insert_segments (xs @ ys) m = insert_segments ys (insert_segments xs m)"
  by (simp add: insert_segments_def)

lemma split_at_nonempty [simp]: "split_at c s \<noteq> []"
  by (induction s) (auto split: list.splits)

lemma split_at_None: "index_of c s = None \<Longrightarrow> split_at c s = [s]"
  by (induction s) (auto split: if_splits)

lemma split_at_Some:
  "index_of c s = Some i \<Longrightarrow> split_at c s = take i s # split_at c (drop (Suc i) s)"
proof (induction s arbitrary: i)
  case (Cons x xs)
  then show ?case by (cases "x = c") (auto split: list.splits)
qed simp

lemma split_at_fresh: "c \<notin> set s \<Longrightarrow> split_at c s = [s]"
  by (simp add: split_at_None index_of_None_iff)

section \<open>The code against the reference\<close>

lemma find_first_of_0:
  "length s < npos \<Longrightarrow> find_first_of s c 0 \<noteq> npos \<longleftrightarrow> index_of c s \<noteq> None"
  by (auto simp: find_first_of_def dest: index_of_Some_length split: option.splits)

lemma query_arg_eq:
  assumes "first \<le> lst" "lst \<le> npos" "length arg \<le> lst - first" "length arg < npos"
  shows "query_arg arg first lst m = Inr (insert_segments [arg] m)"
proof (cases "index_of (CHR ''='') arg")
  case None
  with assms(4) have "find_first_of arg (CHR ''='') 0 = npos"
    by (simp add: find_first_of_def)
  then show ?thesis
    using None by (simp add: query_arg_def insert_segments_def arg_pairs_def)
next
  case (Some i)
  then have i: "i < length arg" by (rule index_of_Some_length)
  have d: "find_first_of arg (CHR ''='') 0 = i" "i \<noteq> npos"
    using Some i assms(4) by (simp_all add: find_first_of_def)
  have "size_sub (size_sub lst first) i = lst - first - i"
    using assms i by (simp add: size_sub_le)
  moreover have "length arg - Suc i \<le> lst - first - i"
    using assms(3) i by simp
  ultimately show ?thesis
    using Some i d by (simp add: query_arg_def std_substr_def insert_segments_def arg_pairs_def)
qed

lemma query_loop_step:
  assumes "length q < npos" "first \<le> length q" "index_of c (drop first q) = Some i"
  shows "query_loop q first (first + i) m =
      query_loop q (first + i + 1) (find_first_of q (CHR ''c'') (first + i + 1))
        (insert_segments [take i (drop first q)] m)"
proof -
  have "i < length q - first"
    using index_of_Some_length[OF assms(3)] by simp
  then have "first + i \<noteq> npos" "size_sub (first + i) first = i"
    "length (take i (drop first q)) = i" "i < npos" "first + i \<le> npos"
    using assms(1) by (auto simp: size_sub_le)
  then show ?thesis
    using assms(2) query_arg_eq[of first "first + i" "take i (drop first q)" m]
    by (subst query_loop.simps) (simp add: std_substr_def)
qed

lemma query_loop_c:
  assumes "length q < npos" "first \<le> length q"
  shows "\<exists>f. query_loop q first (find_first_of q (CHR ''c'') first) m =
               Inr (f, insert_segments (butlast (split_at (CHR ''c'') (drop first q))) m) \<and>
             f \<le> length q \<and> drop f q = last (split_at (CHR ''c'') (drop first q))"
  using assms(2)
proof (induction "length q - first" arbitrary: first m rule: less_induct)
  case less
  show ?case
  proof (cases "index_of (CHR ''c'') (drop first q)")
    case None
    then have "find_first_of q (CHR ''c'') first = npos"
      by (simp add: find_first_of_def)
    then show ?thesis
      using less.prems None by (subst query_loop.simps) (simp add: split_at_None)
  next
    case (Some i)
    then have i: "i < length q - first"
      by (auto dest: index_of_Some_length)
    then have lt: "length q - (first + i + 1) < length q - first" "first + i + 1 \<le> length q"
      by auto
    have "split_at (CHR ''c'') (drop first q) =
        take i (drop first q) # split_at (CHR ''c'') (drop (first + i + 1) q)"
      using split_at_Some[OF Some] by (simp add: add.commute)
    then show ?thesis
      using less.hyps[OF lt, of "insert_segments [take i (drop first q)] m"]
        query_loop_step[OF assms(1) less.prems Some, of m] Some
      by (simp add: find_first_of_def
          insert_segments_Cons[of _ "butlast (split_at (CHR ''c'') (drop (Suc (first + i)) q))"])
  qed
qed

lemma parse_query_eq:
  assumes "length q < npos"
  shows "parse_query_args q m = Inr (insert_segments (code_segments q) m)"
proof (cases "index_of (CHR ''&'') q")
  case None
  then have "find_first_of q (CHR ''&'') 0 = npos"
    by (simp add: find_first_of_def)
  then have "query_loop q 0 (find_first_of q (CHR ''&'') 0) m = Inr (0, m)"
    by (subst query_loop.simps) simp
  then show ?thesis
    using None assms query_arg_eq[of 0 npos q m]
    by (simp add: parse_query_args_def std_substr_def code_segments_def)
next
  case (Some i)
  then have i: "i < length q" by (rule index_of_Some_length)
  let ?m = "insert_segments [take i q] m" and ?ss = "split_at (CHR ''c'') (drop (Suc i) q)"
  have loop: "query_loop q 0 (find_first_of q (CHR ''&'') 0) m =
      query_loop q (Suc i) (find_first_of q (CHR ''c'') (Suc i)) ?m"
    using query_loop_step[OF assms, of 0 "CHR ''&''" i m] Some by (simp add: find_first_of_def)
  obtain f where f: "query_loop q (Suc i) (find_first_of q (CHR ''c'') (Suc i)) ?m =
        Inr (f, insert_segments (butlast ?ss) ?m)" "f \<le> length q" "drop f q = last ?ss"
    using query_loop_c[OF assms, of "Suc i" ?m] i by auto
  have "take npos (drop f q) = drop f q"
    using assms by simp
  then have "parse_query_args q m =
      query_arg (drop f q) f npos (insert_segments (butlast ?ss) ?m)"
    using loop f(1,2) by (simp add: parse_query_args_def std_substr_def)
  also have "\<dots> = Inr (insert_segments [drop f q] (insert_segments (butlast ?ss) ?m))"
    using f(2) assms by (intro query_arg_eq) auto
  also have "insert_segments [drop f q] (insert_segments (butlast ?ss) ?m) = insert_segments ?ss ?m"
    using insert_segments_append[of "butlast ?ss" "[last ?ss]" ?m] f(3) by simp
  finally show ?thesis
    using Some insert_segments_Cons[of "take i q" ?ss m] by (simp add: code_segments_def)
qed

text \<open>C6. The parser of a query string never throws, and the parameters it leaves are exactly
  those of the segments it cuts, at the first ampersand and then at each letter c, inserted in
  their order, the first value of a name staying.\<close>

theorem parse_query_args_eq:
  assumes "length q < npos"
  shows "parse_query_args q m = Inr (insert_segments (code_segments q) m)"
  using assms by (rule parse_query_eq)

theorem parse_query_args_eq_witness:
  "parse_query_args ''x=1&y=2c=3'' [] = Inr [([], ''3''), (''x'', ''1''), (''y'', ''2'')]"
proof -
  have "insert_segments (code_segments ''x=1&y=2c=3'') [] = [([], ''3''), (''x'', ''1''), (''y'', ''2'')]"
    by (simp add: code_segments_def insert_segments_def arg_pairs_def map_insert_def map_find_def)
  then show ?thesis
    using parse_query_args_eq[of "''x=1&y=2c=3''" "[]"] by (simp add: npos_def)
qed

text \<open>
  What the loop means to do: cut at every ampersand. The two agree on the query strings
  whose part after the first ampersand holds neither an ampersand nor the letter c.
\<close>

definition meant_segments :: "string \<Rightarrow> string list" where
  "meant_segments q = split_at (CHR ''&'') q"

definition tail_args :: "string \<Rightarrow> string" where
  "tail_args q = (case index_of (CHR ''&'') q of None \<Rightarrow> [] | Some i \<Rightarrow> drop (Suc i) q)"

lemma code_segments_meant:
  assumes "CHR ''c'' \<notin> set (tail_args q)" "CHR ''&'' \<notin> set (tail_args q)"
  shows "code_segments q = meant_segments q"
  using assms
  by (auto simp: code_segments_def meant_segments_def tail_args_def split_at_None split_at_fresh
      split_at_Some split: option.splits)

definition encode_arg :: "string \<times> string \<Rightarrow> string" where
  "encode_arg a = fst a @ CHR ''='' # snd a"

definition plain_arg :: "string \<times> string \<Rightarrow> bool" where
  "plain_arg a \<longleftrightarrow> CHR ''&'' \<notin> set (fst a) \<and> CHR ''='' \<notin> set (fst a) \<and> CHR ''&'' \<notin> set (snd a)"

lemma arg_pairs_encode: "CHR ''='' \<notin> set (fst a) \<Longrightarrow> arg_pairs (encode_arg a) = [a]"
  by (simp add: arg_pairs_def encode_arg_def index_of_append_fresh)

lemma encode_arg_no_amp: "plain_arg a \<Longrightarrow> CHR ''&'' \<notin> set (encode_arg a)"
  by (simp add: plain_arg_def encode_arg_def)

lemma find_insert_segments:
  "map_find (insert_segments ss []) k = map_of (concat (map arg_pairs ss)) k"
  unfolding insert_segments_def by (rule std.look_fold_empty)

end
