(* ===== verification/Stream_Machine.thy ===== *)
theory Stream_Machine
  imports Prelude
begin

text \<open>
  The interface between a parser fed with pieces of a stream and the code that feeds it: a
  machine that takes one byte at a time, may throw, and ignores its input once it has thrown
  or finished. The client catches what is thrown and goes on feeding, so it relies on the two
  laws of \<open>byte_machine\<close>; what is kept from step to step is the extension
  \<open>invariant_machine\<close>.
\<close>

locale byte_machine =
  fixes step :: "'s \<Rightarrow> char \<Rightarrow> 's \<times> exn option"
    and run :: "'s \<Rightarrow> string \<Rightarrow> 's \<times> exn option"
    and dead :: "'s \<Rightarrow> bool"
  assumes run_Nil: "run s [] = (s, None)"
    and run_Cons: "run s (c # cs) =
          (case step s c of (s', None) \<Rightarrow> run s' cs | (s', Some e) \<Rightarrow> (s', Some e))"
    and step_throws: "step s c = (s', Some e) \<Longrightarrow> dead s'"
    and step_dead: "dead s \<Longrightarrow> step s c = (s, None)"
begin

lemma run_dead: "dead s \<Longrightarrow> run s cs = (s, None)"
  by (induction cs) (simp_all add: run_Nil run_Cons step_dead)

lemma run_throws: "run s cs = (s', Some e) \<Longrightarrow> dead s'"
proof (induction cs arbitrary: s)
  case (Cons c cs)
  then show ?case
    by (auto simp: run_Cons dest: step_throws split: prod.splits option.splits)
qed (simp add: run_Nil)

lemma run_append:
  "run s (xs @ ys) =
     (case run s xs of (s', None) \<Rightarrow> run s' ys | (s', Some e) \<Rightarrow> (s', Some e))"
  by (induction xs arbitrary: s) (auto simp: run_Nil run_Cons split: prod.splits option.splits)

lemma run_step_None: "step s c = (s', None) \<Longrightarrow> run s (c # cs) = run s' cs"
  by (simp add: run_Cons)

lemma run_None_append: "run s xs = (s', None) \<Longrightarrow> run s (xs @ ys) = run s' ys"
  by (simp add: run_append)

lemma fst_run_append: "fst (run s (xs @ ys)) = fst (run (fst (run s xs)) ys)"
proof (cases "run s xs")
  case (Pair s' r)
  then show ?thesis
    by (cases r) (simp_all add: run_append run_dead run_throws)
qed

text \<open>Feeding pieces and dropping exceptions leaves the state of one run over the whole.\<close>

lemma feed_concat: "fold (\<lambda>piece s. fst (run s piece)) pieces s = fst (run s (concat pieces))"
  by (induction pieces arbitrary: s) (simp_all add: run_Nil fst_run_append)

end

locale invariant_machine = byte_machine +
  fixes ok :: "'s \<Rightarrow> bool"
  assumes step_ok: "ok s \<Longrightarrow> ok (fst (step s c))"
begin

lemma run_ok: "ok s \<Longrightarrow> ok (fst (run s cs))"
proof (induction cs arbitrary: s)
  case (Cons c cs)
  then show ?case
    using step_ok[OF Cons.prems, of c] by (auto simp: run_Cons split: prod.splits option.splits)
qed (simp add: run_Nil)

end

end
