(* ===== verification/Formdata.thy ===== *)
theory Formdata
  imports Query Stream_Machine
begin

text \<open>
  The incremental parser of \<^verbatim>\<open>multipart/form-data\<close> bodies, the class
  \<open>formdata_parser\<close> of \<^verbatim>\<open>src/server/fcgi_handler.cpp\<close>.

  The iterators \<open>boundary_start\<close> and \<open>boundary_pos\<close> are indices into
  \<open>boundary\<close>. The two heap buffers are the bytes between their start and their write
  position: \<open>header_accumulator\<close> has room for \<open>max_header_len + 1\<close> bytes,
  \<open>output_buffer\<close> for \<open>buffer_size\<close>. A method that can throw returns the
  parser it leaves behind with the exception, for the caller goes on using the parser.
\<close>

section \<open>State\<close>

definition HTTP_BAD_REQUEST :: int where "HTTP_BAD_REQUEST = 400"
definition HTTP_NOT_FOUND :: int where "HTTP_NOT_FOUND = 404"
definition HTTP_UNSUPPORTED_MEDIA_TYPE :: int where "HTTP_UNSUPPORTED_MEDIA_TYPE = 415"
definition HTTP_INTERNAL_SERVER_ERROR :: int where "HTTP_INTERNAL_SERVER_ERROR = 503"

datatype parser_state =
    upload_state_boundary_seek
  | upload_state_after_boundary
  | upload_state_headers
  | upload_state_data
  | upload_state_finish

record formdata_parser =
  formdata_params :: params
  boundary :: string
  field_name :: string
  field_value :: string
  content_type :: string
  state :: parser_state
  boundary_start :: nat
  boundary_pos :: nat
  header_accumulator :: string
  max_header_len :: nat
  output_buffer :: string
  buffer_size :: nat
  discard_data :: bool
  first_part :: bool

type_synonym step_result = "formdata_parser \<times> exn option"

definition MULTIPART_FORM_DATA_STRING :: string where
  "MULTIPART_FORM_DATA_STRING = ''multipart/form-data''"
definition BOUNDARY_STRING :: string where
  "BOUNDARY_STRING = ''boundary=''"
definition CONTENT_DISPOSITION_STRING :: string where
  "CONTENT_DISPOSITION_STRING = ''Content-Disposition:''"
definition CONTENT_TYPE_STRING :: string where
  "CONTENT_TYPE_STRING = ''Content-Type:''"
definition FORM_DATA_STRING :: string where
  "FORM_DATA_STRING = ''form-data''"
definition ATTACHMENT_STRING :: string where
  "ATTACHMENT_STRING = ''attachment''"
definition FIELDNAME_STRING :: string where
  "FIELDNAME_STRING = ''name='' @ [QUOTE]"

section \<open>Headers of a part\<close>

definition upload_parse_part_header :: "string \<Rightarrow> formdata_parser \<Rightarrow> step_result" where
  "upload_parse_part_header header ps =
     (let h = c_str header in
      if strncaseeq CONTENT_DISPOSITION_STRING h then
        (let p0 = drop (length CONTENT_DISPOSITION_STRING) h;
             p1 = drop (strspn p0 '' '') p0
         in if \<not> strncaseeq FORM_DATA_STRING p1 \<and> \<not> strncaseeq ATTACHMENT_STRING p1
            then (ps, Some (Fcgi_Exception ''Content-Disposition is not form-data or attachment''
                              HTTP_BAD_REQUEST))
            else (case sub_index FIELDNAME_STRING p1 of
                None \<Rightarrow> (ps, None)
              | Some i \<Rightarrow>
                  (let fieldname_start = drop (i + length FIELDNAME_STRING) p1;
                       n = strcspn fieldname_start [QUOTE]
                   in if n = length fieldname_start
                      then (ps, Some (Fcgi_Exception ''malformed fieldname in part header''
                                        HTTP_BAD_REQUEST))
                      else (ps\<lparr>field_name := take n fieldname_start\<rparr>, None))))
      else if strncaseeq CONTENT_TYPE_STRING h then
        (let s = length CONTENT_TYPE_STRING;
             v = drop (s + strspn (drop s h) '' '') header;
             ps' = ps\<lparr>content_type := v\<rparr>
         in if v = [] then (ps', Some (Fcgi_Exception ''empty Content-Type in part header''
                                         HTTP_BAD_REQUEST))
            else (ps', None))
      else (ps, None))"

section \<open>Parts\<close>

definition upload_discard_part_attributes :: "formdata_parser \<Rightarrow> formdata_parser" where
  "upload_discard_part_attributes ps = ps\<lparr>field_name := [], field_value := [], content_type := []\<rparr>"

definition upload_start_part :: "formdata_parser \<Rightarrow> formdata_parser" where
  "upload_start_part ps = ps"

definition upload_finish_part :: "formdata_parser \<Rightarrow> formdata_parser" where
  "upload_finish_part ps =
     (upload_discard_part_attributes
        (ps\<lparr>formdata_params := map_insert (field_name ps) (field_value ps) (formdata_params ps)\<rparr>))
     \<lparr>discard_data := False\<rparr>"

definition upload_abort_part :: "formdata_parser \<Rightarrow> formdata_parser" where
  "upload_abort_part ps = (upload_discard_part_attributes ps)\<lparr>discard_data := False\<rparr>"

definition upload_flush_output_buffer :: "formdata_parser \<Rightarrow> formdata_parser" where
  "upload_flush_output_buffer ps =
     (if output_buffer ps \<noteq> [] then
        (let ps' = (if field_value ps = [] then ps\<lparr>field_value := output_buffer ps\<rparr> else ps)
         in ps'\<lparr>output_buffer := []\<rparr>)
      else ps)"

definition upload_putc :: "char \<Rightarrow> formdata_parser \<Rightarrow> formdata_parser" where
  "upload_putc c ps =
     (if \<not> discard_data ps then
        (let ps' = ps\<lparr>output_buffer := output_buffer ps @ [c]\<rparr>
         in if length (output_buffer ps') = buffer_size ps'
            then upload_flush_output_buffer ps' else ps')
      else ps)"

definition upload_init_ctx :: "formdata_parser \<Rightarrow> formdata_parser" where
  "upload_init_ctx ps =
     ps\<lparr>state := upload_state_boundary_seek, field_name := [], field_value := [],
        content_type := [], discard_data := False\<rparr>"

definition upload_shutdown_ctx :: "formdata_parser \<Rightarrow> formdata_parser" where
  "upload_shutdown_ctx ps =
     upload_discard_part_attributes
       (if state ps = upload_state_data
        then upload_abort_part (upload_flush_output_buffer ps) else ps)"

section \<open>The boundary of the request\<close>

text \<open>
  \<open>boundary_start_ptr\<close> is its offset from \<open>c_str()\<close>, modulo \<open>2 ^ 64\<close>: a failed
  \<open>find\<close> gives \<open>npos\<close>, one byte before the string. Neither that address nor one
  inside the string is the null pointer, so the code's second check for a missing boundary
  has no branch here.
\<close>

definition boundary_value :: "string \<Rightarrow> nat \<Rightarrow> string" where
  "boundary_value content_type_arg mime_type_end =
     (let boundary_start_pos = find_str content_type_arg BOUNDARY_STRING mime_type_end;
          boundary_start_ptr =
            (boundary_start_pos + length BOUNDARY_STRING) mod 18446744073709551616;
          rest = c_str (drop boundary_start_ptr content_type_arg)
      in take (strcspn rest ('' ;'' @ [LF, CR])) rest)"

definition upload_parse_content_type :: "string \<Rightarrow> formdata_parser \<Rightarrow> formdata_parser result" where
  "upload_parse_content_type content_type_arg ps =
     (case index_of (CHR '';'') (c_str content_type_arg) of
        None \<Rightarrow> Inl (Fcgi_Exception ''no boundary found in Content-Type'' HTTP_BAD_REQUEST)
      | Some mime_type_end \<Rightarrow>
          if \<not> strncaseeq MULTIPART_FORM_DATA_STRING (c_str content_type_arg)
          then Inl (Fcgi_Exception ''Content-Type is not multipart/form-data''
                      HTTP_UNSUPPORTED_MEDIA_TYPE)
          else
            (let b = boundary_value content_type_arg mime_type_end in
             if b = [] then Inl (Fcgi_Exception ''boundary is empty'' HTTP_BAD_REQUEST)
             else Inr (ps\<lparr>boundary := CR # LF # CHR ''-'' # CHR ''-'' # b,
                          boundary_start := 2, boundary_pos := 2\<rparr>)))"

definition formdata_parser_new :: "string \<Rightarrow> nat \<Rightarrow> nat \<Rightarrow> params \<Rightarrow> formdata_parser result" where
  "formdata_parser_new content_type_arg header_len buf_size params =
     upload_parse_content_type content_type_arg
       (upload_init_ctx
          \<lparr>formdata_params = params, boundary = [], field_name = [], field_value = [],
           content_type = [], state = upload_state_boundary_seek, boundary_start = 0,
           boundary_pos = 0, header_accumulator = [], max_header_len = header_len,
           output_buffer = [], buffer_size = buf_size, discard_data = False, first_part = True\<rparr>)"

section \<open>The state machine\<close>

text \<open>
  The comparison \<open>*p == *boundary_pos\<close> is between an unsigned and a (signed) plain
  \<open>char\<close>: a boundary byte above 127 is negative there and matches nothing.
\<close>

definition byte_eq :: "char \<Rightarrow> char \<Rightarrow> bool" where
  "byte_eq u c \<longleftrightarrow> u = c \<and> (of_char c :: nat) < 128"

text \<open>The code after the match in the data state: has the whole boundary been seen?\<close>

definition upload_data_end :: "formdata_parser \<Rightarrow> formdata_parser" where
  "upload_data_end ps =
     (if boundary_pos ps = length (boundary ps) then
        (let ps1 = upload_flush_output_buffer
                     (ps\<lparr>state := upload_state_after_boundary, boundary_pos := boundary_start ps\<rparr>)
         in if \<not> discard_data ps1 then upload_finish_part ps1 else upload_abort_part ps1)
      else ps)"

text \<open>
  A mismatch inside the boundary writes out the part matched so far and resets the match; the
  code then steps the buffer pointer back, to read the byte again.
\<close>

definition upload_put_lump :: "formdata_parser \<Rightarrow> formdata_parser" where
  "upload_put_lump ps =
     (fold upload_putc (take (boundary_pos ps - boundary_start ps)
                          (drop (boundary_start ps) (boundary ps))) ps)
     \<lparr>boundary_start := 0, boundary_pos := 0\<rparr>"

definition upload_headers :: "formdata_parser \<Rightarrow> char \<Rightarrow> step_result" where
  "upload_headers ps c =
     (if c = LF then
        (if header_accumulator ps = [] then
           ((upload_start_part ps)\<lparr>state := upload_state_data, output_buffer := []\<rparr>, None)
         else
           (case upload_parse_part_header (header_accumulator ps) ps of
              (ps', None) \<Rightarrow> (ps'\<lparr>header_accumulator := []\<rparr>, None)
            | (ps', Some e) \<Rightarrow> (ps'\<lparr>state := upload_state_finish\<rparr>, Some e)))
      else if c = CR then (ps, None)
      else if length (header_accumulator ps) < max_header_len ps - 1 then
        (ps\<lparr>header_accumulator := header_accumulator ps @ [c]\<rparr>, None)
      else (ps\<lparr>state := upload_state_finish\<rparr>,
            Some (Fcgi_Exception ''header is too long'' HTTP_BAD_REQUEST)))"

definition upload_after_boundary :: "formdata_parser \<Rightarrow> char \<Rightarrow> formdata_parser" where
  "upload_after_boundary ps c =
     (if c = LF then ps\<lparr>state := upload_state_headers, header_accumulator := []\<rparr>
      else if c = CR then ps
      else if c = CHR ''-'' then ps\<lparr>state := upload_state_finish\<rparr>
      else ps)"

definition upload_boundary_seek :: "formdata_parser \<Rightarrow> char \<Rightarrow> formdata_parser" where
  "upload_boundary_seek ps c =
     (let ps1 = (if byte_eq c (boundary ps ! boundary_pos ps)
                 then ps\<lparr>boundary_pos := Suc (boundary_pos ps)\<rparr>
                 else ps\<lparr>boundary_pos := boundary_start ps\<rparr>)
      in if boundary_pos ps1 = length (boundary ps1)
         then ps1\<lparr>state := upload_state_after_boundary, boundary_start := 0, boundary_pos := 0\<rparr>
         else ps1)"

text \<open>One byte of the body: the turn of the loop that reads it, and the turn that reads it again.\<close>

lemma putc_frame [simp]:
  "boundary (upload_putc c ps) = boundary ps"
  "boundary_start (upload_putc c ps) = boundary_start ps"
  "boundary_pos (upload_putc c ps) = boundary_pos ps"
  "state (upload_putc c ps) = state ps"
  "field_name (upload_putc c ps) = field_name ps"
  "formdata_params (upload_putc c ps) = formdata_params ps"
  "buffer_size (upload_putc c ps) = buffer_size ps"
  "max_header_len (upload_putc c ps) = max_header_len ps"
  "header_accumulator (upload_putc c ps) = header_accumulator ps"
  "discard_data (upload_putc c ps) = discard_data ps"
  by (simp_all add: upload_putc_def upload_flush_output_buffer_def Let_def)

lemma data_end_reset:
  "boundary_pos ps = boundary_start ps \<Longrightarrow>
     boundary_pos (upload_data_end ps) = boundary_start (upload_data_end ps)"
  by (simp add: upload_data_end_def upload_finish_part_def upload_abort_part_def
      upload_discard_part_attributes_def upload_flush_output_buffer_def Let_def)

function upload_step :: "formdata_parser \<Rightarrow> char \<Rightarrow> step_result" where
  "upload_step ps c =
     (case state ps of
        upload_state_boundary_seek \<Rightarrow> (upload_boundary_seek ps c, None)
      | upload_state_after_boundary \<Rightarrow> (upload_after_boundary ps c, None)
      | upload_state_headers \<Rightarrow> upload_headers ps c
      | upload_state_data \<Rightarrow>
          if byte_eq c (boundary ps ! boundary_pos ps) then
            (upload_data_end (ps\<lparr>boundary_pos := Suc (boundary_pos ps)\<rparr>), None)
          else if boundary_pos ps = boundary_start ps then
            (if c = LF then (upload_data_end (ps\<lparr>boundary_pos := 2, boundary_start := 1\<rparr>), None)
             else (upload_data_end (upload_putc c ps), None))
          else upload_step (upload_data_end (upload_put_lump ps)) c
      | upload_state_finish \<Rightarrow> (ps, None))"
  by pat_completeness auto
termination
  by (relation "measure (\<lambda>(ps, c). if boundary_pos ps = boundary_start ps then 0 else 1)")
    (auto simp: data_end_reset upload_put_lump_def)

declare upload_step.simps [simp del]

fun upload_run :: "formdata_parser \<Rightarrow> string \<Rightarrow> step_result" where
  "upload_run ps [] = (ps, None)"
| "upload_run ps (c # cs) =
     (case upload_step ps c of
        (ps', None) \<Rightarrow> upload_run ps' cs
      | (ps', Some e) \<Rightarrow> (ps', Some e))"

definition upload_process_buf :: "formdata_parser \<Rightarrow> string \<Rightarrow> step_result" where
  "upload_process_buf ps buf =
     (if buf = [] then
        (if state ps \<noteq> upload_state_finish
         then (ps, Some (Fcgi_Exception ''malformed body'' HTTP_BAD_REQUEST))
         else (ps, None))
      else upload_run ps buf)"

section \<open>Invariant\<close>

text \<open>
  A token that \<open>upload_parse_content_type\<close> can have cut out, and the state a parser is
  in between two bytes: the iterators point into the boundary (so they may be read), the match
  starts where the phase allows it, and the two buffers have room for one more byte.
\<close>

definition token_ok :: "string \<Rightarrow> bool" where
  "token_ok b \<longleftrightarrow> b \<noteq> [] \<and> CR \<notin> set b \<and> LF \<notin> set b"

definition delimiter :: "string \<Rightarrow> string" where
  "delimiter b = CR # LF # CHR ''-'' # CHR ''-'' # b"

definition boundary_ok :: "string \<Rightarrow> bool" where
  "boundary_ok B \<longleftrightarrow> (\<exists>b. token_ok b \<and> B = delimiter b)"

definition match_ok :: "formdata_parser \<Rightarrow> bool" where
  "match_ok ps \<longleftrightarrow>
     boundary_start ps \<le> boundary_pos ps \<and> boundary_pos ps < length (boundary ps) \<and>
     (case state ps of
        upload_state_boundary_seek \<Rightarrow> boundary_start ps = 2
      | upload_state_data \<Rightarrow> boundary_start ps \<le> 1
      | _ \<Rightarrow> boundary_start ps \<le> 1 \<and> boundary_pos ps = boundary_start ps)"

definition parser_ok :: "formdata_parser \<Rightarrow> bool" where
  "parser_ok ps \<longleftrightarrow>
     boundary_ok (boundary ps) \<and> match_ok ps \<and> map_wf (formdata_params ps) \<and>
     (header_accumulator ps = [] \<or> length (header_accumulator ps) < max_header_len ps) \<and>
     length (output_buffer ps) < buffer_size ps \<and> \<not> discard_data ps"

lemma delimiter_length [simp]: "length (delimiter b) = length b + 4"
  by (simp add: delimiter_def)

lemma boundary_okD: "boundary_ok B \<Longrightarrow> 4 < length B"
  by (auto simp: boundary_ok_def token_ok_def)

lemmas part_defs = upload_finish_part_def upload_abort_part_def upload_discard_part_attributes_def
  upload_flush_output_buffer_def upload_start_part_def

lemma putc_ok: "parser_ok ps \<Longrightarrow> parser_ok (upload_putc c ps)"
  by (auto simp: parser_ok_def match_ok_def upload_putc_def upload_flush_output_buffer_def Let_def
      split: parser_state.splits)

lemma fold_putc_frame [simp]:
  "boundary (fold upload_putc cs ps) = boundary ps"
  "boundary_start (fold upload_putc cs ps) = boundary_start ps"
  "boundary_pos (fold upload_putc cs ps) = boundary_pos ps"
  "state (fold upload_putc cs ps) = state ps"
  "field_name (fold upload_putc cs ps) = field_name ps"
  "formdata_params (fold upload_putc cs ps) = formdata_params ps"
  "buffer_size (fold upload_putc cs ps) = buffer_size ps"
  "max_header_len (fold upload_putc cs ps) = max_header_len ps"
  "header_accumulator (fold upload_putc cs ps) = header_accumulator ps"
  "discard_data (fold upload_putc cs ps) = discard_data ps"
  by (induction cs arbitrary: ps) auto

lemma fold_putc_ok: "parser_ok ps \<Longrightarrow> parser_ok (fold upload_putc cs ps)"
  by (induction cs arbitrary: ps) (auto simp: putc_ok)

lemma data_end_skip: "boundary_pos ps \<noteq> length (boundary ps) \<Longrightarrow> upload_data_end ps = ps"
  by (simp add: upload_data_end_def)

lemma data_end_ok:
  assumes "boundary_ok (boundary ps)" "boundary_start ps \<le> 1" "boundary_start ps \<le> boundary_pos ps"
    "boundary_pos ps \<le> length (boundary ps)" "state ps = upload_state_data" "map_wf (formdata_params ps)"
    "header_accumulator ps = [] \<or> length (header_accumulator ps) < max_header_len ps"
    "length (output_buffer ps) < buffer_size ps" "\<not> discard_data ps"
  shows "parser_ok (upload_data_end ps)"
proof (cases "boundary_pos ps = length (boundary ps)")
  case False
  with assms show ?thesis
    by (simp add: data_end_skip parser_ok_def match_ok_def)
next
  case True
  have "4 < length (boundary ps)" using assms(1) by (rule boundary_okD)
  with True assms show ?thesis
    by (auto simp: upload_data_end_def parser_ok_def match_ok_def part_defs std.ok_ins Let_def)
qed

lemma parse_part_header_frame:
  assumes "upload_parse_part_header h ps = (ps', r)"
  shows "boundary ps' = boundary ps" "boundary_start ps' = boundary_start ps"
    "boundary_pos ps' = boundary_pos ps" "state ps' = state ps"
    "header_accumulator ps' = header_accumulator ps" "max_header_len ps' = max_header_len ps"
    "output_buffer ps' = output_buffer ps" "buffer_size ps' = buffer_size ps"
    "discard_data ps' = discard_data ps" "formdata_params ps' = formdata_params ps"
    "field_value ps' = field_value ps"
  using assms
  by (auto simp: upload_parse_part_header_def Let_def split: if_splits option.splits)

lemma boundary_seek_ok:
  "parser_ok ps \<Longrightarrow> state ps = upload_state_boundary_seek \<Longrightarrow> parser_ok (upload_boundary_seek ps c)"
  by (auto simp: parser_ok_def match_ok_def upload_boundary_seek_def Let_def dest: boundary_okD)

lemma after_boundary_ok:
  "parser_ok ps \<Longrightarrow> state ps = upload_state_after_boundary \<Longrightarrow> parser_ok (upload_after_boundary ps c)"
  by (auto simp: parser_ok_def match_ok_def upload_after_boundary_def)

lemma headers_ok:
  assumes "parser_ok ps" "state ps = upload_state_headers"
  shows "parser_ok (fst (upload_headers ps c))"
proof (cases "c = LF \<and> header_accumulator ps \<noteq> []")
  case True
  obtain ps' r where p: "upload_parse_part_header (header_accumulator ps) ps = (ps', r)"
    by fastforce
  with True assms parse_part_header_frame[OF p] show ?thesis
    by (cases r) (auto simp: upload_headers_def parser_ok_def match_ok_def)
next
  case False
  with assms show ?thesis
    by (auto simp: upload_headers_def upload_start_part_def parser_ok_def match_ok_def)
qed

lemma put_lump_ok:
  assumes "parser_ok ps" "state ps = upload_state_data"
  shows "parser_ok (upload_put_lump ps)"
    and "upload_data_end (upload_put_lump ps) = upload_put_lump ps"
proof -
  have len: "4 < length (boundary ps)"
    using assms boundary_okD by (auto simp: parser_ok_def)
  then have "boundary ps \<noteq> []" by auto
  then show "upload_data_end (upload_put_lump ps) = upload_put_lump ps"
    by (intro data_end_skip) (simp add: upload_put_lump_def)
  show "parser_ok (upload_put_lump ps)"
    using assms fold_putc_ok[OF assms(1)] len
    by (auto simp: upload_put_lump_def parser_ok_def match_ok_def)
qed

lemma upload_step_ok: "parser_ok ps \<Longrightarrow> parser_ok (fst (upload_step ps c))"
proof (induction ps c rule: upload_step.induct)
  case (1 ps c)
  show ?case
  proof (cases "state ps")
    case upload_state_data
    note st = this
    have len: "4 < length (boundary ps)"
      using "1.prems" boundary_okD by (auto simp: parser_ok_def)
    consider (eq) "byte_eq c (boundary ps ! boundary_pos ps)"
      | (start) "\<not> byte_eq c (boundary ps ! boundary_pos ps)" "boundary_pos ps = boundary_start ps"
      | (lump) "\<not> byte_eq c (boundary ps ! boundary_pos ps)" "boundary_pos ps \<noteq> boundary_start ps"
      by blast
    then show ?thesis
    proof cases
      case eq
      have "parser_ok (upload_data_end (ps\<lparr>boundary_pos := Suc (boundary_pos ps)\<rparr>))"
        using "1.prems" st by (intro data_end_ok) (auto simp: parser_ok_def match_ok_def)
      with eq st show ?thesis by (simp add: upload_step.simps[of ps c])
    next
      case start
      have "parser_ok (upload_data_end (ps\<lparr>boundary_pos := 2, boundary_start := 1\<rparr>))"
        using "1.prems" st len by (intro data_end_ok) (auto simp: parser_ok_def match_ok_def)
      moreover have "parser_ok (upload_data_end (upload_putc c ps))"
        using putc_ok[OF "1.prems", of c] st
        by (intro data_end_ok) (auto simp: parser_ok_def match_ok_def)
      ultimately show ?thesis using start st by (simp add: upload_step.simps[of ps c])
    next
      case lump
      then show ?thesis
        using "1.IH"[OF st lump] put_lump_ok[OF "1.prems" st] st
        by (simp add: upload_step.simps[of ps c])
    qed
  qed (use "1.prems" in \<open>auto simp: upload_step.simps[of ps c] boundary_seek_ok after_boundary_ok
        headers_ok\<close>)
qed

lemma upload_headers_throws: "upload_headers ps c = (ps', Some e) \<Longrightarrow> state ps' = upload_state_finish"
  by (auto simp: upload_headers_def split: if_splits prod.splits option.splits)

lemma upload_step_throws: "upload_step ps c = (ps', Some e) \<Longrightarrow> state ps' = upload_state_finish"
proof (induction ps c rule: upload_step.induct)
  case (1 ps c)
  then show ?case
    by (subst (asm) (2) upload_step.simps)
      (auto split: parser_state.splits if_splits dest: upload_headers_throws)
qed

interpretation upload: invariant_machine upload_step upload_run
  "\<lambda>ps. state ps = upload_state_finish" parser_ok
proof unfold_locales
  fix ps c ps' e
  show "upload_step ps c = (ps', Some e) \<Longrightarrow> state ps' = upload_state_finish"
    by (rule upload_step_throws)
  show "state ps = upload_state_finish \<Longrightarrow> upload_step ps c = (ps, None)"
    by (subst upload_step.simps) simp
  show "parser_ok ps \<Longrightarrow> parser_ok (fst (upload_step ps c))"
    by (rule upload_step_ok)
qed (simp_all)

end
