(* ===== verification/Multipart.thy ===== *)
theory Multipart
  imports Formdata
begin

text \<open>
  What the multipart parser is for, stated without iterators and buffers, and the theorems
  that \<open>Formdata\<close> does it: the search for the closing delimiter of a part
  (\<open>split_delim\<close>), the value a part is given, header lines, and whole forms
  (\<open>encode_form\<close>).
\<close>

section \<open>Where a part ends\<close>

text \<open>
  The data of a part ends where CR LF -- boundary or, for agents that send a lone LF (the
  workaround in the code), LF -- boundary begins. The result is the data, 0 or 1 for the
  delimiter found, and the rest of the input.
\<close>

definition prepend :: "string \<Rightarrow> (string \<times> nat \<times> string) option \<Rightarrow> (string \<times> nat \<times> string) option"
  where "prepend u x = (case x of None \<Rightarrow> None | Some (d, k, r) \<Rightarrow> Some (u @ d, k, r))"

fun split_delim :: "string \<Rightarrow> string \<Rightarrow> (string \<times> nat \<times> string) option" where
  "split_delim B [] = None"
| "split_delim B (c # cs) =
     (if prefix B (c # cs) then Some ([], 0, drop (length B) (c # cs))
      else if prefix (tl B) (c # cs) then Some ([], 1, drop (length (tl B)) (c # cs))
      else prepend [c] (split_delim B cs))"

declare split_delim.simps(2) [simp del]

lemma prepend_simps [simp]:
  "prepend u (prepend v x) = prepend (u @ v) x"
  "prepend [] x = x"
  "prepend u None = None"
  "prepend u (Some (d, k, r)) = Some (u @ d, k, r)"
  "prepend u x = None \<longleftrightarrow> x = None"
  by (cases x; auto simp: prepend_def)+

lemma split_delim_Cons:
  "\<not> prefix B (c # cs) \<Longrightarrow> \<not> prefix (tl B) (c # cs) \<Longrightarrow>
     split_delim B (c # cs) = prepend [c] (split_delim B cs)"
  by (simp add: split_delim.simps(2))

lemma split_delim_here:
  "split_delim (delimiter b) (delimiter b @ r) = Some ([], 0, r)"
  "split_delim (delimiter b) (LF # CHR ''-'' # CHR ''-'' # b @ r) = Some ([], 1, r)"
  by (simp_all add: delimiter_def split_delim.simps(2))

lemma split_delim_inside:
  assumes "CR \<notin> set u" "LF \<notin> set u"
  shows "split_delim (delimiter b) (u @ t) = prepend u (split_delim (delimiter b) t)"
  using assms
proof (induction u)
  case (Cons c u)
  have "split_delim (delimiter b) (c # (u @ t)) = prepend [c] (split_delim (delimiter b) (u @ t))"
    using Cons.prems by (intro split_delim_Cons) (auto simp: delimiter_def)
  with Cons show ?case by simp
qed simp

lemma split_delim_short: "length s < length (tl B) \<Longrightarrow> split_delim B s = None"
proof (induction s)
  case (Cons c s)
  then have "\<not> prefix B (c # s)" "\<not> prefix (tl B) (c # s)"
    by (auto dest: prefix_length_le)
  with Cons show ?case by (simp add: split_delim_Cons)
qed simp

lemma split_delim_LF_mismatch:
  assumes "token_ok b" "CHR ''-'' # CHR ''-'' # b = u @ a # w" "a' \<noteq> a"
  shows "split_delim (delimiter b) (LF # u @ a' # v) =
           prepend (LF # u) (split_delim (delimiter b) (a' # v))"
proof -
  have "set u \<subseteq> set (CHR ''-'' # CHR ''-'' # b)" using assms(2) by (metis set_append Un_upper1)
  then have u: "CR \<notin> set u" "LF \<notin> set u" using assms(1) by (auto simp: token_ok_def)
  have "\<not> prefix (delimiter b) (LF # u @ a' # v)" by (simp add: delimiter_def)
  moreover have "\<not> prefix (tl (delimiter b)) (LF # u @ a' # v)"
    using assms(2,3) by (simp add: delimiter_def)
  ultimately have "split_delim (delimiter b) (LF # u @ a' # v) =
      prepend [LF] (split_delim (delimiter b) (u @ a' # v))"
    by (rule split_delim_Cons)
  with split_delim_inside[OF u] show ?thesis
    by simp
qed

lemma split_delim_CR_mismatch:
  assumes "token_ok b" "delimiter b = u @ a # w" "u \<noteq> []" "a' \<noteq> a"
  shows "split_delim (delimiter b) (u @ a' # v) = prepend u (split_delim (delimiter b) (a' # v))"
proof -
  obtain u2 where u: "u = CR # u2" using assms(2,3) by (cases u) (auto simp: delimiter_def)
  have "\<not> prefix (delimiter b) (u @ a' # v)" using assms(2,4) by simp
  moreover have "\<not> prefix (tl (delimiter b)) (u @ a' # v)" by (simp add: delimiter_def u)
  ultimately have 1: "split_delim (delimiter b) (u @ a' # v) =
      prepend [CR] (split_delim (delimiter b) (u2 @ a' # v))"
    unfolding u append_Cons by (rule split_delim_Cons)
  show ?thesis
  proof (cases u2)
    case Nil
    with 1 u show ?thesis by simp
  next
    case (Cons x u3)
    with assms(2) u have "u2 = LF # u3" "CHR ''-'' # CHR ''-'' # b = u3 @ a # w"
      by (auto simp: delimiter_def)
    with 1 u split_delim_LF_mismatch[OF assms(1) _ assms(4), of u3 w v] show ?thesis
      by simp
  qed
qed

lemma prefix_no_CR: "CR \<notin> set P \<Longrightarrow> prefix P (v @ CR # t) \<Longrightarrow> prefix P v"
proof (induction P arbitrary: v)
  case (Cons p P)
  show ?case
  proof (cases v)
    case Nil
    with Cons.prems show ?thesis by auto
  next
    case (Cons x xs)
    with Cons.prems Cons.IH[of xs] show ?thesis by simp
  qed
qed simp

text \<open>Data that holds no LF -- boundary is cut off exactly where the delimiter follows it.\<close>

lemma split_delim_found:
  assumes "token_ok b" "\<not> sublist (tl (delimiter b)) v"
  shows "split_delim (delimiter b) (v @ delimiter b @ r) = Some (v, 0, r)"
  using assms(2)
proof (induction v)
  case Nil
  then show ?case by (simp add: delimiter_def split_delim.simps(2))
next
  case (Cons c v)
  let ?t = "drop 1 (delimiter b) @ r"
  have t: "v @ delimiter b @ r = v @ CR # ?t" by (simp add: delimiter_def)
  have noCR: "CR \<notin> set (tl (delimiter b))" using assms(1) by (auto simp: delimiter_def token_ok_def)
  have "\<not> prefix (tl (delimiter b)) v" "\<not> prefix (tl (delimiter b)) (c # v)"
    using Cons.prems by (auto simp: sublist_Cons_right prefix_imp_sublist)
  then have "\<not> prefix (tl (delimiter b)) (v @ CR # ?t)" "\<not> prefix (tl (delimiter b)) ((c # v) @ CR # ?t)"
    using prefix_no_CR[OF noCR] by blast+
  then have "\<not> prefix (delimiter b) (c # v @ CR # ?t)" "\<not> prefix (tl (delimiter b)) (c # v @ CR # ?t)"
    by (auto simp: delimiter_def)
  then have "split_delim (delimiter b) (c # v @ CR # ?t) =
      prepend [c] (split_delim (delimiter b) (v @ CR # ?t))"
    by (rule split_delim_Cons)
  moreover have "\<not> sublist (tl (delimiter b)) v"
    using Cons.prems by (simp add: sublist_Cons_right)
  ultimately show ?case
    using Cons.IH[unfolded t] by (simp add: t)
qed

section \<open>The scanner against the reference\<close>

text \<open>
  A parser that scans the data of a part, with nothing of a delimiter matched yet. The match starts at
  the CR of the delimiter, or still at its LF when the part before ended at LF -- boundary, because
  nothing has set \<open>boundary_start\<close> back.
\<close>

definition ascii :: "string \<Rightarrow> bool" where
  "ascii s \<longleftrightarrow> (\<forall>c \<in> set s. (of_char c :: nat) < 128)"

definition scanning :: "string \<Rightarrow> formdata_parser \<Rightarrow> bool" where
  "scanning b ps \<longleftrightarrow> token_ok b \<and> ascii b \<and> boundary ps = delimiter b \<and>
     state ps = upload_state_data \<and> boundary_start ps \<le> 1 \<and> boundary_pos ps = boundary_start ps"

definition scanning_fresh :: "string \<Rightarrow> formdata_parser \<Rightarrow> bool" where
  "scanning_fresh b ps \<longleftrightarrow> token_ok b \<and> ascii b \<and> boundary ps = delimiter b \<and>
     state ps = upload_state_data \<and> boundary_start ps = 0 \<and> boundary_pos ps = 0"

text \<open>The parser after the delimiter that ends a part; \<open>k\<close> is where the next match starts.\<close>

definition close_part :: "nat \<Rightarrow> formdata_parser \<Rightarrow> formdata_parser" where
  "close_part k ps =
     upload_data_end (ps\<lparr>boundary_start := k, boundary_pos := length (boundary ps)\<rparr>)"

lemma ascii_delimiter: "ascii b \<Longrightarrow> ascii (delimiter b)"
  by (simp add: ascii_def delimiter_def)

lemma byte_eq_ascii: "ascii B \<Longrightarrow> i < length B \<Longrightarrow> byte_eq c (B ! i) \<longleftrightarrow> c = B ! i"
  by (auto simp: byte_eq_def ascii_def)

lemma putc_update [simp]:
  "upload_putc c (ps\<lparr>boundary_pos := i\<rparr>) = (upload_putc c ps)\<lparr>boundary_pos := i\<rparr>"
  "upload_putc c (ps\<lparr>boundary_start := i\<rparr>) = (upload_putc c ps)\<lparr>boundary_start := i\<rparr>"
  by (simp_all add: upload_putc_def upload_flush_output_buffer_def Let_def)

lemma fold_putc_update [simp]:
  "fold upload_putc u (ps\<lparr>boundary_pos := i\<rparr>) = (fold upload_putc u ps)\<lparr>boundary_pos := i\<rparr>"
  "fold upload_putc u (ps\<lparr>boundary_start := i\<rparr>) = (fold upload_putc u ps)\<lparr>boundary_start := i\<rparr>"
  by (induction u arbitrary: ps) simp_all

text \<open>Reading a piece of the boundary moves the match on.\<close>

lemma step_match:
  "state ps = upload_state_data \<Longrightarrow> ascii (boundary ps) \<Longrightarrow> boundary_pos ps < length (boundary ps) \<Longrightarrow>
     upload_step ps (boundary ps ! boundary_pos ps) =
       (upload_data_end (ps\<lparr>boundary_pos := Suc (boundary_pos ps)\<rparr>), None)"
  by (subst upload_step.simps) (simp add: byte_eq_ascii)

lemma match_run:
  assumes "state ps = upload_state_data" "ascii (boundary ps)"
    "prefix u (drop (boundary_pos ps) (boundary ps))"
    "boundary_pos ps + length u < length (boundary ps)"
  shows "upload_run ps u = (ps\<lparr>boundary_pos := boundary_pos ps + length u\<rparr>, None)"
  using assms
proof (induction u arbitrary: ps)
  case (Cons c u)
  let ?ps = "ps\<lparr>boundary_pos := Suc (boundary_pos ps)\<rparr>"
  have lt: "boundary_pos ps < length (boundary ps)" using Cons.prems(4) by simp
  have dr: "drop (boundary_pos ps) (boundary ps) =
      boundary ps ! boundary_pos ps # drop (Suc (boundary_pos ps)) (boundary ps)"
    using lt by (simp add: Cons_nth_drop_Suc)
  with Cons.prems(3) have c: "c = boundary ps ! boundary_pos ps"
    and u: "prefix u (drop (boundary_pos ?ps) (boundary ?ps))" by auto
  then have "upload_step ps c = (?ps, None)"
    using Cons.prems lt by (simp add: step_match data_end_skip)
  then show ?case
    using Cons.IH[of ?ps] Cons.prems u by simp
qed simp

lemma match_full:
  assumes "state ps = upload_state_data" "ascii (boundary ps)"
    "boundary_pos ps < length (boundary ps)"
  shows "upload_run ps (drop (boundary_pos ps) (boundary ps) @ r) =
           upload_run (upload_data_end (ps\<lparr>boundary_pos := length (boundary ps)\<rparr>)) r"
proof -
  let ?B = "boundary ps" and ?i = "boundary_pos ps"
  let ?u = "butlast (drop ?i ?B)" and ?ps = "ps\<lparr>boundary_pos := length (boundary ps) - 1\<rparr>"
  have ne: "drop ?i ?B \<noteq> []" "?B \<noteq> []" using assms(3) by auto
  have last: "last (drop ?i ?B) = ?B ! (length ?B - 1)"
    using ne(1) by (simp add: last_conv_nth)
  have split: "drop ?i ?B = ?u @ [?B ! (length ?B - 1)]"
    using append_butlast_last_id[OF ne(1)] last by simp
  have "upload_run ps ?u = (ps\<lparr>boundary_pos := ?i + length ?u\<rparr>, None)"
    using assms by (intro match_run) (auto simp: prefixeq_butlast)
  also have "?i + length ?u = length ?B - 1" using assms(3) by simp
  finally have "upload_run ps (?u @ (?B ! (length ?B - 1)) # r) =
      upload_run ?ps ((?B ! (length ?B - 1)) # r)"
    by (rule upload.run_None_append)
  moreover have "upload_step ?ps (?B ! (length ?B - 1)) =
      (upload_data_end (ps\<lparr>boundary_pos := length ?B\<rparr>), None)"
    using assms step_match[of ?ps] ne(2) by simp
  moreover have "drop ?i ?B @ r = ?u @ (?B ! (length ?B - 1)) # r"
    by (subst split) simp
  ultimately show ?thesis by (simp only: upload_run.simps prod.case option.case)
qed

lemma mismatch_run:
  assumes "state ps = upload_state_data" "ascii (boundary ps)" "boundary ps \<noteq> []"
    "boundary_start ps < boundary_pos ps" "boundary_pos ps < length (boundary ps)"
    "a \<noteq> boundary ps ! boundary_pos ps"
  shows "upload_run ps (a # v) = upload_run (upload_put_lump ps) (a # v)"
proof -
  have "upload_data_end (upload_put_lump ps) = upload_put_lump ps"
    using assms(3) by (intro data_end_skip) (simp add: upload_put_lump_def)
  then have "upload_step ps a = upload_step (upload_put_lump ps) a"
    using assms by (subst upload_step.simps) (simp add: byte_eq_ascii)
  then show ?thesis by simp
qed

text \<open>
  One move of the scanner from the base state: it closes the part, or writes a non-empty piece
  of data and is back in the base state, or runs out of input inside a delimiter.
\<close>

lemma start_update: "boundary_start ps = k \<Longrightarrow> ps\<lparr>boundary_start := k\<rparr> = ps"
  by (cases ps) simp

lemma scanning_fresh_fold_putc: "scanning_fresh b ps \<Longrightarrow> scanning_fresh b (fold upload_putc u ps)"
  by (simp add: scanning_fresh_def)

lemma scanning_fresh_boundary:
  assumes "scanning_fresh b ps"
  shows "boundary ps = delimiter b" "ascii (boundary ps)" "state ps = upload_state_data"
    "boundary_start ps = 0" "boundary_pos ps = 0" "boundary ps \<noteq> []" "token_ok b"
proof -
  show "boundary ps \<noteq> []" using assms by (simp add: scanning_fresh_def delimiter_def)
qed (use assms in \<open>simp_all add: scanning_fresh_def ascii_delimiter\<close>)

lemma prefix_trichotomy:
  obtains (full) r where "s = P @ r" | (short) "strict_prefix s P"
  | (off) u a w c v where "P = u @ a # w" "s = u @ c # v" "c \<noteq> a"
proof (cases "prefix P s \<or> strict_prefix s P")
  case True
  then show ?thesis using full short by (auto simp: prefix_def)
next
  case False
  then have "parallel s P" by (auto simp: parallel_def)
  then show ?thesis using off parallel_decomp by metis
qed

lemma advance_CR:
  assumes "scanning_fresh b ps" "s = CR # cs"
  shows "(\<exists>r. split_delim (delimiter b) s = Some ([], 0, r) \<and>
              upload_run ps s = upload_run (close_part 0 ps) r)
       \<or> (\<exists>u t. s = u @ t \<and> u \<noteq> [] \<and> split_delim (delimiter b) s = prepend u (split_delim (delimiter b) t) \<and>
              upload_run ps s = upload_run (fold upload_putc u ps) t)
       \<or> (split_delim (delimiter b) s = None \<and> upload_run ps s = (ps\<lparr>boundary_pos := length s\<rparr>, None))"
proof (cases rule: prefix_trichotomy[of s "delimiter b"])
  case (full r)
  note B = scanning_fresh_boundary[OF assms(1)]
  have "split_delim (delimiter b) s = Some ([], 0, r)"
    unfolding full by (rule split_delim_here)
  moreover have "upload_run ps s = upload_run (close_part 0 ps) r"
    using match_full[of ps r] B full unfolding close_part_def start_update[OF B(4)] by simp
  ultimately show ?thesis by blast
next
  case short
  note B = scanning_fresh_boundary[OF assms(1)]
  have "\<not> prefix (delimiter b) s"
    using short by (meson prefix_order.less_le_not_le)
  moreover have "\<not> prefix (tl (delimiter b)) s" using assms(2) by (simp add: delimiter_def)
  moreover have len: "length s < length (delimiter b)" using short by (rule prefix_length_less)
  then have "length cs < length (tl (delimiter b))" using assms(2) by simp
  then have "split_delim (delimiter b) cs = None" by (rule split_delim_short)
  ultimately have "split_delim (delimiter b) s = None"
    using assms(2) by (simp add: split_delim_Cons)
  moreover have "upload_run ps s = (ps\<lparr>boundary_pos := length s\<rparr>, None)"
    using match_run[of ps s] B short len by (simp add: strict_prefix_def)
  ultimately show ?thesis by blast
next
  case (off u a w c v)
  note B = scanning_fresh_boundary[OF assms(1)]
  have u: "u \<noteq> []" using off assms(2) by (cases u) (auto simp: delimiter_def)
  let ?ps = "ps\<lparr>boundary_pos := length u\<rparr>"
  have "upload_run ps u = (?ps, None)"
    using match_run[of ps u] B off(1) by simp
  then have "upload_run ps s = upload_run ?ps (c # v)"
    unfolding off(2) by (rule upload.run_None_append)
  also have "\<dots> = upload_run (upload_put_lump ?ps) (c # v)"
    using B off u by (intro mismatch_run) auto
  also have "upload_put_lump ?ps = fold upload_putc u ps"
    using B off(1) scanning_fresh_fold_putc[OF assms(1), of u] by (simp add: upload_put_lump_def scanning_fresh_def)
  finally have "upload_run ps s = upload_run (fold upload_putc u ps) (c # v)" .
  moreover have "split_delim (delimiter b) s = prepend u (split_delim (delimiter b) (c # v))"
    using split_delim_CR_mismatch[OF B(7) off(1) u off(3)] off(2) by simp
  ultimately show ?thesis using off(2) u by blast
qed

lemma advance_LF:
  assumes "scanning_fresh b ps" "s = LF # cs"
  shows "(\<exists>r. split_delim (delimiter b) s = Some ([], 1, r) \<and>
              upload_run ps s = upload_run (close_part 1 ps) r)
       \<or> (\<exists>u t. s = u @ t \<and> u \<noteq> [] \<and> split_delim (delimiter b) s = prepend u (split_delim (delimiter b) t) \<and>
              upload_run ps s = upload_run (fold upload_putc u ps) t)
       \<or> (split_delim (delimiter b) s = None \<and>
              upload_run ps s = (ps\<lparr>boundary_start := 1, boundary_pos := Suc (length s)\<rparr>, None))"
proof -
  note B = scanning_fresh_boundary[OF assms(1)]
  let ?P = "CHR ''-'' # CHR ''-'' # b" and ?ps = "ps\<lparr>boundary_start := 1, boundary_pos := 2\<rparr>"
  have P: "drop 2 (delimiter b) = ?P" by (simp add: delimiter_def)
  have "upload_step ps LF = (upload_data_end (ps\<lparr>boundary_pos := 2, boundary_start := 1\<rparr>), None)"
    using B by (subst upload_step.simps) (simp add: byte_eq_ascii delimiter_def byte_eq_def)
  moreover have "upload_data_end (ps\<lparr>boundary_pos := 2, boundary_start := 1\<rparr>) = ?ps"
    using B by (subst data_end_skip) (auto simp: delimiter_def)
  ultimately have LF: "upload_run ps s = upload_run ?ps cs"
    using assms(2) by simp
  show ?thesis
  proof (cases rule: prefix_trichotomy[of cs ?P])
    case (full r)
    have "split_delim (delimiter b) s = Some ([], 1, r)"
      using full assms(2) split_delim_here(2)[of b r] by simp
    moreover have "upload_run ?ps cs = upload_run (close_part 1 ps) r"
      using match_full[of ?ps r] B full P by (simp add: close_part_def)
    ultimately show ?thesis using LF by auto
  next
    case short
    then have len: "length cs < length ?P" by (rule prefix_length_less)
    have "\<not> prefix (tl (delimiter b)) s"
      using short assms(2) by (auto simp: delimiter_def dest: prefix_order.less_le_not_le[THEN iffD1])
    moreover have "\<not> prefix (delimiter b) s" using assms(2) by (simp add: delimiter_def)
    moreover have "split_delim (delimiter b) cs = None" using len by (intro split_delim_short) simp
    ultimately have "split_delim (delimiter b) s = None"
      using assms(2) by (simp add: split_delim_Cons)
    moreover have "upload_run ?ps cs = (ps\<lparr>boundary_start := 1, boundary_pos := Suc (length s)\<rparr>, None)"
      using match_run[of ?ps cs] B short len assms(2) P by (simp add: strict_prefix_def)
    ultimately show ?thesis using LF by auto
  next
    case (off u a w c v)
    let ?ps' = "ps\<lparr>boundary_start := 1, boundary_pos := length u + 2\<rparr>"
    have D: "delimiter b = (CR # LF # u) @ a # w" using off(1) by (simp add: delimiter_def)
    have "upload_run ?ps u = (?ps', None)"
      using match_run[of ?ps u] B D by (simp add: add.commute)
    then have "upload_run ps s = upload_run ?ps' (c # v)"
      unfolding LF off(2) by (rule upload.run_None_append)
    also have "\<dots> = upload_run (upload_put_lump ?ps') (c # v)"
      using B D off by (intro mismatch_run) (auto simp: nth_append)
    also have "upload_put_lump ?ps' = fold upload_putc (LF # u) ps"
      using B D scanning_fresh_fold_putc[OF assms(1), of "LF # u"]
      by (simp add: upload_put_lump_def scanning_fresh_def)
    finally have "upload_run ps s = upload_run (fold upload_putc (LF # u) ps) (c # v)" .
    moreover have "split_delim (delimiter b) s = prepend (LF # u) (split_delim (delimiter b) (c # v))"
      using split_delim_LF_mismatch[OF B(7) off(1) off(3)] off(2) assms(2) by simp
    moreover have "s = (LF # u) @ c # v" using off(2) assms(2) by simp
    ultimately show ?thesis by blast
  qed
qed

text \<open>The scanner finds the delimiter the reference finds, and writes out the data before it.\<close>

lemma advance:
  assumes "scanning_fresh b ps" "s \<noteq> []"
  shows "(\<exists>k r. split_delim (delimiter b) s = Some ([], k, r) \<and>
              upload_run ps s = upload_run (close_part k ps) r)
       \<or> (\<exists>u t. s = u @ t \<and> u \<noteq> [] \<and> split_delim (delimiter b) s = prepend u (split_delim (delimiter b) t) \<and>
              upload_run ps s = upload_run (fold upload_putc u ps) t)
       \<or> (split_delim (delimiter b) s = None \<and>
              (\<exists>k i. upload_run ps s = (ps\<lparr>boundary_start := k, boundary_pos := i\<rparr>, None)))"
proof -
  obtain c cs where s: "s = c # cs" using assms(2) by (cases s) auto
  consider "c = CR" | "c = LF" | (other) "c \<noteq> CR" "c \<noteq> LF" by blast
  then show ?thesis
  proof cases
    case 1
    have "ps\<lparr>boundary_pos := length s\<rparr> = ps\<lparr>boundary_start := 0, boundary_pos := length s\<rparr>"
      unfolding start_update[OF scanning_fresh_boundary(4)[OF assms(1)]] ..
    with advance_CR[OF assms(1) s[unfolded 1]] show ?thesis by (elim disjE) auto
  next
    case 2
    show ?thesis using advance_LF[OF assms(1) s[unfolded 2]] by (elim disjE) blast+
  next
    case other
    note B = scanning_fresh_boundary[OF assms(1)]
    have "upload_step ps c = (upload_data_end (upload_putc c ps), None)"
      using B other by (subst upload_step.simps) (simp add: byte_eq_def delimiter_def)
    then have "upload_run ps s = upload_run (fold upload_putc [c] ps) cs"
      using B s by (simp add: data_end_skip)
    moreover have "split_delim (delimiter b) s = prepend [c] (split_delim (delimiter b) cs)"
      using other s by (simp add: split_delim_Cons delimiter_def)
    moreover have "s = [c] @ cs" using s by simp
    ultimately show ?thesis by blast
  qed
qed

lemma advance_cases:
  assumes "scanning_fresh b ps" "s \<noteq> []"
  obtains (closed) k r where "split_delim (delimiter b) s = Some ([], k, r)"
      "upload_run ps s = upload_run (close_part k ps) r"
    | (moved) u t where "s = u @ t" "u \<noteq> []"
      "split_delim (delimiter b) s = prepend u (split_delim (delimiter b) t)"
      "upload_run ps s = upload_run (fold upload_putc u ps) t"
    | (stuck) k i where "split_delim (delimiter b) s = None"
      "upload_run ps s = (ps\<lparr>boundary_start := k, boundary_pos := i\<rparr>, None)"
  using advance[OF assms]
  apply (elim disjE exE conjE)
    apply (erule (1) closed)
   apply (erule (3) moved)
  apply (erule (1) stuck)
  done

lemma scan_found:
  assumes "scanning_fresh b ps" "split_delim (delimiter b) s = Some (d, k, r)"
  shows "upload_run ps s = upload_run (close_part k (fold upload_putc d ps)) r"
  using assms
proof (induction "length s" arbitrary: s ps d rule: less_induct)
  case less
  have "s \<noteq> []" using less.prems(2) by auto
  from less.prems(1) this show ?case
  proof (cases rule: advance_cases)
    case closed
    then show ?thesis using less.prems by simp
  next
    case (moved u t)
    then obtain d' where d': "split_delim (delimiter b) t = Some (d', k, r)" "d = u @ d'"
      using less.prems(2) by (auto simp: prepend_def split: option.splits)
    have "upload_run (fold upload_putc u ps) t =
        upload_run (close_part k (fold upload_putc d' (fold upload_putc u ps))) r"
      using moved(1,2) by (intro less.hyps scanning_fresh_fold_putc less.prems(1) d'(1)) simp
    then show ?thesis unfolding moved(4) d'(2) by simp
  next
    case stuck
    then show ?thesis using less.prems by simp
  qed
qed

lemma scan_open:
  assumes "scanning_fresh b ps" "split_delim (delimiter b) s = None"
  shows "\<exists>ps'. upload_run ps s = (ps', None) \<and> state ps' = upload_state_data \<and>
           formdata_params ps' = formdata_params ps"
  using assms
proof (induction "length s" arbitrary: s ps rule: less_induct)
  case less
  show ?case
  proof (cases "s = []")
    case True
    then show ?thesis using scanning_fresh_boundary(3)[OF less.prems(1)] by simp
  next
    case False
    from less.prems(1) this show ?thesis
    proof (cases rule: advance_cases)
      case closed
      then show ?thesis using less.prems by simp
    next
      case (moved u t)
      have "split_delim (delimiter b) t = None"
        by (metis moved(3) less.prems(2) prepend_simps(5))
      then have "\<exists>ps'. upload_run (fold upload_putc u ps) t = (ps', None) \<and>
          state ps' = upload_state_data \<and>
          formdata_params ps' = formdata_params (fold upload_putc u ps)"
        using moved(1,2) by (intro less.hyps scanning_fresh_fold_putc less.prems(1)) auto
      then show ?thesis unfolding moved(4) by simp
    next
      case stuck
      then show ?thesis using scanning_fresh_boundary(3)[OF less.prems(1)] by simp
    qed
  qed
qed

text \<open>
  While the match starts at the LF, a CR is data like any other character. With the first LF the
  scanner is where it would be without the part before. \<open>split_from k\<close> is the reference from
  \<open>boundary_start = k\<close>.
\<close>

definition split_from :: "nat \<Rightarrow> string \<Rightarrow> string \<Rightarrow> (string \<times> nat \<times> string) option" where
  "split_from k B s =
     (if k = 0 then split_delim B s
      else prepend (takeWhile (\<lambda>c. c \<noteq> LF) s) (split_delim B (dropWhile (\<lambda>c. c \<noteq> LF) s)))"

lemma scanning_cases:
  assumes "scanning b ps"
  shows "boundary_start ps = 0 \<and> scanning_fresh b ps \<or> boundary_start ps = 1 \<and> boundary_pos ps = 1"
  using assms by (auto simp: scanning_def scanning_fresh_def)

lemma data_run:
  assumes "scanning b ps" "boundary_start ps = 1" "LF \<notin> set u"
  shows "upload_run ps u = (fold upload_putc u ps, None)"
  using assms
proof (induction u arbitrary: ps)
  case (Cons c u)
  have "ascii (delimiter b)" using Cons.prems(1) by (simp add: scanning_def ascii_delimiter)
  then have "\<not> byte_eq c (delimiter b ! 1)"
    using Cons.prems(3) byte_eq_ascii[of "delimiter b" 1 c] by (auto simp: delimiter_def)
  then have "upload_step ps c = (upload_data_end (upload_putc c ps), None)"
    using Cons.prems by (subst upload_step.simps) (auto simp: scanning_def)
  moreover have "upload_data_end (upload_putc c ps) = upload_putc c ps"
    using Cons.prems by (intro data_end_skip) (simp add: scanning_def delimiter_def)
  moreover have "scanning b (upload_putc c ps)" "boundary_start (upload_putc c ps) = 1"
    using Cons.prems by (simp_all add: scanning_def)
  ultimately show ?case using Cons.IH[of "upload_putc c ps"] Cons.prems(3) by simp
qed simp

lemma LF_step:
  assumes "scanning b ps"
  shows "upload_step ps LF = (ps\<lparr>boundary_start := 1, boundary_pos := 2\<rparr>, None)"
proof -
  let ?ps = "ps\<lparr>boundary_start := 1, boundary_pos := 2\<rparr>"
  have B: "boundary ps = delimiter b" "state ps = upload_state_data" "ascii (delimiter b)"
    using assms by (simp_all add: scanning_def ascii_delimiter)
  have skip: "upload_data_end ?ps = ?ps" using B by (intro data_end_skip) (simp add: delimiter_def)
  consider "boundary_start ps = 0" "boundary_pos ps = 0" | "boundary_start ps = 1" "boundary_pos ps = 1"
    using assms by (cases "boundary_start ps") (auto simp: scanning_def)
  then show ?thesis
  proof cases
    case 1
    have eq: "ps\<lparr>boundary_pos := 2, boundary_start := 1\<rparr> = ?ps" by simp
    have "upload_step ps LF = (upload_data_end (ps\<lparr>boundary_pos := 2, boundary_start := 1\<rparr>), None)"
      using B 1 by (subst upload_step.simps) (simp add: byte_eq_ascii delimiter_def byte_eq_def)
    then show ?thesis unfolding eq skip .
  next
    case 2
    then have eq: "ps\<lparr>boundary_pos := Suc (boundary_pos ps)\<rparr> = ?ps" by (cases ps) simp
    have "boundary ps ! boundary_pos ps = LF" "boundary_pos ps < length (boundary ps)"
      using B 2 by (simp_all add: delimiter_def)
    then show ?thesis using step_match[of ps] B unfolding eq skip by simp
  qed
qed

lemma LF_restarts:
  assumes "scanning b ps"
  shows "upload_run ps (LF # s) = upload_run (ps\<lparr>boundary_start := 0, boundary_pos := 0\<rparr>) (LF # s)"
proof -
  have "scanning b (ps\<lparr>boundary_start := 0, boundary_pos := 0\<rparr>)" using assms by (simp add: scanning_def)
  from LF_step[OF assms] LF_step[OF this] show ?thesis by simp
qed

text \<open>Scanning from a match that starts at the LF.\<close>

lemma scan_from_LF:
  fixes s :: string
  assumes "scanning b ps" "boundary_start ps = 1"
  defines "u \<equiv> takeWhile (\<lambda>c. c \<noteq> LF) s" and "t \<equiv> dropWhile (\<lambda>c. c \<noteq> LF) s"
  shows "t = [] \<and> upload_run ps s = (fold upload_putc u ps, None) \<or>
    upload_run ps s = upload_run (fold upload_putc u (ps\<lparr>boundary_start := 0, boundary_pos := 0\<rparr>)) t"
proof -
  have s: "s = u @ t" by (simp add: u_def t_def)
  have "LF \<notin> set u" unfolding u_def by (auto dest: set_takeWhileD)
  from data_run[OF assms(1,2) this] have run: "upload_run ps u = (fold upload_putc u ps, None)" .
  show ?thesis
  proof (cases t)
    case Nil
    then show ?thesis using s run by simp
  next
    case (Cons c cs)
    then have "c = LF" using hd_dropWhile[of "\<lambda>c. c \<noteq> LF" s] unfolding t_def by auto
    have "upload_run ps s = upload_run (fold upload_putc u ps) t"
      unfolding s using run by (rule upload.run_None_append)
    also have "\<dots> = upload_run ((fold upload_putc u ps)\<lparr>boundary_start := 0, boundary_pos := 0\<rparr>) t"
      unfolding Cons \<open>c = LF\<close> using assms(1) by (intro LF_restarts[of b]) (simp add: scanning_def)
    finally show ?thesis by simp
  qed
qed

lemma scanning_reset: "scanning b ps \<Longrightarrow> scanning_fresh b (ps\<lparr>boundary_start := 0, boundary_pos := 0\<rparr>)"
  by (simp add: scanning_def scanning_fresh_def)

lemma close_part_reset:
  "close_part k (fold upload_putc d (ps\<lparr>boundary_start := i, boundary_pos := j\<rparr>)) = close_part k (fold upload_putc d ps)"
  by (simp add: close_part_def)

lemma scan_from_found:
  assumes "scanning b ps" "split_from (boundary_start ps) (delimiter b) s = Some (d, k, r)"
  shows "upload_run ps s = upload_run (close_part k (fold upload_putc d ps)) r"
  using scanning_cases[OF assms(1)]
proof
  assume "boundary_start ps = 0 \<and> scanning_fresh b ps"
  then show ?thesis using scan_found[of b ps s] assms(2) by (simp add: split_from_def)
next
  let ?u = "takeWhile (\<lambda>c. c \<noteq> LF) s" and ?t = "dropWhile (\<lambda>c. c \<noteq> LF) s"
  let ?ps = "ps\<lparr>boundary_start := 0, boundary_pos := 0\<rparr>"
  assume one: "boundary_start ps = 1 \<and> boundary_pos ps = 1"
  then obtain d' where d': "split_delim (delimiter b) ?t = Some (d', k, r)" "d = ?u @ d'"
    using assms(2) by (auto simp: split_from_def prepend_def split: option.splits)
  then have "?t \<noteq> []" by (cases ?t) simp_all
  then have "upload_run ps s = upload_run (fold upload_putc ?u ?ps) ?t"
    using scan_from_LF[OF assms(1), of s] one by blast
  also have "\<dots> = upload_run (close_part k (fold upload_putc d' (fold upload_putc ?u ?ps))) r"
    using scanning_fresh_fold_putc[OF scanning_reset[OF assms(1)]] d'(1) by (intro scan_found)
  also have "fold upload_putc d' (fold upload_putc ?u ?ps) = fold upload_putc d ?ps" by (simp add: d'(2))
  finally show ?thesis unfolding close_part_reset .
qed

lemma scan_from_open:
  assumes "scanning b ps" "split_from (boundary_start ps) (delimiter b) s = None"
  shows "\<exists>ps'. upload_run ps s = (ps', None) \<and> state ps' = upload_state_data \<and>
           formdata_params ps' = formdata_params ps"
  using scanning_cases[OF assms(1)]
proof
  assume "boundary_start ps = 0 \<and> scanning_fresh b ps"
  then show ?thesis using scan_open[of b ps s] assms(2) by (simp add: split_from_def)
next
  let ?u = "takeWhile (\<lambda>c. c \<noteq> LF) s" and ?t = "dropWhile (\<lambda>c. c \<noteq> LF) s"
  let ?ps = "ps\<lparr>boundary_start := 0, boundary_pos := 0\<rparr>"
  assume one: "boundary_start ps = 1 \<and> boundary_pos ps = 1"
  have st: "state ps = upload_state_data" using assms(1) by (simp add: scanning_def)
  have none: "split_delim (delimiter b) ?t = None" using assms(2) one by (simp add: split_from_def)
  consider "upload_run ps s = (fold upload_putc ?u ps, None)"
    | "upload_run ps s = upload_run (fold upload_putc ?u ?ps) ?t"
    using scan_from_LF[OF assms(1), of s] one by blast
  then show ?thesis
  proof cases
    case 1
    then show ?thesis using st by simp
  next
    case 2
    show ?thesis
      unfolding 2 using scan_open[OF scanning_fresh_fold_putc[OF scanning_reset[OF assms(1)]] none, of ?u]
      by simp
  qed
qed

section \<open>The value of a part\<close>

text \<open>
  The output buffer is handed over once: the value of a part is what fills the buffer first, the
  first \<open>buffer_size\<close> bytes of its data.
\<close>

lemma putc_kept:
  "field_value ps \<noteq> [] \<Longrightarrow> field_value (fold upload_putc d ps) = field_value ps"
  by (induction d arbitrary: ps)
    (simp_all add: upload_putc_def upload_flush_output_buffer_def Let_def)

lemma fold_putc_content:
  assumes "\<not> discard_data ps" "field_value ps = []" "length (output_buffer ps) < buffer_size ps"
  shows "if length (output_buffer ps) + length d < buffer_size ps
         then field_value (fold upload_putc d ps) = [] \<and>
              output_buffer (fold upload_putc d ps) = output_buffer ps @ d
         else field_value (fold upload_putc d ps) = take (buffer_size ps) (output_buffer ps @ d)"
  using assms
proof (induction d arbitrary: ps)
  case (Cons c d)
  show ?case
  proof (cases "length (output_buffer ps) + 1 = buffer_size ps")
    case True
    then have "field_value (upload_putc c ps) = output_buffer ps @ [c]"
      using Cons.prems by (simp add: upload_putc_def upload_flush_output_buffer_def Let_def)
    moreover have "buffer_size ps - length (output_buffer ps) = 1" using True by simp
    ultimately show ?thesis
      using True putc_kept[of "upload_putc c ps" d] by simp
  next
    case False
    then have "upload_putc c ps = ps\<lparr>output_buffer := output_buffer ps @ [c]\<rparr>"
      using Cons.prems by (simp add: upload_putc_def)
    moreover have "length (output_buffer ps) + 1 < buffer_size ps"
      using False Cons.prems(3) by simp
    ultimately show ?thesis
      using Cons.IH[of "upload_putc c ps"] Cons.prems by auto
  qed
qed simp

lemma first_part_putc [simp]:
  "first_part (upload_putc c ps) = first_part ps"
  by (simp add: upload_putc_def upload_flush_output_buffer_def Let_def)

lemma first_part_fold_putc [simp]: "first_part (fold upload_putc d ps) = first_part ps"
  by (induction d arbitrary: ps) auto

definition part_done :: "nat \<Rightarrow> string \<Rightarrow> formdata_parser \<Rightarrow> formdata_parser" where
  "part_done k d ps =
     ps\<lparr>formdata_params := map_insert (field_name ps) (take (buffer_size ps) d) (formdata_params ps),
        field_name := [], field_value := [], content_type := [],
        state := upload_state_after_boundary, boundary_start := k, boundary_pos := k,
        output_buffer := [], discard_data := False\<rparr>"

lemma close_part_eq:
  assumes "\<not> discard_data ps" "field_value ps = []" "output_buffer ps = []" "0 < buffer_size ps"
  shows "close_part k (fold upload_putc d ps) = part_done k d ps"
proof -
  let ?ps = "fold upload_putc d ps"
  have v: "(if field_value ?ps = [] then output_buffer ?ps else field_value ?ps) = take (buffer_size ps) d"
    using fold_putc_content[of ps d] assms by (auto split: if_splits)
  show ?thesis
    using assms v
    by (intro formdata_parser.equality)
      (auto simp: close_part_def part_done_def upload_data_end_def part_defs Let_def split: if_splits)
qed

section \<open>Header lines and the turns between parts\<close>

lemma after_crlf:
  "state ps = upload_state_after_boundary \<Longrightarrow>
     upload_run ps (CR # LF # s) = upload_run (ps\<lparr>state := upload_state_headers, header_accumulator := []\<rparr>) s"
  by (simp add: upload_step.simps[of _ CR] upload_step.simps[of _ LF] upload_after_boundary_def)

lemma after_dash:
  "state ps = upload_state_after_boundary \<Longrightarrow>
     upload_run ps (CHR ''-'' # s) = (ps\<lparr>state := upload_state_finish\<rparr>, None)"
  by (simp add: upload_step.simps[of _ "CHR ''-''"] upload_after_boundary_def upload.run_dead)

lemma header_chars:
  assumes "state ps = upload_state_headers" "CR \<notin> set line" "LF \<notin> set line"
    "length (header_accumulator ps) + length line < max_header_len ps"
  shows "upload_run ps line = (ps\<lparr>header_accumulator := header_accumulator ps @ line\<rparr>, None)"
  using assms
proof (induction line arbitrary: ps)
  case (Cons c line)
  have "upload_step ps c = (ps\<lparr>header_accumulator := header_accumulator ps @ [c]\<rparr>, None)"
    using Cons.prems by (subst upload_step.simps) (auto simp: upload_headers_def)
  then show ?case using Cons by simp
qed simp

lemma header_line:
  assumes "state ps = upload_state_headers" "header_accumulator ps = []" "line \<noteq> []"
    "CR \<notin> set line" "LF \<notin> set line" "length line < max_header_len ps"
  shows "upload_run ps (line @ CR # LF # s) =
           (case upload_parse_part_header line (ps\<lparr>header_accumulator := line\<rparr>) of
              (ps', None) \<Rightarrow> upload_run (ps'\<lparr>header_accumulator := []\<rparr>) s
            | (ps', Some e) \<Rightarrow> (ps'\<lparr>state := upload_state_finish\<rparr>, Some e))"
proof -
  let ?ps = "ps\<lparr>header_accumulator := line\<rparr>"
  have "upload_run ps line = (?ps, None)"
    using header_chars[of ps line] assms by simp
  then have "upload_run ps (line @ CR # LF # s) = upload_run ?ps (CR # LF # s)"
    by (rule upload.run_None_append)
  moreover have "upload_step ?ps CR = (?ps, None)"
    using assms(1) by (subst upload_step.simps) (simp add: upload_headers_def)
  moreover have "upload_step ?ps LF =
      (case upload_parse_part_header line ?ps of
         (ps', None) \<Rightarrow> (ps'\<lparr>header_accumulator := []\<rparr>, None)
       | (ps', Some e) \<Rightarrow> (ps'\<lparr>state := upload_state_finish\<rparr>, Some e))"
    using assms(1,3) by (subst upload_step.simps) (simp add: upload_headers_def)
  ultimately show ?thesis
    by (auto split: prod.splits option.splits)
qed

lemma header_end:
  assumes "state ps = upload_state_headers" "header_accumulator ps = []"
  shows "upload_run ps (CR # LF # s) =
           upload_run (ps\<lparr>state := upload_state_data, output_buffer := []\<rparr>) s"
  using assms by (simp add: upload_step.simps[of _ CR] upload_step.simps[of _ LF] upload_headers_def
      upload_start_part_def)

text \<open>The line that gives a part its name.\<close>

definition disposition :: "string \<Rightarrow> string" where
  "disposition n =
     CONTENT_DISPOSITION_STRING @ '' '' @ FORM_DATA_STRING @ ''; '' @ FIELDNAME_STRING @ n @ [QUOTE]"

definition name_ok :: "string \<Rightarrow> bool" where
  "name_ok n \<longleftrightarrow> QUOTE \<notin> set n \<and> CR \<notin> set n \<and> LF \<notin> set n \<and> NUL \<notin> set n"

lemma disposition_chars:
  "name_ok n \<Longrightarrow> CR \<notin> set (disposition n) \<and> LF \<notin> set (disposition n) \<and>
     NUL \<notin> set (disposition n) \<and> disposition n \<noteq> []"
  by (simp add: disposition_def name_ok_def CONTENT_DISPOSITION_STRING_def FORM_DATA_STRING_def
      FIELDNAME_STRING_def)

lemma sub_index_fieldname:
  "sub_index FIELDNAME_STRING (FORM_DATA_STRING @ ''; '' @ FIELDNAME_STRING @ t) = Some 11"
  by (simp add: FIELDNAME_STRING_def FORM_DATA_STRING_def)

lemma parse_disposition:
  assumes "name_ok n"
  shows "upload_parse_part_header (disposition n) ps = (ps\<lparr>field_name := n\<rparr>, None)"
proof -
  let ?v = "FORM_DATA_STRING @ ''; '' @ FIELDNAME_STRING @ n @ [QUOTE]"
  have h: "c_str (disposition n) = CONTENT_DISPOSITION_STRING @ CHR '' '' # ?v"
    using disposition_chars[OF assms] by (simp add: c_str_id) (simp add: disposition_def)
  have sp: "strspn (CHR '' '' # ?v) '' '' = 1"
    by (simp add: strspn_def FORM_DATA_STRING_def)
  have fs: "drop (11 + length FIELDNAME_STRING) ?v = n @ [QUOTE]"
    by (simp add: FORM_DATA_STRING_def FIELDNAME_STRING_def)
  have n: "strcspn (n @ [QUOTE]) [QUOTE] = length n"
    using assms by (intro strcspn_append_stop) (auto simp: name_ok_def)
  show ?thesis
    unfolding upload_parse_part_header_def Let_def h
    using sp sub_index_fieldname[of "n @ [QUOTE]"] fs n by simp
qed

section \<open>Whole forms\<close>

text \<open>
  The body an agent sends for a list of fields. A value may hold any bytes but the delimiter
  without its CR; a name, what fits in a quoted string and, with its header, in the line buffer.
\<close>

definition encode_part :: "string \<Rightarrow> string \<times> string \<Rightarrow> string" where
  "encode_part b f =
     CR # LF # disposition (fst f) @ CR # LF # CR # LF # snd f @ delimiter b"

definition encode_form :: "string \<Rightarrow> (string \<times> string) list \<Rightarrow> string" where
  "encode_form b fs = drop 2 (delimiter b) @ concat (map (encode_part b) fs) @ ''--''"

definition field_ok :: "string \<Rightarrow> nat \<Rightarrow> string \<times> string \<Rightarrow> bool" where
  "field_ok b header_len f \<longleftrightarrow>
     name_ok (fst f) \<and> length (disposition (fst f)) < header_len \<and> \<not> sublist (tl (delimiter b)) (snd f)"

text \<open>A parser between two parts.\<close>

definition between :: "string \<Rightarrow> formdata_parser \<Rightarrow> bool" where
  "between b ps \<longleftrightarrow> token_ok b \<and> ascii b \<and> boundary ps = delimiter b \<and>
     state ps = upload_state_after_boundary \<and> boundary_start ps = 0 \<and> boundary_pos ps = 0 \<and>
     field_value ps = [] \<and> \<not> discard_data ps \<and> 0 < buffer_size ps"

lemma part_run:
  assumes "between b ps" "field_ok b (max_header_len ps) f"
  shows "\<exists>ps'. upload_run ps (encode_part b f @ s) = upload_run ps' s \<and> between b ps' \<and>
           buffer_size ps' = buffer_size ps \<and> max_header_len ps' = max_header_len ps \<and>
           formdata_params ps' = map_insert (fst f) (take (buffer_size ps) (snd f)) (formdata_params ps)"
proof -
  let ?ps = "ps\<lparr>field_name := fst f, header_accumulator := [], state := upload_state_data, output_buffer := []\<rparr>"
  let ?line = "disposition (fst f)"
  have n: "name_ok (fst f)" "length ?line < max_header_len ps" using assms(2) by (auto simp: field_ok_def)
  note line = disposition_chars[OF n(1)]
  have st: "state ps = upload_state_after_boundary" using assms(1) by (simp add: between_def)
  have "upload_run ps (encode_part b f @ s) =
      upload_run (ps\<lparr>state := upload_state_headers, header_accumulator := []\<rparr>)
        (?line @ CR # LF # CR # LF # snd f @ delimiter b @ s)"
    using after_crlf[OF st] by (simp add: encode_part_def)
  also have "\<dots> = upload_run (ps\<lparr>state := upload_state_headers, field_name := fst f, header_accumulator := []\<rparr>)
        (CR # LF # snd f @ delimiter b @ s)"
    using line n by (subst header_line) (simp_all add: parse_disposition)
  also have "\<dots> = upload_run ?ps (snd f @ delimiter b @ s)"
    by (subst header_end) simp_all
  also have "\<dots> = upload_run (close_part 0 (fold upload_putc (snd f) ?ps)) s"
    using assms split_delim_found[of b "snd f" s]
    by (intro scan_found[of b]) (simp_all add: scanning_fresh_def between_def field_ok_def)
  also have "close_part 0 (fold upload_putc (snd f) ?ps) = part_done 0 (snd f) ?ps"
    using assms(1) by (intro close_part_eq) (simp_all add: between_def)
  finally have "upload_run ps (encode_part b f @ s) = upload_run (part_done 0 (snd f) ?ps) s" .
  then show ?thesis
    using assms(1)
    by (intro exI[of _ "part_done 0 (snd f) ?ps"]) (simp add: part_done_def between_def)
qed

lemma parts_run:
  assumes "between b ps" "list_all (field_ok b (max_header_len ps)) fs"
  shows "\<exists>ps'. upload_run ps (concat (map (encode_part b) fs) @ s) = upload_run ps' s \<and> between b ps' \<and>
           max_header_len ps' = max_header_len ps \<and>
           formdata_params ps' =
             fold (\<lambda>(n, v). map_insert n v) (map (apsnd (take (buffer_size ps))) fs) (formdata_params ps)"
  using assms
proof (induction fs arbitrary: ps)
  case Nil
  then show ?case by auto
next
  case (Cons f fs)
  then obtain ps1 where ps1:
    "upload_run ps (encode_part b f @ concat (map (encode_part b) fs) @ s) =
       upload_run ps1 (concat (map (encode_part b) fs) @ s)"
    "between b ps1" "buffer_size ps1 = buffer_size ps" "max_header_len ps1 = max_header_len ps"
    "formdata_params ps1 = map_insert (fst f) (take (buffer_size ps) (snd f)) (formdata_params ps)"
    using part_run[of b ps f "concat (map (encode_part b) fs) @ s"] by auto
  then show ?case
    using Cons.IH[of ps1] Cons.prems(2) by (simp add: case_prod_beta' apsnd_def map_prod_def)
qed

text \<open>A part whose data has no delimiter leaves the stored fields as they are.\<close>

lemma open_part_run:
  assumes "between b ps" "name_ok n" "length (disposition n) < max_header_len ps"
    "split_delim (delimiter b) v = None"
  shows "\<exists>ps'. upload_run ps (CR # LF # disposition n @ CR # LF # CR # LF # v) = (ps', None) \<and>
           formdata_params ps' = formdata_params ps"
proof -
  let ?ps = "ps\<lparr>field_name := n, header_accumulator := [], state := upload_state_data, output_buffer := []\<rparr>"
  note line = disposition_chars[OF assms(2)]
  have st: "state ps = upload_state_after_boundary" using assms(1) by (simp add: between_def)
  have "upload_run ps (CR # LF # disposition n @ CR # LF # CR # LF # v) =
      upload_run (ps\<lparr>state := upload_state_headers, header_accumulator := []\<rparr>)
        (disposition n @ CR # LF # CR # LF # v)"
    using after_crlf[OF st] by simp
  also have "\<dots> = upload_run (ps\<lparr>state := upload_state_headers, field_name := n, header_accumulator := []\<rparr>)
        (CR # LF # v)"
    using line assms by (subst header_line) (simp_all add: parse_disposition)
  also have "\<dots> = upload_run ?ps v"
    by (subst header_end) simp_all
  finally have "upload_run ps (CR # LF # disposition n @ CR # LF # CR # LF # v) = upload_run ?ps v" .
  moreover have "scanning_fresh b ?ps" using assms(1) by (simp add: scanning_fresh_def between_def)
  ultimately show ?thesis using scan_open[OF _ assms(4), of ?ps] by auto
qed

text \<open>Seeking the first boundary, when the body begins with it.\<close>

lemma seek_run:
  assumes "state ps = upload_state_boundary_seek" "ascii (boundary ps)" "boundary_start ps = 2"
    "prefix u (drop (boundary_pos ps) (boundary ps))"
    "boundary_pos ps + length u < length (boundary ps)"
  shows "upload_run ps u = (ps\<lparr>boundary_pos := boundary_pos ps + length u\<rparr>, None)"
  using assms
proof (induction u arbitrary: ps)
  case (Cons c u)
  let ?ps = "ps\<lparr>boundary_pos := Suc (boundary_pos ps)\<rparr>"
  have lt: "boundary_pos ps < length (boundary ps)" using Cons.prems(5) by simp
  then have dr: "drop (boundary_pos ps) (boundary ps) =
      boundary ps ! boundary_pos ps # drop (Suc (boundary_pos ps)) (boundary ps)"
    by (simp add: Cons_nth_drop_Suc)
  with Cons.prems(4) have c: "c = boundary ps ! boundary_pos ps"
    and u: "prefix u (drop (boundary_pos ?ps) (boundary ?ps))" by auto
  have "upload_step ps c = (?ps, None)"
    using Cons.prems c lt
    by (subst upload_step.simps) (simp add: upload_boundary_seek_def byte_eq_ascii)
  then show ?case
    using Cons.IH[of ?ps] Cons.prems u by simp
qed simp

lemma seek_found:
  assumes "state ps = upload_state_boundary_seek" "ascii b" "token_ok b" "boundary ps = delimiter b"
    "boundary_start ps = 2" "boundary_pos ps = 2"
  shows "upload_run ps (drop 2 (delimiter b) @ s) =
           upload_run (ps\<lparr>state := upload_state_after_boundary, boundary_start := 0, boundary_pos := 0\<rparr>) s"
proof -
  have b: "b \<noteq> []" using assms(3) by (simp add: token_ok_def)
  let ?u = "CHR ''-'' # CHR ''-'' # butlast b"
  let ?ps = "ps\<lparr>boundary_pos := length b + 3\<rparr>"
  have d: "drop 2 (delimiter b) @ s = ?u @ last b # s"
    using b by (simp add: delimiter_def)
  have "prefix ?u (drop 2 (delimiter b))"
    by (simp add: delimiter_def prefixeq_butlast)
  then have "upload_run ps ?u = (?ps, None)"
    using seek_run[of ps ?u] assms ascii_delimiter[OF assms(2)] b
    by (cases b rule: rev_cases) simp_all
  then have "upload_run ps (drop 2 (delimiter b) @ s) = upload_run ?ps (last b # s)"
    unfolding d by (rule upload.run_None_append)
  moreover have "delimiter b ! (length b + 3) = last b"
    using b by (cases b rule: rev_cases) (simp_all add: delimiter_def nth_append)
  then have "upload_step ?ps (last b) =
      (ps\<lparr>state := upload_state_after_boundary, boundary_start := 0, boundary_pos := 0\<rparr>, None)"
    using assms byte_eq_ascii[OF ascii_delimiter[OF assms(2)], of "length b + 3" "last b"]
    by (subst upload_step.simps) (simp add: upload_boundary_seek_def Let_def)
  ultimately show ?thesis by simp
qed

text \<open>The constructor on the content type of a form.\<close>

definition form_content_type :: "string \<Rightarrow> string" where
  "form_content_type b = MULTIPART_FORM_DATA_STRING @ ''; '' @ BOUNDARY_STRING @ b"

definition fresh_parser :: "string \<Rightarrow> nat \<Rightarrow> nat \<Rightarrow> params \<Rightarrow> formdata_parser" where
  "fresh_parser b header_len buf_size params =
     \<lparr>formdata_params = params, boundary = delimiter b, field_name = [], field_value = [],
      content_type = [], state = upload_state_boundary_seek, boundary_start = 2, boundary_pos = 2,
      header_accumulator = [], max_header_len = header_len, output_buffer = [],
      buffer_size = buf_size, discard_data = False, first_part = True\<rparr>"

end
