(* ===== verification/Request.thy ===== *)
theory Request
  imports Multipart
begin

text \<open>
  The request object, the class \<open>fcgi_request\<close> of \<^verbatim>\<open>src/server/fcgi_handler.h\<close>
  with \<open>parse_form_data\<close> of \<^verbatim>\<open>src/server/fcgi_handler.cpp\<close>.

  The FastCGI library is not part of the repository: \<open>envp\<close> is its lookup
  \<open>FCGX_GetParam(_, envp)\<close> of a request variable, and the request body is a
  \<open>std::istream\<close> over some bytes.
\<close>

section \<open>The input stream\<close>

record istream =
  in_bytes :: string
  in_eof :: bool
  in_fail :: bool
  in_gcount :: nat

definition in_open :: "string \<Rightarrow> istream" where
  "in_open s = \<lparr>in_bytes = s, in_eof = False, in_fail = False, in_gcount = 0\<rparr>"

text \<open>\<open>istream::read(buf, n)\<close>: a short read sets both bits; a stream not good reads nothing.\<close>

definition in_read :: "nat \<Rightarrow> istream \<Rightarrow> string \<times> istream" where
  "in_read n s =
     (if in_eof s \<or> in_fail s then ([], s\<lparr>in_fail := True, in_gcount := 0\<rparr>)
      else if n \<le> length (in_bytes s)
      then (take n (in_bytes s), s\<lparr>in_bytes := drop n (in_bytes s), in_gcount := n\<rparr>)
      else (in_bytes s, s\<lparr>in_bytes := [], in_eof := True, in_fail := True,
                          in_gcount := length (in_bytes s)\<rparr>))"

text \<open>\<open>strtol(s, NULL, 10)\<close>: the value of the longest numeric prefix, saturated.\<close>

definition strtol10 :: "string \<Rightarrow> int" where
  "strtol10 s =
     (let t = dropWhile is_space (c_str s);
          neg = (t \<noteq> [] \<and> hd t = CHR ''-'');
          u = (if t \<noteq> [] \<and> (hd t = CHR ''-'' \<or> hd t = CHR ''+'') then tl t else t);
          n = int (digits_val (takeWhile is_digit u));
          v = (if neg then - n else n)
      in max (- 9223372036854775808) (min 9223372036854775807 v))"

section \<open>The request\<close>

record fcgi_request =
  fcgi_in :: istream
  m_params :: params
  m_formdata_params :: params
  envp :: "string \<Rightarrow> string option"

definition get_fcgi_param :: "fcgi_request \<Rightarrow> string \<Rightarrow> string" where
  "get_fcgi_param r name = (case envp r name of Some v \<Rightarrow> v | None \<Rightarrow> [])"

definition get_script_name :: "fcgi_request \<Rightarrow> string" where
  "get_script_name r = get_fcgi_param r ''SCRIPT_NAME''"

definition has_param :: "fcgi_request \<Rightarrow> string \<Rightarrow> bool" where
  "has_param r name \<longleftrightarrow> map_find (m_params r) name \<noteq> None"

definition get_param :: "fcgi_request \<Rightarrow> string \<Rightarrow> string" where
  "get_param r name = (case map_find (m_params r) name of None \<Rightarrow> [] | Some v \<Rightarrow> v)"

definition has_formdata_param :: "fcgi_request \<Rightarrow> string \<Rightarrow> bool" where
  "has_formdata_param r name \<longleftrightarrow> map_find (m_formdata_params r) name \<noteq> None"

definition get_formdata_param :: "fcgi_request \<Rightarrow> string \<Rightarrow> string" where
  "get_formdata_param r name =
     (case map_find (m_formdata_params r) name of None \<Rightarrow> [] | Some v \<Rightarrow> v)"

text \<open>The constructor parses the query string.\<close>

definition fcgi_request_new :: "(string \<Rightarrow> string option) \<Rightarrow> string \<Rightarrow> fcgi_request result" where
  "fcgi_request_new env body =
     (let r = \<lparr>fcgi_in = in_open body, m_params = [], m_formdata_params = [], envp = env\<rparr>
      in bind_result (parse_query_args (get_fcgi_param r ''QUERY_STRING'') (m_params r))
           (\<lambda>m. Inr (r\<lparr>m_params := m\<rparr>)))"

section \<open>Reading a form\<close>

text \<open>
  The loop that reads the body in pieces of \<open>clen\<close> bytes; what the parser throws is caught
  and dropped. \<open>None\<close> stands for a loop that reads nothing for ever, as it would with
  \<open>clen = 0\<close> on a good stream.
\<close>

definition STDIN_MAX :: nat where "STDIN_MAX = 32768"

function read_loop :: "istream \<Rightarrow> nat \<Rightarrow> formdata_parser \<Rightarrow> (istream \<times> formdata_parser) option" where
  "read_loop s clen p =
     (if in_eof s \<or> in_fail s then Some (s, p)
      else if clen = 0 then None
      else (let (buf, s') = in_read clen s;
                clen' = in_gcount s'
            in read_loop s' clen' (if 0 < clen' then fst (upload_process_buf p buf) else p)))"
  by pat_completeness auto
termination
proof (relation "measure (\<lambda>(s, clen, p). 2 * length (in_bytes s) +
    (if in_eof s \<or> in_fail s then 0 else 1))", goal_cases)
  case (2 s clen p x buf s' clen')
  then show ?case
    by (cases "clen \<le> length (in_bytes s)") (auto simp: in_read_def)
qed simp

declare read_loop.simps [simp del]

text \<open>The final \<open>ignore\<close> loop: on a stream that is not good it is one read of nothing.\<close>

definition in_ignore_all :: "istream \<Rightarrow> istream" where
  "in_ignore_all s =
     (if in_eof s \<or> in_fail s then s\<lparr>in_fail := True, in_gcount := 0\<rparr>
      else s\<lparr>in_bytes := [], in_eof := True, in_gcount := length (in_bytes s) mod 1024\<rparr>)"

definition parse_form_data :: "fcgi_request \<Rightarrow> (exn option \<times> fcgi_request) option" where
  "parse_form_data r =
     (let ct = get_fcgi_param r ''CONTENT_TYPE'';
          cl = get_fcgi_param r ''CONTENT_LENGTH''
      in if ct = [] then
           Some (Some (Logic_Error ''HTTP server is not configured to pass CONTENT_TYPE variable''), r)
         else if cl \<noteq> [] then
           (let clen = nat (strtol10 cl mod 18446744073709551616) in
            if clen = 0 then
              Some (Some (Runtime_Error (''can'' @ [CHR 0x27] @ ''t parse '' @ [QUOTE] @ ''CONTENT_LENGTH'' @ [LF])), r)
            else
              (let clen' = (if STDIN_MAX < clen then STDIN_MAX else clen) in
               case formdata_parser_new ct 512 (128 * 1024) (m_formdata_params r) of
                 Inl e \<Rightarrow> Some (Some e, r)
               | Inr p \<Rightarrow>
                   (case read_loop (fcgi_in r) clen' p of
                      None \<Rightarrow> None
                    | Some (s, p') \<Rightarrow>
                        Some (None, r\<lparr>fcgi_in := in_ignore_all s,
                                      m_formdata_params := formdata_params p'\<rparr>))))
         else
           Some (Some (Logic_Error ''HTTP server is not configured to pass CONTENT_LENGTH variable''), r))"

section \<open>Properties of the query string\<close>

lemma query_params:
  assumes "length q < npos" "env ''QUERY_STRING'' = Some q"
  shows "fcgi_request_new env body =
     Inr \<lparr>fcgi_in = in_open body, m_params = insert_segments (code_segments q) [],
          m_formdata_params = [], envp = env\<rparr>"
  using assms by (simp add: fcgi_request_new_def get_fcgi_param_def parse_query_eq)

lemma code_segments_two:
  assumes "plain_arg a" "plain_arg d" "CHR ''c'' \<notin> set (encode_arg d)"
  shows "code_segments (encode_arg a @ CHR ''&'' # encode_arg d) = [encode_arg a, encode_arg d]"
  using assms encode_arg_no_amp[OF assms(1)]
  by (simp add: code_segments_def index_of_append_fresh split_at_fresh)

text \<open>A query string of two name=value arguments gives a request in which each name has its
  value, the first one if the names are equal, when the second argument holds no letter c.\<close>

theorem two_args_roundtrip:
  assumes "plain_arg a" "plain_arg d" "CHR ''c'' \<notin> set (encode_arg d)"
    "env ''QUERY_STRING'' = Some (encode_arg a @ CHR ''&'' # encode_arg d)"
    "length (encode_arg a @ CHR ''&'' # encode_arg d) < npos"
  shows "\<exists>r. fcgi_request_new env body = Inr r \<and>
     get_param r (fst a) = snd a \<and> has_param r (fst d) \<and>
     get_param r (fst d) = (if fst d = fst a then snd a else snd d)"
  using assms query_params[OF assms(5), of env body]
  by (auto simp: code_segments_two get_param_def has_param_def find_insert_segments arg_pairs_encode
      plain_arg_def)

theorem two_args_roundtrip_witness:
  "\<exists>r. fcgi_request_new (\<lambda>_. Some ''id=7&showxml=yes'') [] = Inr r \<and>
     get_param r ''id'' = ''7'' \<and> has_param r ''showxml'' \<and> get_param r ''showxml'' = ''yes''"
  using two_args_roundtrip[of "(''id'', ''7'')" "(''showxml'', ''yes'')" "\<lambda>_. Some ''id=7&showxml=yes''" "[]"]
  by (simp add: plain_arg_def encode_arg_def npos_def)

text \<open>The separator slip of the loop: after the first ampersand the arguments are cut at the
  letter c, so with three arguments the third is lost and its text becomes part of the value of
  the second (neither of the two holding the letter c).\<close>

theorem third_arg_lost:
  assumes "plain_arg a" "plain_arg d" "plain_arg e"
    "CHR ''c'' \<notin> set (encode_arg d)" "CHR ''c'' \<notin> set (encode_arg e)"
    "fst d \<noteq> fst a" "fst e \<noteq> fst a" "fst e \<noteq> fst d"
    "env ''QUERY_STRING'' = Some (encode_arg a @ CHR ''&'' # encode_arg d @ CHR ''&'' # encode_arg e)"
    "length (encode_arg a @ CHR ''&'' # encode_arg d @ CHR ''&'' # encode_arg e) < npos"
  shows "\<exists>r. fcgi_request_new env body = Inr r \<and> \<not> has_param r (fst e) \<and>
     get_param r (fst d) = snd d @ CHR ''&'' # encode_arg e"
proof -
  let ?d = "(fst d, snd d @ CHR ''&'' # encode_arg e)"
  have seg: "code_segments (encode_arg a @ CHR ''&'' # encode_arg d @ CHR ''&'' # encode_arg e) =
      [encode_arg a, encode_arg ?d]"
    using encode_arg_no_amp[OF assms(1)] assms(4,5)
    by (simp add: code_segments_def index_of_append_fresh split_at_fresh)
      (simp add: encode_arg_def)
  show ?thesis
    using assms query_params[OF assms(10), of env body] unfolding seg
    by (auto simp: get_param_def has_param_def find_insert_segments arg_pairs_encode plain_arg_def)
qed

theorem third_arg_lost_witness:
  "\<exists>r. fcgi_request_new (\<lambda>_. Some ''a=1&b=2&d=3'') [] = Inr r \<and> \<not> has_param r ''d'' \<and>
     get_param r ''b'' = ''2&d=3''"
  using third_arg_lost[of "(''a'', ''1'')" "(''b'', ''2'')" "(''d'', ''3'')"
      "\<lambda>_. Some ''a=1&b=2&d=3''" "[]"]
  by (simp add: plain_arg_def encode_arg_def npos_def)

section \<open>Properties of forms\<close>

text \<open>What can stand as a boundary in a content type.\<close>

definition token_plain :: "string \<Rightarrow> bool" where
  "token_plain b \<longleftrightarrow> b \<noteq> [] \<and> ascii b \<and>
     CHR '' '' \<notin> set b \<and> CHR '';'' \<notin> set b \<and> LF \<notin> set b \<and> CR \<notin> set b \<and> NUL \<notin> set b"

lemma token_plain_ok: "token_plain b \<Longrightarrow> token_ok b \<and> ascii b"
  by (auto simp: token_plain_def token_ok_def)

lemma index_of_semicolon: "index_of (CHR '';'') (MULTIPART_FORM_DATA_STRING @ CHR '';'' # x) = Some 19"
  by (simp add: MULTIPART_FORM_DATA_STRING_def)

lemma NUL_multipart: "NUL \<notin> set x \<Longrightarrow>
    c_str (MULTIPART_FORM_DATA_STRING @ CHR '';'' # x) = MULTIPART_FORM_DATA_STRING @ CHR '';'' # x"
  by (rule c_str_id) (simp add: MULTIPART_FORM_DATA_STRING_def)

lemma strcspn_token: "token_plain b \<Longrightarrow> strcspn b ('' ;'' @ [LF, CR]) = length b"
  by (rule strcspn_all) (auto simp: token_plain_def)

lemma boundary_value_form:
  assumes "token_plain b"
  shows "boundary_value (form_content_type b) 19 = b"
proof -
  have f: "find_str (form_content_type b) BOUNDARY_STRING 19 = 21"
    by (simp add: find_str_def form_content_type_def MULTIPART_FORM_DATA_STRING_def BOUNDARY_STRING_def)
  have d: "drop ((21 + length BOUNDARY_STRING) mod 18446744073709551616) (form_content_type b) = b"
    by (simp add: form_content_type_def MULTIPART_FORM_DATA_STRING_def BOUNDARY_STRING_def)
  have "c_str b = b" using assms by (intro c_str_id) (simp add: token_plain_def)
  then show ?thesis
    unfolding boundary_value_def Let_def f d using strcspn_token[OF assms] by simp
qed

lemma parser_new_form:
  assumes "token_plain b"
  shows "formdata_parser_new (form_content_type b) header_len buf_size params =
           Inr (fresh_parser b header_len buf_size params)"
proof -
  have c: "c_str (form_content_type b) = form_content_type b"
    using NUL_multipart[of "CHR '' '' # BOUNDARY_STRING @ b"] assms
    by (simp add: form_content_type_def token_plain_def BOUNDARY_STRING_def)
  have i: "index_of (CHR '';'') (form_content_type b) = Some 19"
    using index_of_semicolon[of "CHR '' '' # BOUNDARY_STRING @ b"] by (simp add: form_content_type_def)
  have m: "strncaseeq MULTIPART_FORM_DATA_STRING (form_content_type b)"
    by (simp add: form_content_type_def)
  have "b \<noteq> []" using assms by (simp add: token_plain_def)
  then show ?thesis
    unfolding formdata_parser_new_def upload_parse_content_type_def c i option.case Let_def
      boundary_value_form[OF assms]
    using m by (simp add: upload_init_ctx_def fresh_parser_def delimiter_def)
qed

lemma fresh_ok:
  assumes "token_ok b" "0 < buf_size" "map_wf params"
  shows "parser_ok (fresh_parser b header_len buf_size params)"
  using assms by (auto simp: parser_ok_def match_ok_def fresh_parser_def boundary_ok_def)

text \<open>The parser on the whole body of a form.\<close>

lemma form_run:
  assumes "token_ok b" "ascii b" "list_all (field_ok b header_len) fs" "0 < buf_size"
  shows "\<exists>p. upload_run (fresh_parser b header_len buf_size params) (encode_form b fs) = (p, None) \<and>
           state p = upload_state_finish \<and>
           formdata_params p =
             fold (\<lambda>(n, v). map_insert n v) (map (apsnd (take buf_size)) fs) params"
proof -
  let ?p0 = "fresh_parser b header_len buf_size params"
  let ?p1 = "?p0\<lparr>state := upload_state_after_boundary, boundary_start := 0, boundary_pos := 0\<rparr>"
  have "upload_run ?p0 (encode_form b fs) =
      upload_run ?p1 (concat (map (encode_part b) fs) @ ''--'')"
    unfolding encode_form_def using assms
    by (intro seek_found) (simp_all add: fresh_parser_def)
  moreover have "between b ?p1" "max_header_len ?p1 = header_len" "buffer_size ?p1 = buf_size"
    "formdata_params ?p1 = params"
    using assms by (simp_all add: between_def fresh_parser_def)
  moreover from this obtain p2 where
    "upload_run ?p1 (concat (map (encode_part b) fs) @ ''--'') = upload_run p2 ''--''"
    "between b p2"
    "formdata_params p2 = fold (\<lambda>(n, v). map_insert n v) (map (apsnd (take buf_size)) fs) params"
    using parts_run[of b ?p1 fs "''--''"] assms(3) by auto
  moreover have "upload_run p2 ''--'' = (p2\<lparr>state := upload_state_finish\<rparr>, None)"
    using \<open>between b p2\<close> after_dash[of p2 "''-''"] by (simp add: between_def)
  ultimately show ?thesis by simp
qed

text \<open>Reading in pieces is reading at once.\<close>

lemma read_loop_whole:
  assumes "clen \<noteq> 0" "\<not> in_eof s" "\<not> in_fail s"
  shows "\<exists>s'. read_loop s clen p = Some (s', fst (upload_run p (in_bytes s))) \<and> in_eof s' \<and>
           in_bytes s' = []"
  using assms(2,3)
proof (induction "length (in_bytes s)" arbitrary: s p rule: less_induct)
  case less
  show ?case
  proof (cases "clen \<le> length (in_bytes s)")
    case True
    let ?buf = "take clen (in_bytes s)"
    let ?s = "s\<lparr>in_bytes := drop clen (in_bytes s), in_gcount := clen\<rparr>"
    let ?p = "fst (upload_run p ?buf)"
    have r: "in_read clen s = (?buf, ?s)" using True less.prems by (simp add: in_read_def)
    have "?buf \<noteq> []" using True assms(1) by auto
    then have "fst (upload_process_buf p ?buf) = ?p" by (simp add: upload_process_buf_def)
    then have "read_loop s clen p = read_loop ?s clen ?p"
      using assms(1) less.prems r by (simp add: read_loop.simps[of s clen p])
    moreover have "length (in_bytes ?s) < length (in_bytes s)" using True assms(1) by simp
    then have "\<exists>s'. read_loop ?s clen ?p = Some (s', fst (upload_run ?p (in_bytes ?s))) \<and>
        in_eof s' \<and> in_bytes s' = []"
      using less.prems by (intro less.hyps) simp_all
    moreover have "fst (upload_run ?p (in_bytes ?s)) = fst (upload_run p (in_bytes s))"
      using upload.fst_run_append[of p ?buf "in_bytes ?s"] by simp
    ultimately show ?thesis by simp
  next
    case False
    let ?s = "s\<lparr>in_bytes := [], in_eof := True, in_fail := True, in_gcount := length (in_bytes s)\<rparr>"
    have "in_read clen s = (in_bytes s, ?s)" using False less.prems by (simp add: in_read_def)
    then show ?thesis
      using assms(1) less.prems
      by (simp add: read_loop.simps[of s clen p] read_loop.simps[of ?s] upload_process_buf_def)
  qed
qed

text \<open>The content length.\<close>

lemma strtol10_show_nat:
  assumes "n < 9223372036854775808"
  shows "strtol10 (show_nat n) = int n"
proof -
  obtain d ds where s: "show_nat n = d # ds" using show_nat_nonempty by (cases "show_nat n") auto
  note D = show_nat_digits[of n]
  have "c_str (show_nat n) = show_nat n" using D by (intro c_str_id digits_no_NUL)
  moreover have "dropWhile is_space (show_nat n) = show_nat n" "d \<noteq> CHR ''-''" "d \<noteq> CHR ''+''"
    using D digit_not_special[of d] by (auto simp: s)
  moreover have "digits_val (takeWhile is_digit (show_nat n)) = n"
    unfolding takeWhile_digits[OF D] by (rule digits_val_show_nat)
  ultimately show ?thesis using assms s by (simp add: strtol10_def)
qed

definition form_request :: "fcgi_request \<Rightarrow> string \<Rightarrow> nat \<Rightarrow> string \<Rightarrow> bool" where
  "form_request r b n body \<longleftrightarrow>
     envp r ''CONTENT_TYPE'' = Some (form_content_type b) \<and>
     envp r ''CONTENT_LENGTH'' = Some (show_nat n) \<and> 0 < n \<and> n < 9223372036854775808 \<and>
     fcgi_in r = in_open body"

lemma parse_form_data_eq:
  assumes "form_request r b n body" "token_plain b"
  shows "\<exists>s. parse_form_data r = Some (None, r\<lparr>fcgi_in := s, m_formdata_params :=
      formdata_params (fst (upload_run (fresh_parser b 512 131072 (m_formdata_params r)) body))\<rparr>)"
proof -
  let ?p = "fresh_parser b 512 131072 (m_formdata_params r)"
  let ?clen = "if STDIN_MAX < n then STDIN_MAX else n"
  have ct: "get_fcgi_param r ''CONTENT_TYPE'' = form_content_type b" "form_content_type b \<noteq> []"
    and cl: "get_fcgi_param r ''CONTENT_LENGTH'' = show_nat n"
    using assms(1) by (simp_all add: form_request_def get_fcgi_param_def form_content_type_def
        MULTIPART_FORM_DATA_STRING_def)
  have n: "nat (strtol10 (show_nat n) mod 18446744073709551616) = n" "n \<noteq> 0"
    using assms(1) by (simp_all add: form_request_def strtol10_show_nat)
  have "?clen \<noteq> 0" using n(2) by (simp add: STDIN_MAX_def)
  then obtain s' where "read_loop (fcgi_in r) ?clen ?p = Some (s', fst (upload_run ?p body))"
    using read_loop_whole[of ?clen "fcgi_in r" ?p] assms(1)
    by (auto simp: form_request_def in_open_def)
  then show ?thesis
    unfolding parse_form_data_def ct(1) cl Let_def n(1)
    using ct(2) n(2) show_nat_nonempty parser_new_form[OF assms(2), of 512 131072]
    by (auto intro: exI[of _ "in_ignore_all s'"])
qed

text \<open>C1. A form survives the trip: for any list of fields an agent can encode, whatever the
  pieces the body is read in, the request ends with the first value of each name, cut to the
  output buffer's 128 KiB, and no other field; nothing is thrown.\<close>

theorem form_roundtrip:
  assumes "token_plain b" "list_all (field_ok b 512) fs"
    "form_request r b n (encode_form b fs)" "m_formdata_params r = []"
  shows "\<exists>r'. parse_form_data r = Some (None, r') \<and>
     (\<forall>name. has_formdata_param r' name = (map_of fs name \<noteq> None) \<and>
        get_formdata_param r' name =
          (case map_of fs name of None \<Rightarrow> [] | Some v \<Rightarrow> take 131072 v))"
proof -
  obtain s where r: "parse_form_data r = Some (None, r\<lparr>fcgi_in := s, m_formdata_params :=
      formdata_params (fst (upload_run (fresh_parser b 512 131072 []) (encode_form b fs)))\<rparr>)"
    using parse_form_data_eq[OF assms(3,1)] assms(4) by auto
  have "formdata_params (fst (upload_run (fresh_parser b 512 131072 []) (encode_form b fs))) =
      fold (\<lambda>(n, v). map_insert n v) (map (apsnd (take 131072)) fs) []"
    using form_run[of b 512 fs 131072 "[]"] token_plain_ok[OF assms(1)] assms(2) by auto
  moreover have "map_of (map (apsnd (take 131072)) fs) name = map_option (take 131072) (map_of fs name)"
    for name by (induction fs) (auto simp: apsnd_def map_prod_def)
  ultimately show ?thesis
    unfolding r by (auto simp: get_formdata_param_def has_formdata_param_def std.look_fold_empty
        split: option.splits)
qed

definition sample_request :: "string \<Rightarrow> string \<Rightarrow> fcgi_request" where
  "sample_request b body =
     \<lparr>fcgi_in = in_open body, m_params = [], m_formdata_params = [],
      envp = (\<lambda>v. if v = ''CONTENT_TYPE'' then Some (form_content_type b)
                   else if v = ''CONTENT_LENGTH'' then Some (show_nat 5) else None)\<rparr>"

lemma sample_form_request: "form_request (sample_request b body) b 5 body"
  by (simp add: form_request_def sample_request_def)

theorem form_roundtrip_witness:
  "\<exists>r'. parse_form_data (sample_request ''XyZ''
            (encode_form ''XyZ'' [(''q'', ''red fish''), (''q'', ''blue'')])) = Some (None, r') \<and>
     get_formdata_param r' ''q'' = ''red fish'' \<and> \<not> has_formdata_param r' ''x''"
proof -
  let ?fs = "[(''q'', ''red fish''), (''q'', ''blue'')]"
  have "token_plain ''XyZ''" by (simp add: token_plain_def ascii_def)
  moreover have "list_all (field_ok ''XyZ'' 512) ?fs"
    by (simp add: field_ok_def name_ok_def disposition_def delimiter_def sublist_Cons_right
        CONTENT_DISPOSITION_STRING_def FORM_DATA_STRING_def FIELDNAME_STRING_def)
  moreover have "m_formdata_params (sample_request ''XyZ'' (encode_form ''XyZ'' ?fs)) = []"
    by (simp add: sample_request_def)
  ultimately obtain r' where r': "parse_form_data (sample_request ''XyZ'' (encode_form ''XyZ'' ?fs)) = Some (None, r')"
    "\<forall>name. has_formdata_param r' name = (map_of ?fs name \<noteq> None) \<and>
        get_formdata_param r' name =
          (case map_of ?fs name of None \<Rightarrow> [] | Some v \<Rightarrow> take 131072 v)"
    using form_roundtrip[OF _ _ sample_form_request] by blast
  from r'(2)[rule_format, of "''q''"] r'(2)[rule_format, of "''x''"] r'(1) show ?thesis by auto
qed

text \<open>C4. The body may arrive in any non-empty pieces: feeding them one by one, with every
  exception caught and dropped as the reading loop does, leaves the parser exactly as one run
  over the whole body.\<close>

theorem pieces_irrelevant:
  assumes "[] \<notin> set pieces"
  shows "fold (\<lambda>piece ps. fst (upload_process_buf ps piece)) pieces ps =
           fst (upload_run ps (concat pieces))"
proof -
  have "fold (\<lambda>piece ps. fst (upload_process_buf ps piece)) pieces ps =
      fold (\<lambda>piece ps. fst (upload_run ps piece)) pieces ps"
    using assms by (induction pieces arbitrary: ps) (auto simp: upload_process_buf_def)
  then show ?thesis by (simp only: upload.feed_concat)
qed

theorem pieces_irrelevant_witness:
  "fst (upload_process_buf (fst (upload_process_buf (fresh_parser ''XyZ'' 512 64 []) ''--X''))
         ''yZ--'') = fst (upload_run (fresh_parser ''XyZ'' 512 64 []) ''--XyZ--'')"
  using pieces_irrelevant[of "[''--X'', ''yZ--'']" "fresh_parser ''XyZ'' 512 64 []"] by simp

text \<open>C7. The reading loop returns on every finite body, for every piece size but zero (which the
  code never asks for): the stream is then at its end, and the parser has read all of it.\<close>

theorem read_loop_returns:
  assumes "clen \<noteq> 0" "\<not> in_eof s" "\<not> in_fail s"
  shows "\<exists>s'. read_loop s clen p = Some (s', fst (upload_run p (in_bytes s))) \<and> in_eof s' \<and>
           in_bytes s' = []"
  using assms by (rule read_loop_whole)

theorem read_loop_returns_witness:
  "\<exists>s'. read_loop (in_open ''abc'') 2 (fresh_parser ''XyZ'' 512 64 []) =
       Some (s', fst (upload_run (fresh_parser ''XyZ'' 512 64 []) ''abc'')) \<and> in_eof s' \<and> in_bytes s' = []"
  using read_loop_returns[of 2 "in_open ''abc''" "fresh_parser ''XyZ'' 512 64 []"]
  by (simp add: in_open_def)

text \<open>
  The constructor, on any content type it accepts, gives a parser that satisfies the invariant.
\<close>

lemma boundary_value_token:
  "boundary_value ct i \<noteq> [] \<Longrightarrow> token_ok (boundary_value ct i)"
proof -
  have "CR \<notin> set (takeWhile (\<lambda>c. c \<notin> set ('' ;'' @ [LF, CR])) s) \<and>
      LF \<notin> set (takeWhile (\<lambda>c. c \<notin> set ('' ;'' @ [LF, CR])) s)" for s
    by (auto dest: set_takeWhileD)
  then show "boundary_value ct i \<noteq> [] \<Longrightarrow> token_ok (boundary_value ct i)"
    unfolding boundary_value_def Let_def take_strcspn token_ok_def by blast
qed

lemma parser_new_ok:
  assumes "formdata_parser_new ct header_len buf_size params = Inr p" "0 < buf_size" "map_wf params"
  shows "parser_ok p" "max_header_len p = header_len" "buffer_size p = buf_size"
proof -
  obtain i where "boundary_value ct i \<noteq> []"
    and p: "p = fresh_parser (boundary_value ct i) header_len buf_size params"
    using assms(1)
    by (auto simp: formdata_parser_new_def upload_parse_content_type_def upload_init_ctx_def
        fresh_parser_def delimiter_def Let_def split: option.splits if_splits)
  then have "token_ok (boundary_value ct i)" by (intro boundary_value_token)
  then show "parser_ok p" unfolding p using assms(2,3) by (rule fresh_ok)
  show "max_header_len p = header_len" "buffer_size p = buf_size"
    by (simp_all add: p fresh_parser_def)
qed

lemma upload_step_sizes:
  "max_header_len (fst (upload_step ps c)) = max_header_len ps \<and>
   buffer_size (fst (upload_step ps c)) = buffer_size ps"
proof (induction ps c rule: upload_step.induct)
  case (1 ps c)
  have e: "max_header_len (upload_data_end q) = max_header_len q"
    "buffer_size (upload_data_end q) = buffer_size q" for q
    by (simp_all add: upload_data_end_def part_defs Let_def)
  have h: "max_header_len (fst (upload_headers ps c)) = max_header_len ps"
    "buffer_size (fst (upload_headers ps c)) = buffer_size ps"
    by (auto simp: upload_headers_def upload_start_part_def parse_part_header_frame
        split: prod.splits option.splits)
  show ?case
    using 1 h
    by (subst (1 2) upload_step.simps)
      (auto simp: e upload_put_lump_def upload_boundary_seek_def upload_after_boundary_def Let_def
        split: parser_state.splits)
qed

lemma upload_run_sizes:
  "max_header_len (fst (upload_run ps cs)) = max_header_len ps \<and>
   buffer_size (fst (upload_run ps cs)) = buffer_size ps"
proof (induction cs arbitrary: ps)
  case (Cons c cs)
  then show ?case
    using upload_step_sizes[of ps c] by (auto split: prod.splits option.splits)
qed simp

text \<open>C3. Memory safety of the parser: for every content type it accepts and every body, however
  malformed, the iterator it compares with points into the boundary, and both heap buffers have
  room for the next byte (and the header buffer for its terminating NUL).\<close>

theorem parser_in_bounds:
  assumes "formdata_parser_new ct header_len buf_size params = Inr p" "0 < buf_size"
    "map_wf params" "fst (upload_run p body) = p'"
  shows "boundary_start p' \<le> boundary_pos p' \<and> boundary_pos p' < length (boundary p') \<and>
     length (header_accumulator p') \<le> header_len \<and> length (output_buffer p') < buf_size \<and>
     map_wf (formdata_params p')"
proof -
  have "parser_ok p'" using upload.run_ok[OF parser_new_ok(1)[OF assms(1-3)]] assms(4) by blast
  moreover have "max_header_len p' = header_len" "buffer_size p' = buf_size"
    using upload_run_sizes[of p body] parser_new_ok[OF assms(1-3)] assms(4) by auto
  ultimately show ?thesis by (auto simp: parser_ok_def match_ok_def)
qed

theorem parser_in_bounds_witness:
  "boundary_pos (fst (upload_run (fresh_parser ''XyZ'' 512 4 []) ''--Xy--XyZ'')) <
     length (boundary (fst (upload_run (fresh_parser ''XyZ'' 512 4 []) ''--Xy--XyZ'')))"
  using parser_in_bounds[of "form_content_type ''XyZ''" 512 4 "[]" "fresh_parser ''XyZ'' 512 4 []"
      "''--Xy--XyZ''"] parser_new_form[of "''XyZ''" 512 4 "[]"]
  by (simp add: token_plain_def ascii_def map_wf_def)

text \<open>C2. The scanner of a part's data finds exactly the delimiter of the reference: from a parser at the
  beginning of the data of any part, whether its match starts at the CR of the delimiter or, after a part
  that ended at LF -- boundary, still at the LF, for every ASCII boundary and every input in which the
  delimiter occurs, the data before it, cut to the buffer, is stored under the part's name and the
  rest is parsed from there; with no delimiter, nothing is stored and the parser waits for more data.\<close>

theorem scanner_refines_split:
  assumes "scanning b ps" "field_value ps = []" "output_buffer ps = []" "\<not> discard_data ps"
    "0 < buffer_size ps"
  shows "case split_from (boundary_start ps) (delimiter b) s of
       Some (d, k, r) \<Rightarrow> upload_run ps s = upload_run (part_done k d ps) r
     | None \<Rightarrow> \<exists>ps'. upload_run ps s = (ps', None) \<and> state ps' = upload_state_data \<and>
                 formdata_params ps' = formdata_params ps"
proof (cases "split_from (boundary_start ps) (delimiter b) s")
  case None
  then show ?thesis using scan_from_open[OF assms(1)] by simp
next
  case (Some x)
  obtain d k r where x: "x = (d, k, r)" by (cases x) auto
  then have "upload_run ps s = upload_run (close_part k (fold upload_putc d ps)) r"
    using scan_from_found[OF assms(1)] Some by blast
  also have "close_part k (fold upload_putc d ps) = part_done k d ps"
    using assms by (intro close_part_eq) auto
  finally show ?thesis using Some x by simp
qed

text \<open>A part after one that ended at LF: its data is cut at the LF of the delimiter, behind the CR.\<close>

definition after_LF_part :: formdata_parser where
  "after_LF_part = (fresh_parser ''XyZ'' 512 8 [])
     \<lparr>state := upload_state_data, boundary_start := 1, boundary_pos := 1, field_name := ''f''\<rparr>"

theorem scanner_refines_split_witness:
  "upload_run after_LF_part (''y'' @ delimiter ''XyZ'' @ ''--'') =
     upload_run (part_done 1 (''y'' @ [CR]) after_LF_part) ''--''
   \<and> upload_run (after_LF_part\<lparr>boundary_start := 0, boundary_pos := 0\<rparr>) (''y'' @ delimiter ''XyZ'' @ ''--'') =
     upload_run (part_done 0 ''y'' (after_LF_part\<lparr>boundary_start := 0, boundary_pos := 0\<rparr>)) ''--''"
proof -
  let ?ps = "after_LF_part\<lparr>boundary_start := 0, boundary_pos := 0\<rparr>" and ?s = "''y'' @ delimiter ''XyZ'' @ ''--''"
  have "split_from 1 (delimiter ''XyZ'') ?s = Some (''y'' @ [CR], 1, ''--'')"
    "split_from 0 (delimiter ''XyZ'') ?s = Some (''y'', 0, ''--'')"
    by (simp_all add: split_from_def split_delim.simps(2) delimiter_def)
  then show ?thesis
    using scanner_refines_split[of "''XyZ''" after_LF_part ?s] scanner_refines_split[of "''XyZ''" ?ps ?s]
    by (simp add: after_LF_part_def fresh_parser_def scanning_def token_ok_def ascii_def)
qed

text \<open>Because \<open>boundary_start\<close> is not set back when a part has ended at LF -- boundary, the CR that
  belongs to the delimiter of the next part is stored at the end of its value, when the value has no LF.\<close>

theorem carried_start_keeps_CR:
  assumes "scanning b ps" "boundary_start ps = 1" "field_value ps = []" "output_buffer ps = []"
    "\<not> discard_data ps" "0 < buffer_size ps" "LF \<notin> set v"
  shows "upload_run ps (v @ delimiter b @ r) = upload_run (part_done 1 (v @ [CR]) ps) r"
proof -
  let ?t = "LF # CHR ''-'' # CHR ''-'' # b @ r"
  have s: "v @ delimiter b @ r = (v @ [CR]) @ ?t" by (simp add: delimiter_def)
  have "c \<noteq> LF" if "c \<in> set (v @ [CR])" for c using that assms(7) by auto
  then have "takeWhile (\<lambda>c. c \<noteq> LF) ((v @ [CR]) @ ?t) = (v @ [CR]) @ takeWhile (\<lambda>c. c \<noteq> LF) ?t"
    "dropWhile (\<lambda>c. c \<noteq> LF) ((v @ [CR]) @ ?t) = dropWhile (\<lambda>c. c \<noteq> LF) ?t"
    by (intro takeWhile_append2 dropWhile_append2; blast)+
  then have "takeWhile (\<lambda>c. c \<noteq> LF) ((v @ [CR]) @ ?t) = v @ [CR]" "dropWhile (\<lambda>c. c \<noteq> LF) ((v @ [CR]) @ ?t) = ?t"
    by simp_all
  then have "split_from (boundary_start ps) (delimiter b) (v @ delimiter b @ r) = Some (v @ [CR], 1, r)"
    unfolding s split_from_def assms(2) by (simp add: split_delim_here)
  then have "upload_run ps (v @ delimiter b @ r) = upload_run (close_part 1 (fold upload_putc (v @ [CR]) ps)) r"
    by (rule scan_from_found[OF assms(1)])
  also have "close_part 1 (fold upload_putc (v @ [CR]) ps) = part_done 1 (v @ [CR]) ps"
    using assms by (intro close_part_eq) auto
  finally show ?thesis .
qed

lemma data_end_state: "state (upload_data_end ps) \<in> {state ps, upload_state_after_boundary}"
  by (simp add: upload_data_end_def part_defs Let_def)

lemma step_after_None: "state ps = upload_state_after_boundary \<Longrightarrow> snd (upload_step ps c) = None"
  by (subst upload_step.simps) simp

lemma step_data_None: "state ps = upload_state_data \<Longrightarrow> snd (upload_step ps c) = None"
proof (induction ps c rule: upload_step.induct)
  case (1 ps c)
  let ?q = "upload_data_end (upload_put_lump ps)"
  have "state ?q \<in> {upload_state_data, upload_state_after_boundary}"
    using data_end_state[of "upload_put_lump ps"] "1.prems" by (simp add: upload_put_lump_def)
  then have q: "\<not> byte_eq c (boundary ps ! boundary_pos ps) \<Longrightarrow> boundary_pos ps \<noteq> boundary_start ps \<Longrightarrow>
      snd (upload_step ?q c) = None"
    using "1.IH"[OF "1.prems"] step_after_None by blast
  show ?case
    using "1.prems" q by (subst upload_step.simps) simp
qed

lemma step_throws_in_headers:
  assumes "upload_step ps c = (ps', Some e)"
  shows "upload_headers ps c = (ps', Some e)"
proof (cases "state ps")
  case upload_state_data
  then show ?thesis using step_data_None[of ps c] assms by simp
qed (use assms in \<open>simp_all add: upload_step.simps[of ps c]\<close>)

text \<open>A header the parser refuses ends the form in silence: the exception leaves the fields
  stored so far, the parser is finished, and nothing that follows is parsed or reported.\<close>

theorem refused_header_is_silent:
  assumes "upload_step ps c = (ps', Some e)"
  shows "state ps' = upload_state_finish \<and> formdata_params ps' = formdata_params ps \<and>
     upload_run ps' s = (ps', None)"
proof -
  have st: "state ps' = upload_state_finish" using assms by (rule upload_step_throws)
  moreover have "upload_headers ps c = (ps', Some e)"
    using assms by (rule step_throws_in_headers)
  then have "formdata_params ps' = formdata_params ps"
    by (auto simp: upload_headers_def upload_start_part_def parse_part_header_frame
        split: if_splits prod.splits option.splits)
  ultimately show ?thesis using upload.run_dead[of ps' s] by simp
qed

theorem refused_header_is_silent_witness:
  "let ps = (fresh_parser ''XyZ'' 512 8 [(''a'', ''1'')])
         \<lparr>state := upload_state_headers, header_accumulator := ''Content-Disposition: inline''\<rparr>;
       ps' = ps\<lparr>state := upload_state_finish\<rparr>
   in upload_step ps LF =
        (ps', Some (Fcgi_Exception ''Content-Disposition is not form-data or attachment'' 400)) \<and>
      formdata_params ps' = [(''a'', ''1'')] \<and>
      upload_run ps' ''more'' = (ps', None)"
proof -
  let ?ps = "(fresh_parser ''XyZ'' 512 8 [(''a'', ''1'')])
         \<lparr>state := upload_state_headers, header_accumulator := ''Content-Disposition: inline''\<rparr>"
  have "c_str ''Content-Disposition: inline'' = ''Content-Disposition: inline''"
    by (rule c_str_id) simp
  then have "upload_parse_part_header ''Content-Disposition: inline'' ?ps =
      (?ps, Some (Fcgi_Exception ''Content-Disposition is not form-data or attachment'' 400))"
    by (simp add: upload_parse_part_header_def CONTENT_DISPOSITION_STRING_def strncaseeq_def
        strspn_def FORM_DATA_STRING_def ATTACHMENT_STRING_def to_lower_def HTTP_BAD_REQUEST_def)
  then have "upload_step ?ps LF = (?ps\<lparr>state := upload_state_finish\<rparr>,
      Some (Fcgi_Exception ''Content-Disposition is not form-data or attachment'' 400))"
    by (subst upload_step.simps) (simp add: upload_headers_def)
  from refused_header_is_silent[OF this, of "''more''"] this show ?thesis
    by (simp add: fresh_parser_def)
qed

text \<open>A form cut short is accepted in silence: with any number of whole fields followed by a
  part whose delimiter never comes, the request keeps the whole fields, drops the part and
  reports nothing.\<close>

theorem truncated_form_accepted:
  assumes "token_plain b" "list_all (field_ok b 512) fs" "name_ok n" "length (disposition n) < 512"
    "split_delim (delimiter b) v = None" "m_formdata_params r = []"
    "form_request r b len (drop 2 (delimiter b) @ concat (map (encode_part b) fs) @
       [CR, LF] @ disposition n @ [CR, LF, CR, LF] @ v)"
  shows "\<exists>r'. parse_form_data r = Some (None, r') \<and>
     m_formdata_params r' = fold (\<lambda>(k, x). map_insert k x) (map (apsnd (take 131072)) fs) []"
proof -
  let ?p0 = "fresh_parser b 512 131072 []"
  let ?p1 = "?p0\<lparr>state := upload_state_after_boundary, boundary_start := 0, boundary_pos := 0\<rparr>"
  define part where "part = CR # LF # disposition n @ CR # LF # CR # LF # v"
  note b = token_plain_ok[OF assms(1)]
  have "upload_run ?p0 (drop 2 (delimiter b) @ concat (map (encode_part b) fs) @ part) =
      upload_run ?p1 (concat (map (encode_part b) fs) @ part)"
    using b by (intro seek_found) (simp_all add: fresh_parser_def)
  moreover have "between b ?p1" using b by (simp add: between_def fresh_parser_def)
  then obtain p2 where p2: "upload_run ?p1 (concat (map (encode_part b) fs) @ part) = upload_run p2 part"
    "between b p2" "max_header_len p2 = 512"
    "formdata_params p2 = fold (\<lambda>(k, x). map_insert k x) (map (apsnd (take 131072)) fs) []"
    using parts_run[of b ?p1 fs part] assms(2) by (auto simp: fresh_parser_def)
  moreover have "\<exists>p3. upload_run p2 part = (p3, None) \<and> formdata_params p3 = formdata_params p2"
    using open_part_run[OF p2(2) assms(3) _ assms(5)] assms(4) p2(3) by (simp add: part_def)
  ultimately have "formdata_params (fst (upload_run ?p0
      (drop 2 (delimiter b) @ concat (map (encode_part b) fs) @ part))) =
      fold (\<lambda>(k, x). map_insert k x) (map (apsnd (take 131072)) fs) []" by auto
  then show ?thesis
    using parse_form_data_eq[OF assms(7,1)] assms(6) by (auto simp: part_def)
qed

theorem truncated_form_accepted_witness:
  "\<exists>r'. parse_form_data (sample_request ''XyZ'' (drop 2 (delimiter ''XyZ'') @
       encode_part ''XyZ'' (''a'', ''1'') @ [CR, LF] @ disposition ''b'' @ [CR, LF, CR, LF] @ ''2'')) =
     Some (None, r') \<and> m_formdata_params r' = [(''a'', ''1'')]"
proof -
  have "token_plain ''XyZ''" by (simp add: token_plain_def ascii_def)
  moreover have "list_all (field_ok ''XyZ'' 512) [(''a'', ''1'')]" "name_ok ''b''"
    "length (disposition ''b'') < 512"
    by (simp_all add: field_ok_def name_ok_def disposition_def delimiter_def sublist_Cons_right
        CONTENT_DISPOSITION_STRING_def FORM_DATA_STRING_def FIELDNAME_STRING_def)
  moreover have "split_delim (delimiter ''XyZ'') ''2'' = None"
    by (simp add: split_delim.simps(2) delimiter_def)
  ultimately show ?thesis
    using truncated_form_accepted[of "''XyZ''" "[(''a'', ''1'')]" "''b''" "''2''"
        "sample_request ''XyZ'' (drop 2 (delimiter ''XyZ'') @
       encode_part ''XyZ'' (''a'', ''1'') @ [CR, LF] @ disposition ''b'' @ [CR, LF, CR, LF] @ ''2'')" 5]
      sample_form_request
    by (simp add: sample_request_def map_insert_def)
qed

text \<open>The check for a missing boundary has no effect: a form's content type with a semicolon
  but no boundary parameter is accepted, with the boundary taken from inside the words
  multipart/form-data.\<close>

theorem missing_boundary_accepted:
  assumes "NUL \<notin> set x" "\<not> sublist BOUNDARY_STRING x"
  shows "formdata_parser_new (MULTIPART_FORM_DATA_STRING @ CHR '';'' # x) header_len buf_size params =
           Inr (fresh_parser ''t/form-data'' header_len buf_size params)"
proof -
  let ?ct = "MULTIPART_FORM_DATA_STRING @ CHR '';'' # x"
  have "sub_index BOUNDARY_STRING (CHR '';'' # x) = None"
    using assms(2) by (simp add: sub_index_None_iff[symmetric]) (simp add: BOUNDARY_STRING_def)
  moreover have "drop 19 ?ct = CHR '';'' # x" by (simp add: MULTIPART_FORM_DATA_STRING_def)
  ultimately have f: "find_str ?ct BOUNDARY_STRING 19 = npos" by (simp add: find_str_def)
  have d: "drop ((npos + length BOUNDARY_STRING) mod 18446744073709551616) ?ct =
      ''t/form-data'' @ CHR '';'' # x"
    by (simp add: npos_def BOUNDARY_STRING_def MULTIPART_FORM_DATA_STRING_def)
  have c: "c_str (''t/form-data'' @ CHR '';'' # x) = ''t/form-data'' @ CHR '';'' # x"
    using assms(1) by (intro c_str_id) simp
  have "boundary_value ?ct 19 = ''t/form-data''"
    unfolding boundary_value_def Let_def f d c by (simp add: strcspn_def)
  then show ?thesis
    unfolding formdata_parser_new_def upload_parse_content_type_def NUL_multipart[OF assms(1)]
      index_of_semicolon option.case Let_def
    by (simp add: upload_init_ctx_def fresh_parser_def delimiter_def)
qed

theorem missing_boundary_accepted_witness:
  "formdata_parser_new (MULTIPART_FORM_DATA_STRING @ CHR '';'' # '' charset=utf-8'') 512 131072 [] =
     Inr (fresh_parser ''t/form-data'' 512 131072 [])"
proof -
  have "\<not> sublist BOUNDARY_STRING '' charset=utf-8''"
    by (simp add: BOUNDARY_STRING_def sublist_Cons_right)
  then show ?thesis using missing_boundary_accepted[of "'' charset=utf-8''" 512 131072 "[]"] by simp
qed

end
