(* ===== verification/Server.thy ===== *)
theory Server
  imports Request
begin

text \<open>
  The FastCGI server: the handler list and the two location maps, the choice of a handler for
  a request, and the loop of a worker thread (\<^verbatim>\<open>src/server/fcgi_server.cpp\<close>,
  \<^verbatim>\<open>src/server/fcgi_server.h\<close>).

  A \<open>fcgi_handler*\<close> is a number, or \<open>None\<close> for the null pointer. The handlers
  themselves are a parameter: \<open>handle h\<close> is the effect of the virtual call on the
  request and the response, with the exception it may end in. Sockets and the accept queue
  are values that come from outside.
\<close>

section \<open>State\<close>

type_synonym handler = nat
type_synonym location_map = "(string \<times> handler option) list"

record fcgi_response =
  fcgi_out :: string
  fcgi_err :: string

datatype server_call = Init_Handler handler | Shutdown_Handler handler | Close_Socket int | Delete_Handler handler

record fcgi_server =
  endpoint :: string
  locations_map :: location_map
  exact_locations_map :: location_map
  handlers :: "handler list"
  listening_socket :: int
  server_calls :: "server_call list"

type_synonym 'x handler_effect = "handler \<Rightarrow> fcgi_request \<Rightarrow> fcgi_response \<Rightarrow>
  exn option \<times> fcgi_request \<times> fcgi_response"

definition NUM_WORKERS :: nat where "NUM_WORKERS = 5"

definition fresh_server :: "string \<Rightarrow> fcgi_server" where
  "fresh_server ep = \<lparr>endpoint = ep, locations_map = [], exact_locations_map = [], handlers = [],
     listening_socket = 0, server_calls = []\<rparr>"

definition fcgi_server_new :: "string \<Rightarrow> int \<Rightarrow> fcgi_server result" where
  "fcgi_server_new ep mutex_init_rc =
     (if mutex_init_rc \<noteq> 0 then Inl (Server_Exception ''cannot initialize accept mutex'')
      else Inr (fresh_server ep))"

lemma fcgi_server_new_0 [simp]: "fcgi_server_new ep 0 = Inr (fresh_server ep)"
  by (simp add: fcgi_server_new_def)

lemma fresh_server_maps [simp]:
  "locations_map (fresh_server ep) = []" "exact_locations_map (fresh_server ep) = []"
  by (simp_all add: fresh_server_def)

definition fcgi_response_new :: fcgi_response where
  "fcgi_response_new = \<lparr>fcgi_out = [], fcgi_err = []\<rparr>"

section \<open>Handlers and mappings\<close>

definition add_handler :: "handler option \<Rightarrow> fcgi_server \<Rightarrow> fcgi_server" where
  "add_handler h s = (case h of None \<Rightarrow> s | Some p \<Rightarrow> s\<lparr>handlers := handlers s @ [p]\<rparr>)"

definition remove_handler :: "handler option \<Rightarrow> fcgi_server \<Rightarrow> fcgi_server" where
  "remove_handler h s =
     (case h of None \<Rightarrow> s | Some p \<Rightarrow> s\<lparr>handlers := filter (\<lambda>x. x \<noteq> p) (handlers s)\<rparr>)"

text \<open>\<open>sizeof("=")\<close> counts the terminating NUL: two bytes are cut off, not one.\<close>

definition add_handler_mapping :: "string \<Rightarrow> handler option \<Rightarrow> fcgi_server \<Rightarrow> fcgi_server result" where
  "add_handler_mapping uri h s =
     (if find_str uri ''='' 0 = 0 then
        bind_result (std_substr uri 2 npos) (\<lambda>key.
          Inr (s\<lparr>exact_locations_map := mmap_insert key h (exact_locations_map s)\<rparr>))
      else Inr (s\<lparr>locations_map := mmap_insert uri h (locations_map s)\<rparr>))"

definition remove_handler_mapping :: "string \<Rightarrow> handler option \<Rightarrow> fcgi_server \<Rightarrow> fcgi_server" where
  "remove_handler_mapping uri h s = s"

section \<open>Dispatch\<close>

text \<open>The two loops; \<open>matched_prefix\<close> is an argument the code never changes.\<close>

fun exact_loop :: "string \<Rightarrow> location_map \<Rightarrow> handler option \<Rightarrow> handler option" where
  "exact_loop matched_prefix [] handler_to_fire = handler_to_fire"
| "exact_loop matched_prefix ((k, h) # es) handler_to_fire =
     exact_loop matched_prefix es
       (if h \<noteq> None \<and> length matched_prefix < length k then h else handler_to_fire)"

fun prefix_loop :: "string \<Rightarrow> string \<Rightarrow> location_map \<Rightarrow> handler option \<Rightarrow> handler option" where
  "prefix_loop uri matched_prefix [] handler_to_fire = handler_to_fire"
| "prefix_loop uri matched_prefix ((k, h) # es) handler_to_fire =
     prefix_loop uri matched_prefix es
       (if find_str uri k 0 = 0 \<and> h \<noteq> None \<and> length matched_prefix < length k then h
        else handler_to_fire)"

definition invoke_handler ::
  "'x handler_effect \<Rightarrow> string \<Rightarrow> fcgi_server \<Rightarrow> fcgi_request \<Rightarrow> fcgi_response \<Rightarrow>
     exn option \<times> fcgi_request \<times> fcgi_response" where
  "invoke_handler handle uri s rq rs =
     (case exact_loop [] (equal_range (exact_locations_map s) uri) None of
        Some h \<Rightarrow> handle h rq rs
      | None \<Rightarrow>
          (case prefix_loop uri [] (locations_map s) None of
             Some h \<Rightarrow> handle h rq rs
           | None \<Rightarrow>
               (Some (Fcgi_Exception
                  (c_str (''No handlers configured for location: '' @ [QUOTE] @ uri @ [QUOTE]))
                  HTTP_NOT_FOUND), rq, rs)))"

section \<open>Start, stop and the worker thread\<close>

definition server_init :: "int \<Rightarrow> fcgi_server \<Rightarrow> fcgi_server \<times> exn option" where
  "server_init open_socket_rc s =
     (let s1 = s\<lparr>listening_socket := open_socket_rc\<rparr>
      in if open_socket_rc < 0 then (s1, Some (Server_Exception ''cannot create listening socket''))
         else (s1\<lparr>server_calls := server_calls s1 @ map Init_Handler (handlers s1)\<rparr>, None))"

definition server_shutdown :: "fcgi_server \<Rightarrow> fcgi_server" where
  "server_shutdown s =
     s\<lparr>server_calls := server_calls s @ map Shutdown_Handler (handlers s) @
        [Close_Socket (listening_socket s)]\<rparr>"

text \<open>The destructor: the server owns the handlers of its list.\<close>

definition fcgi_server_delete :: "fcgi_server \<Rightarrow> fcgi_server" where
  "fcgi_server_delete s = s\<lparr>server_calls := server_calls s @ map Delete_Handler (handlers s)\<rparr>"

text \<open>What the three handlers of exceptions write; \<open>what()\<close> of a server exception is the default.\<close>

definition exn_output :: "exn \<Rightarrow> string" where
  "exn_output e =
     (let crlf = [CR, LF];
          plain = ''Content-Type: text/plain; encoding=utf-8'' @ crlf;
          fixed = (\<lambda>msg. ''Status: 500'' @ crlf @ plain @ ''Cache-Control: no-cache'' @ crlf @ crlf @ msg)
      in case e of
           Fcgi_Exception what status \<Rightarrow>
             ''Status: '' @ show_int status @ crlf @ plain @ crlf @ ''Error: '' @ what
         | Logic_Error what \<Rightarrow> fixed (''Error: '' @ what)
         | Runtime_Error what \<Rightarrow> fixed (''Error: '' @ what)
         | Out_Of_Range what \<Rightarrow> fixed (''Error: '' @ what)
         | Server_Exception _ \<Rightarrow> fixed (''Error: '' @ ''std::exception'')
         | Db_Exception _ _ \<Rightarrow> fixed ''Unknown internal error'')"

text \<open>One request, from its construction to the flush; \<open>Inl\<close> is what escapes the thread.\<close>

definition serve_request ::
  "'x handler_effect \<Rightarrow> fcgi_server \<Rightarrow> (string \<Rightarrow> string option) \<Rightarrow> string \<Rightarrow> fcgi_response result" where
  "serve_request handle s env body =
     bind_result (fcgi_request_new env body) (\<lambda>rq.
       let (thrown, rq', rs) =
             (if env ''SCRIPT_NAME'' = None
              then (Some (Logic_Error ''HTTP server is not configured to pass SCRIPT_NAME variable''),
                    rq, fcgi_response_new)
              else invoke_handler handle (get_script_name rq) s rq fcgi_response_new)
       in Inr (case thrown of
                 None \<Rightarrow> rs
               | Some e \<Rightarrow> rs\<lparr>fcgi_out := fcgi_out rs @ exn_output e\<rparr>))"

text \<open>
  A turn of the loop finds \<open>m_exiting\<close> set or not, and what the accept returns: a negative
  code, or a request (its environment and body). The run ends with the list of turns.
\<close>

datatype accept = Accept_Failed int | Accepted "string \<Rightarrow> string option" string

fun worker_thread ::
  "'x handler_effect \<Rightarrow> fcgi_server \<Rightarrow> (bool \<times> accept) list \<Rightarrow> fcgi_response list \<times> exn option" where
  "worker_thread handle s [] = ([], None)"
| "worker_thread handle s ((exiting, a) # turns) =
     (if exiting then ([], None)
      else (case a of
          Accept_Failed rc \<Rightarrow> ([], None)
        | Accepted env body \<Rightarrow>
            (case serve_request handle s env body of
               Inl e \<Rightarrow> ([], Some e)
             | Inr rs \<Rightarrow>
                 (let (rss, x) = worker_thread handle s turns in (rs # rss, x)))))"

section \<open>The handler that is chosen\<close>

text \<open>The reference: an exact location first, then the longest location that begins the URI.\<close>

definition location_matches :: "string \<Rightarrow> string \<times> handler option \<Rightarrow> bool" where
  "location_matches uri e \<longleftrightarrow> prefix (fst e) uri \<and> snd e \<noteq> None \<and> fst e \<noteq> []"

lemma find_str_0_prefix: "length s < npos \<Longrightarrow> find_str s k 0 = 0 \<longleftrightarrow> prefix k s"
  by (cases s) (auto simp: find_str_def npos_def split: option.splits)

lemma prefix_loop_filter:
  assumes "length uri < npos"
  shows "prefix_loop uri [] m acc =
     (case filter (location_matches uri) m of [] \<Rightarrow> acc | es \<Rightarrow> snd (last es))"
proof (induction m arbitrary: acc)
  case (Cons e m)
  obtain k h where e: "e = (k, h)" by (cases e)
  show ?case
    using Cons.IH find_str_0_prefix[OF assms, of k]
    by (auto simp: e location_matches_def split: list.splits)
qed simp

lemma exact_loop_filter:
  "exact_loop [] es acc =
     (case filter (\<lambda>e. snd e \<noteq> None \<and> fst e \<noteq> []) es of [] \<Rightarrow> acc | fs \<Rightarrow> snd (last fs))"
  by (induction es arbitrary: acc) (auto split: list.splits)

lemma last_filter_same: "xs \<noteq> [] \<Longrightarrow> P (last xs) \<Longrightarrow> last (filter P xs) = last xs"
  by (cases xs rule: rev_cases) auto

text \<open>Among locations that begin one URI, the order of the map is the order of their lengths.\<close>

lemma strict_prefix_less:
  fixes a b :: string
  assumes "prefix a u" "prefix b u" "length a < length b"
  shows "a < b"
proof -
  have "prefix a b" using assms by (meson prefix_length_prefix less_imp_le)
  then obtain c z where "b = a @ c # z"
    using assms(3) by (auto elim!: prefixE) (metis append.right_neutral less_irrefl list.exhaust)
  then show ?thesis
    by (simp add: list_less_def lexord_append_rightI)
qed

lemma last_match_longest:
  assumes "keys_sorted m" "filter (location_matches uri) m \<noteq> []"
    "e \<in> set m" "location_matches uri e"
  shows "length (fst e) \<le> length (fst (last (filter (location_matches uri) m)))"
proof (rule ccontr)
  let ?fs = "filter (location_matches uri) m"
  assume "\<not> ?thesis"
  then have len: "length (fst (last ?fs)) < length (fst e)" by simp
  have l: "last ?fs \<in> set ?fs" using assms(2) by (rule last_in_set)
  then have "fst (last ?fs) < fst e"
    using assms(4) len by (intro strict_prefix_less[of _ uri]) (auto simp: location_matches_def)
  moreover have "sorted (map fst ?fs)"
    using assms(1) unfolding keys_sorted_def by (rule sorted_filter)
  then have "fst e \<le> fst (last ?fs)"
    using assms(3,4) sorted_last_le[of "map fst ?fs" "fst e"] assms(2)
    by (simp add: last_map)
  ultimately show False by simp
qed

lemma dispatch_longest:
  assumes "length uri < npos" "keys_sorted (locations_map s)"
    "exact_loop [] (equal_range (exact_locations_map s) uri) None = None"
    "e \<in> set (locations_map s)" "location_matches uri e"
  shows "\<exists>k h. (k, Some h) \<in> set (locations_map s) \<and> prefix k uri \<and> k \<noteq> [] \<and>
     (\<forall>e' \<in> set (locations_map s). location_matches uri e' \<longrightarrow> length (fst e') \<le> length k) \<and>
     snd (last (filter (\<lambda>e'. fst e' = k \<and> snd e' \<noteq> None) (locations_map s))) = Some h \<and>
     invoke_handler handle uri s rq rs = handle h rq rs"
proof -
  let ?m = "locations_map s"
  let ?fs = "filter (location_matches uri) ?m"
  have ne: "?fs \<noteq> []" using assms(4,5) by (auto simp: filter_empty_conv)
  obtain k h where l: "last ?fs = (k, Some h)" "(k, Some h) \<in> set ?m" "prefix k uri" "k \<noteq> []"
    using last_in_set[OF ne] by (auto simp: location_matches_def) (metis prod.collapse)
  have "prefix_loop uri [] ?m None = Some h"
    using prefix_loop_filter[OF assms(1)] ne l(1) by (cases ?fs) auto
  then have "invoke_handler handle uri s rq rs = handle h rq rs"
    using assms(3) by (simp add: invoke_handler_def)
  moreover have "\<forall>e' \<in> set ?m. location_matches uri e' \<longrightarrow> length (fst e') \<le> length k"
    using last_match_longest[OF assms(2) ne] l(1) by fastforce
  moreover have "filter (\<lambda>e'. fst e' = k) ?fs = filter (\<lambda>e'. fst e' = k \<and> snd e' \<noteq> None) ?m"
    using l(3,4) by (auto simp: location_matches_def intro!: filter_cong)
  then have "snd (last (filter (\<lambda>e'. fst e' = k \<and> snd e' \<noteq> None) ?m)) = Some h"
    using last_filter_same[OF ne, of "\<lambda>e'. fst e' = k"] l(1) by simp
  ultimately show ?thesis using l by blast
qed

text \<open>The choice of a handler by location is the longest match, although the code never
  updates \<open>matched_prefix\<close>: if no exact location is the URI, the handler called is one of
  a location that begins the URI and is as long as any other such location; the entries of one
  location are tried in their order, the last one winning.\<close>

theorem longest_prefix_dispatch:
  assumes "length uri < npos" "keys_sorted (locations_map s)"
    "exact_loop [] (equal_range (exact_locations_map s) uri) None = None"
    "e \<in> set (locations_map s)" "location_matches uri e"
  shows "\<exists>k h. (k, Some h) \<in> set (locations_map s) \<and> prefix k uri \<and> k \<noteq> [] \<and>
     (\<forall>e' \<in> set (locations_map s). location_matches uri e' \<longrightarrow> length (fst e') \<le> length k) \<and>
     snd (last (filter (\<lambda>e'. fst e' = k \<and> snd e' \<noteq> None) (locations_map s))) = Some h \<and>
     invoke_handler handle uri s rq rs = handle h rq rs"
  using assms by (rule dispatch_longest)

theorem longest_prefix_dispatch_witness:
  "let s = \<lparr>endpoint = [], locations_map = [(''/'', Some 1), (''/a'', Some 2), (''/a'', Some 3)],
            exact_locations_map = [], handlers = [], listening_socket = 3, server_calls = []\<rparr>
   in \<forall>(handle :: unit handler_effect) rq rs. invoke_handler handle ''/ab'' s rq rs = handle 3 rq rs"
proof -
  let ?s = "\<lparr>endpoint = [], locations_map = [(''/'', Some 1), (''/a'', Some 2), (''/a'', Some 3)],
            exact_locations_map = [], handlers = [], listening_socket = 3, server_calls = []\<rparr>"
  have "invoke_handler handle ''/ab'' ?s rq rs = handle 3 rq rs"
    for handle :: "unit handler_effect" and rq rs
  proof -
    have "\<exists>k h. (k, Some h) \<in> set (locations_map ?s) \<and> prefix k ''/ab'' \<and> k \<noteq> [] \<and>
       (\<forall>e' \<in> set (locations_map ?s). location_matches ''/ab'' e' \<longrightarrow> length (fst e') \<le> length k) \<and>
       snd (last (filter (\<lambda>e'. fst e' = k \<and> snd e' \<noteq> None) (locations_map ?s))) = Some h \<and>
       invoke_handler handle ''/ab'' ?s rq rs = handle h rq rs"
      by (rule longest_prefix_dispatch[where e = "(''/a'', Some 2)"])
        (simp_all add: npos_def keys_sorted_def equal_range_def location_matches_def)
    then obtain k h where k: "(k, Some h) \<in> set (locations_map ?s)"
       "\<forall>e' \<in> set (locations_map ?s). location_matches ''/ab'' e' \<longrightarrow> length (fst e') \<le> length k"
       "snd (last (filter (\<lambda>e'. fst e' = k \<and> snd e' \<noteq> None) (locations_map ?s))) = Some h"
       "invoke_handler handle ''/ab'' ?s rq rs = handle h rq rs"
      by blast
    have "2 \<le> length k" using k(2) by (simp add: location_matches_def)
    then have "k = ''/a''" using k(1) by auto
    with k(3) have "h = 3" by simp
    with k(4) show ?thesis by simp
  qed
  then show ?thesis by simp
qed

text \<open>Registering mappings, as the start-up code does, and what is then in the map.\<close>

definition plain_location :: "string \<Rightarrow> bool" where
  "plain_location uri \<longleftrightarrow> length uri < npos \<and> \<not> prefix ''='' uri"

fun register :: "(string \<times> handler option) list \<Rightarrow> fcgi_server \<Rightarrow> fcgi_server result" where
  "register [] s = Inr s"
| "register ((uri, h) # ms) s = bind_result (add_handler_mapping uri h s) (register ms)"

lemma register_locations:
  assumes "list_all (\<lambda>e. plain_location (fst e)) ms"
  shows "register ms s =
     Inr (s\<lparr>locations_map := fold (\<lambda>(k, h). mmap_insert k h) ms (locations_map s)\<rparr>)"
  using assms
proof (induction ms arbitrary: s)
  case (Cons e ms)
  obtain uri h where e: "e = (uri, h)" by (cases e)
  then have "add_handler_mapping uri h s = Inr (s\<lparr>locations_map := mmap_insert uri h (locations_map s)\<rparr>)"
    using Cons.prems by (simp add: add_handler_mapping_def plain_location_def find_str_0_prefix)
  then show ?case using Cons by (simp add: e)
qed simp

text \<open>C8. After any list of locations (none an exact one) has been registered on a fresh server, a
  request that some non-null one of them begins goes to a longest such location, and there to the
  handler registered last.\<close>

theorem registered_dispatch:
  assumes "list_all (\<lambda>e. plain_location (fst e)) ms" "length uri < npos"
    "e \<in> set ms" "location_matches uri e"
  shows "\<exists>s k h. bind_result (fcgi_server_new ep 0) (register ms) = Inr s \<and> (k, Some h) \<in> set ms \<and> prefix k uri \<and>
     (\<forall>e' \<in> set ms. location_matches uri e' \<longrightarrow> length (fst e') \<le> length k) \<and>
     last (filter (\<lambda>h. h \<noteq> None) (map snd (filter (\<lambda>e'. fst e' = k) ms))) = Some h \<and>
     invoke_handler handle uri s rq rs = handle h rq rs"
proof -
  let ?m = "fold (\<lambda>(k, h). mmap_insert k h) ms []"
  let ?s = "(fresh_server ep)\<lparr>locations_map := ?m\<rparr>"
  have reg: "bind_result (fcgi_server_new ep 0) (register ms) = Inr ?s"
    using register_locations[OF assms(1), of "fresh_server ep"] by simp
  have set: "set ?m = set ms"
  proof -
    have "set (fold (\<lambda>(k, h). mmap_insert k h) ms m) = set ms \<union> set m" for m
      by (induction ms arbitrary: m) auto
    then show ?thesis by simp
  qed
  have sorted: "keys_sorted ?m" using multi.mok_fold[of "[]" ms] by (simp add: keys_sorted_def)
  have vals: "values_at ?m k = map snd (filter (\<lambda>e'. fst e' = k) ms)" for k
    using multi.vals_fold[of "[]" ms k] by (simp add: values_at_def equal_range_def keys_sorted_def)
  have "exact_loop [] (equal_range (exact_locations_map ?s) uri) None = None"
    by (simp add: equal_range_def)
  then obtain k h where k: "prefix k uri"
    "\<forall>e' \<in> set ms. location_matches uri e' \<longrightarrow> length (fst e') \<le> length k"
    "snd (last (filter (\<lambda>e'. fst e' = k \<and> snd e' \<noteq> None) ?m)) = Some h" "(k, Some h) \<in> set ?m"
    "invoke_handler handle uri ?s rq rs = handle h rq rs"
    using dispatch_longest[OF assms(2), of ?s e handle rq rs] sorted assms(3,4) set by auto
  have "filter (\<lambda>h. h \<noteq> None) (values_at ?m k) = map snd (filter (\<lambda>e'. fst e' = k \<and> snd e' \<noteq> None) ?m)"
    by (simp add: values_at_def equal_range_def filter_map comp_def conj_commute)
  moreover have "filter (\<lambda>e'. fst e' = k \<and> snd e' \<noteq> None) ?m \<noteq> []"
    using k(4) by (force simp: filter_empty_conv)
  ultimately have "last (filter (\<lambda>h. h \<noteq> None) (values_at ?m k)) = Some h"
    using k(3) by (simp add: last_map)
  then show ?thesis using reg k vals set by auto
qed

theorem registered_dispatch_witness:
  "\<forall>(handle :: unit handler_effect) rq rs. \<exists>s.
     bind_result (fcgi_server_new '':9002'' 0)
       (register [(''/'', Some 1), (''/sitemap.xml'', Some 2), (''/'', Some 7)]) = Inr s \<and>
     invoke_handler handle ''/2012/cake/'' s rq rs = handle 7 rq rs"
proof (intro allI)
  fix handle :: "unit handler_effect" and rq rs
  let ?ms = "[(''/'', Some 1), (''/sitemap.xml'', Some 2), (''/'', Some 7)]"
  let ?r = "bind_result (fcgi_server_new '':9002'' 0) (register ?ms)"
  have "\<exists>s k h. ?r = Inr s \<and> (k, Some h) \<in> set ?ms \<and> prefix k ''/2012/cake/'' \<and>
     (\<forall>e' \<in> set ?ms. location_matches ''/2012/cake/'' e' \<longrightarrow> length (fst e') \<le> length k) \<and>
     last (filter (\<lambda>h. h \<noteq> None) (map snd (filter (\<lambda>e'. fst e' = k) ?ms))) = Some h \<and>
     invoke_handler handle ''/2012/cake/'' s rq rs = handle h rq rs"
    by (rule registered_dispatch[where e = "(''/'', Some 1)"])
      (simp_all add: plain_location_def npos_def location_matches_def)
  then obtain s k h where k: "?r = Inr s" "(k, Some h) \<in> set ?ms" "prefix k ''/2012/cake/''"
    "last (filter (\<lambda>h. h \<noteq> None) (map snd (filter (\<lambda>e'. fst e' = k) ?ms))) = Some h"
    "invoke_handler handle ''/2012/cake/'' s rq rs = handle h rq rs"
    by blast
  then have "k = ''/''" by auto
  with k(4) have "h = 7" by simp
  with k show "\<exists>s. ?r = Inr s \<and> invoke_handler handle ''/2012/cake/'' s rq rs = handle 7 rq rs"
    by blast
qed

text \<open>A request for which no exact location is the URI and no location begins it calls no
  handler: it ends in the 404 exception, with request and response untouched.\<close>

theorem unmapped_is_404:
  assumes "length uri < npos" "NUL \<notin> set uri"
    "\<forall>e \<in> set (locations_map s). \<not> location_matches uri e"
    "\<forall>e \<in> set (exact_locations_map s). fst e = uri \<longrightarrow> snd e = None"
  shows "invoke_handler handle uri s rq rs =
     (Some (Fcgi_Exception (''No handlers configured for location: '' @ [QUOTE] @ uri @ [QUOTE]) 404),
      rq, rs)"
proof -
  have "prefix_loop uri [] (locations_map s) None = None"
    using prefix_loop_filter[OF assms(1)] assms(3) by (simp add: filter_False)
  moreover have "filter (\<lambda>e. snd e \<noteq> None \<and> fst e \<noteq> []) (equal_range (exact_locations_map s) uri) = []"
    using assms(4) by (auto simp: filter_empty_conv equal_range_def)
  then have "exact_loop [] (equal_range (exact_locations_map s) uri) None = None"
    by (simp only: exact_loop_filter list.case)
  moreover have "c_str (''No handlers configured for location: '' @ [QUOTE] @ uri @ [QUOTE]) =
      ''No handlers configured for location: '' @ [QUOTE] @ uri @ [QUOTE]"
    using assms(2) by (intro c_str_id) simp
  ultimately show ?thesis by (simp add: invoke_handler_def HTTP_NOT_FOUND_def)
qed

theorem unmapped_is_404_witness:
  "\<forall>(handle :: unit handler_effect) rq rs. invoke_handler handle ''/x''
     \<lparr>endpoint = [], locations_map = [(''/y'', Some 1)], exact_locations_map = [(''/x'', None)],
      handlers = [], listening_socket = 3, server_calls = []\<rparr> rq rs =
   (Some (Fcgi_Exception (''No handlers configured for location: '' @ [QUOTE] @ ''/x'' @ [QUOTE]) 404),
    rq, rs)"
  by (intro allI unmapped_is_404) (simp_all add: npos_def location_matches_def)

text \<open>An exact location loses a byte: the mapping "=" followed by a path is stored without the
  path's first byte, so on a server with no other mapping a request for that very path finds no
  handler.\<close>

theorem exact_mapping_misses:
  assumes "length path < npos" "NUL \<notin> set path" "path \<noteq> []"
  shows "\<exists>s. bind_result (fcgi_server_new ep 0) (add_handler_mapping (CHR ''='' # path) (Some h)) = Inr s \<and>
     exact_locations_map s = [(tl path, Some h)] \<and>
     fst (invoke_handler handle path s rq rs) =
       Some (Fcgi_Exception (''No handlers configured for location: '' @ [QUOTE] @ path @ [QUOTE]) 404)"
proof -
  obtain c p where path: "path = c # p" using assms(3) by (cases path) auto
  let ?s = "(fresh_server ep)\<lparr>exact_locations_map := [(p, Some h)]\<rparr>"
  have "find_str (CHR ''='' # path) ''='' 0 = 0" by (simp add: find_str_def)
  moreover have "std_substr (CHR ''='' # path) 2 npos = Inr p"
    using assms(1) by (simp add: path std_substr_def)
  ultimately have "bind_result (fcgi_server_new ep 0) (add_handler_mapping (CHR ''='' # path) (Some h)) = Inr ?s"
    by (simp add: add_handler_mapping_def)
  moreover have "fst (invoke_handler handle path ?s rq rs) =
       Some (Fcgi_Exception (''No handlers configured for location: '' @ [QUOTE] @ path @ [QUOTE]) 404)"
    using prefix_loop_filter[OF assms(1), of "[]" None] assms(2) path
    by (simp add: invoke_handler_def equal_range_def HTTP_NOT_FOUND_def c_str_id)
  ultimately show ?thesis by (auto simp: path)
qed

theorem exact_mapping_misses_witness:
  "\<forall>(handle :: unit handler_effect) rq rs. \<exists>s.
     bind_result (fcgi_server_new [] 0) (add_handler_mapping ''=/ping'' (Some 4)) = Inr s \<and>
     exact_locations_map s = [(''ping'', Some 4)] \<and>
     fst (invoke_handler handle ''/ping'' s rq rs) = Some (Fcgi_Exception
       (''No handlers configured for location: '' @ [QUOTE] @ ''/ping'' @ [QUOTE]) 404)"
proof (intro allI)
  fix handle :: "unit handler_effect" and rq rs
  show "\<exists>s. bind_result (fcgi_server_new [] 0) (add_handler_mapping ''=/ping'' (Some 4)) = Inr s \<and>
     exact_locations_map s = [(''ping'', Some 4)] \<and>
     fst (invoke_handler handle ''/ping'' s rq rs) = Some (Fcgi_Exception
       (''No handlers configured for location: '' @ [QUOTE] @ ''/ping'' @ [QUOTE]) 404)"
    using exact_mapping_misses[of "''/ping''" "[]" 4 handle rq rs] by (simp add: npos_def)
qed

section \<open>The worker thread\<close>

text \<open>
  Handlers that throw cost no more than their own request. The requests a run answers are those
  accepted before the thread is told to stop or an accept fails.
\<close>

definition accepted_env_ok :: "accept \<Rightarrow> bool" where
  "accepted_env_ok a = (case a of Accept_Failed rc \<Rightarrow> True
     | Accepted env body \<Rightarrow>
         (case env ''QUERY_STRING'' of None \<Rightarrow> True | Some q \<Rightarrow> length q < npos))"

fun served :: "(bool \<times> accept) list \<Rightarrow> ((string \<Rightarrow> string option) \<times> string) list" where
  "served [] = []"
| "served ((exiting, a) # turns) =
     (if exiting then []
      else (case a of Accept_Failed rc \<Rightarrow> [] | Accepted env body \<Rightarrow> (env, body) # served turns))"

definition request_of :: "(string \<Rightarrow> string option) \<Rightarrow> string \<Rightarrow> fcgi_request" where
  "request_of env body =
     \<lparr>fcgi_in = in_open body,
      m_params = (case env ''QUERY_STRING'' of None \<Rightarrow> []
                  | Some q \<Rightarrow> insert_segments (code_segments q) []),
      m_formdata_params = [], envp = env\<rparr>"

definition answer :: "'x handler_effect \<Rightarrow> fcgi_server \<Rightarrow> (string \<Rightarrow> string option) \<Rightarrow> string \<Rightarrow> fcgi_response" where
  "answer handle s env body =
     (case env ''SCRIPT_NAME'' of
        None \<Rightarrow> \<lparr>fcgi_out = exn_output (Logic_Error
                   ''HTTP server is not configured to pass SCRIPT_NAME variable''), fcgi_err = []\<rparr>
      | Some uri \<Rightarrow>
          (case invoke_handler handle uri s (request_of env body) fcgi_response_new of
             (None, rq, rs) \<Rightarrow> rs
           | (Some e, rq, rs) \<Rightarrow> rs\<lparr>fcgi_out := fcgi_out rs @ exn_output e\<rparr>))"

lemma request_new_eq:
  assumes "accepted_env_ok (Accepted env body)"
  shows "fcgi_request_new env body = Inr (request_of env body)"
proof (cases "env ''QUERY_STRING''")
  case None
  have "parse_query_args [] [] = Inr (insert_segments (code_segments []) [])"
    by (rule parse_query_eq) (simp add: npos_def)
  then show ?thesis
    using None by (simp add: fcgi_request_new_def get_fcgi_param_def request_of_def
        code_segments_def insert_segments_def arg_pairs_def)
next
  case (Some q)
  then show ?thesis
    using assms query_params[of q env body] by (simp add: accepted_env_ok_def request_of_def)
qed

lemma serve_request_eq:
  assumes "accepted_env_ok (Accepted env body)"
  shows "serve_request handle s env body = Inr (answer handle s env body)"
  using request_new_eq[OF assms]
  by (auto simp: serve_request_def answer_def get_script_name_def get_fcgi_param_def request_of_def
      fcgi_response_new_def Let_def split: option.splits prod.splits)

text \<open>A worker thread answers every request it accepts, whatever the handlers do: each response
  is the handler's, followed by the error text of the exception it threw if it threw one (a 404
  when no handler is mapped), and no exception ends the thread.\<close>

theorem worker_answers_all:
  assumes "list_all (\<lambda>t. accepted_env_ok (snd t)) turns"
  shows "worker_thread handle s turns =
     (map (\<lambda>(env, body). answer handle s env body) (served turns), None)"
  using assms
  by (induction turns rule: served.induct)
    (auto simp: serve_request_eq Let_def split: accept.splits)

theorem worker_answers_all_witness:
  "\<forall>handle :: unit handler_effect.
     worker_thread handle \<lparr>endpoint = [], locations_map = [], exact_locations_map = [],
         handlers = [], listening_socket = 3, server_calls = []\<rparr>
       [(False, Accepted (\<lambda>_. None) []), (False, Accept_Failed (- 1)), (False, Accepted (\<lambda>_. None) [])] =
     ([\<lparr>fcgi_out = exn_output (Logic_Error
          ''HTTP server is not configured to pass SCRIPT_NAME variable''), fcgi_err = []\<rparr>], None)"
  by (intro allI, subst worker_answers_all) (simp_all add: accepted_env_ok_def answer_def)

end
