(* ===== verification/Server_Run.thy ===== *)
theory Server_Run
  imports Server Step_System "HOL-Library.Multiset"
begin

text \<open>
  The five worker threads of a running server (\<open>fcgi_server::run\<close> and \<open>worker_thread\<close> of
  \<^verbatim>\<open>src/server/fcgi_server.cpp\<close>), interleaved: each waits for the accept mutex, blocks in the
  accept with the mutex held, releases it and answers the request, until it finds the exit flag
  set or an accept fails.

  What the accepts will return is a queue that comes from outside. \<open>answered\<close> is the list of the
  requests with the responses they got, in the order of their answers.
\<close>

section \<open>Steps\<close>

type_synonym request = "(string \<Rightarrow> string option) \<times> string"

datatype phase =
    At_Loop
  | Wants_Mutex
  | In_Accept
  | Accept_Returned accept
  | Serving request
  | Ended

record run =
  phases :: "nat \<Rightarrow> phase"
  accept_mutex :: "nat option"
  exit_flag :: bool
  to_accept :: "accept list"
  answered :: "(request \<times> fcgi_response) list"
  escaped :: "exn option"

text \<open>\<open>run\<close> creates the threads before it waits for the first of them.\<close>

definition run_new :: "accept list \<Rightarrow> run" where
  "run_new queue = \<lparr>phases = (\<lambda>t. if t < NUM_WORKERS then At_Loop else Ended), accept_mutex = None,
     exit_flag = False, to_accept = queue, answered = [], escaped = None\<rparr>"

abbreviation goes :: "run \<Rightarrow> nat \<Rightarrow> phase \<Rightarrow> nat \<Rightarrow> phase" where
  "goes s t x \<equiv> (phases s)(t := x)"

inductive run_step :: "'x handler_effect \<Rightarrow> fcgi_server \<Rightarrow> run \<Rightarrow> run \<Rightarrow> bool"
  for handle :: "'x handler_effect" and srv :: fcgi_server where
  exit_called: "escaped s = None \<Longrightarrow> run_step handle srv s (s\<lparr>exit_flag := True\<rparr>)"
| finds_exit: "escaped s = None \<Longrightarrow> phases s t = At_Loop \<Longrightarrow> exit_flag s \<Longrightarrow>
     run_step handle srv s (s\<lparr>phases := goes s t Ended\<rparr>)"
| goes_on: "escaped s = None \<Longrightarrow> phases s t = At_Loop \<Longrightarrow> \<not> exit_flag s \<Longrightarrow>
     run_step handle srv s (s\<lparr>phases := goes s t Wants_Mutex\<rparr>)"
| locks: "escaped s = None \<Longrightarrow> phases s t = Wants_Mutex \<Longrightarrow> accept_mutex s = None \<Longrightarrow>
     run_step handle srv s (s\<lparr>phases := goes s t In_Accept, accept_mutex := Some t\<rparr>)"
| accept_returns: "escaped s = None \<Longrightarrow> phases s t = In_Accept \<Longrightarrow> to_accept s = a # q \<Longrightarrow>
     run_step handle srv s (s\<lparr>phases := goes s t (Accept_Returned a), to_accept := q\<rparr>)"
| unlocks_failed: "escaped s = None \<Longrightarrow> phases s t = Accept_Returned (Accept_Failed rc) \<Longrightarrow>
     run_step handle srv s (s\<lparr>phases := goes s t Ended, accept_mutex := None\<rparr>)"
| unlocks: "escaped s = None \<Longrightarrow> phases s t = Accept_Returned (Accepted env body) \<Longrightarrow>
     run_step handle srv s (s\<lparr>phases := goes s t (Serving (env, body)), accept_mutex := None\<rparr>)"
| answers_request: "escaped s = None \<Longrightarrow> phases s t = Serving (env, body) \<Longrightarrow>
     serve_request handle srv env body = Inr rs \<Longrightarrow>
     run_step handle srv s (s\<lparr>phases := goes s t At_Loop, answered := answered s @ [((env, body), rs)]\<rparr>)"
| exception_escapes: "escaped s = None \<Longrightarrow> phases s t = Serving (env, body) \<Longrightarrow>
     serve_request handle srv env body = Inl e \<Longrightarrow>
     run_step handle srv s (s\<lparr>escaped := Some e\<rparr>)"

section \<open>Every request is answered once\<close>

fun requests :: "accept list \<Rightarrow> request multiset" where
  "requests [] = {#}"
| "requests (Accept_Failed rc # q) = requests q"
| "requests (Accepted env body # q) = add_mset (env, body) (requests q)"

fun in_hand :: "phase \<Rightarrow> request multiset" where
  "in_hand (Accept_Returned a) = requests [a]"
| "in_hand (Serving r) = {#r#}"
| "in_hand _ = {#}"

definition all_in_hand :: "(nat \<Rightarrow> phase) \<Rightarrow> request multiset" where
  "all_in_hand P = (\<Sum>t<NUM_WORKERS. in_hand (P t))"

fun holds_mutex :: "phase \<Rightarrow> bool" where
  "holds_mutex In_Accept = True"
| "holds_mutex (Accept_Returned a) = True"
| "holds_mutex _ = False"

lemma all_in_hand_update:
  assumes "t < NUM_WORKERS"
  shows "all_in_hand (P(t := x)) + in_hand (P t) = all_in_hand P + in_hand x"
proof -
  have "all_in_hand Q = in_hand (Q t) + (\<Sum>u\<in>{..<NUM_WORKERS} - {t}. in_hand (Q u))" for Q
    unfolding all_in_hand_def using assms by (intro sum.remove) auto
  from this[of "P(t := x)"] this[of P] show ?thesis by (simp add: add_ac)
qed

definition run_start :: "accept list \<Rightarrow> run \<Rightarrow> bool" where
  "run_start queue s \<longleftrightarrow> list_all accepted_env_ok queue \<and> s = run_new queue"

definition run_inv :: "'x handler_effect \<Rightarrow> fcgi_server \<Rightarrow> accept list \<Rightarrow> run \<Rightarrow> bool" where
  "run_inv handle srv queue s \<longleftrightarrow> list_all accepted_env_ok queue \<and>
     (\<forall>t. NUM_WORKERS \<le> t \<longrightarrow> phases s t = Ended) \<and>
     (\<forall>t. holds_mutex (phases s t) \<longleftrightarrow> accept_mutex s = Some t) \<and>
     requests queue = mset (map fst (answered s)) + all_in_hand (phases s) + requests (to_accept s) \<and>
     list_all (\<lambda>((env, body), rs). rs = answer handle srv env body) (answered s) \<and>
     escaped s = None"

lemma requests_Cons: "requests (a # q) = requests [a] + requests q"
  by (cases a) simp_all

lemma requests_ok: "list_all accepted_env_ok q \<Longrightarrow> (env, body) \<in># requests q \<Longrightarrow> accepted_env_ok (Accepted env body)"
  by (induction q rule: requests.induct) auto

lemma all_in_hand_new: "all_in_hand (phases (run_new queue)) = {#}"
  by (simp add: all_in_hand_def run_new_def)

lemma run_inv_start: "run_start queue s \<Longrightarrow> run_inv handle srv queue s"
  using all_in_hand_new[of queue] by (auto simp: run_start_def run_inv_def run_new_def split: if_splits)

lemma phase_move:
  assumes "run_inv handle srv queue s" "phases s t \<noteq> Ended"
  shows "t < NUM_WORKERS" "all_in_hand (goes s t x) + in_hand (phases s t) = all_in_hand (phases s) + in_hand x"
proof -
  have "NUM_WORKERS \<le> t \<Longrightarrow> phases s t = Ended" using assms(1) by (simp add: run_inv_def)
  then show "t < NUM_WORKERS" using assms(2) by (meson not_less)
  then show "all_in_hand (goes s t x) + in_hand (phases s t) = all_in_hand (phases s) + in_hand x"
    by (rule all_in_hand_update)
qed

lemma request_in_hand:
  assumes "run_inv handle srv queue s" "phases s t = Serving (env, body)"
  shows "accepted_env_ok (Accepted env body)"
proof -
  have "all_in_hand (goes s t Ended) + {#(env, body)#} = all_in_hand (phases s)"
    using phase_move(2)[OF assms(1), of t Ended] assms(2) by simp
  then have "(env, body) \<in># all_in_hand (phases s)" by (metis union_iff union_single_eq_member)
  then have "(env, body) \<in># requests queue" using assms(1) by (simp add: run_inv_def)
  moreover have "list_all accepted_env_ok queue" using assms(1) by (simp add: run_inv_def)
  ultimately show ?thesis by (intro requests_ok)
qed

lemma run_step_inv:
  assumes "run_inv handle srv queue s" "run_step handle srv s s'"
  shows "run_inv handle srv queue s'"
proof -
  note I = assms(1)
  have move: "all_in_hand (goes s t x) + in_hand (phases s t) = all_in_hand (phases s) + in_hand x"
    if "phases s t \<noteq> Ended" for t x using phase_move(2)[OF I that] .
  have ended: "phases s u = Ended" if "NUM_WORKERS \<le> u" for u using I that by (simp add: run_inv_def)
  have mutex: "holds_mutex (phases s u) \<longleftrightarrow> accept_mutex s = Some u" for u using I by (simp add: run_inv_def)
  from assms(2) show ?thesis
  proof cases
    case exit_called
    then show ?thesis using I by (simp add: run_inv_def)
  next
    case (finds_exit t)
    then show ?thesis using I ended mutex[of t] mutex move[of t Ended] by (auto simp: run_inv_def)
  next
    case (goes_on t)
    then show ?thesis using I ended mutex[of t] mutex move[of t Wants_Mutex] by (auto simp: run_inv_def)
  next
    case (locks t)
    then show ?thesis using I ended mutex[of t] mutex move[of t In_Accept] by (auto simp: run_inv_def)
  next
    case (accept_returns t a q)
    then show ?thesis
      using I ended mutex[of t] mutex move[of t "Accept_Returned a"] requests_Cons[of a q] by (auto simp: run_inv_def add_ac)
  next
    case (unlocks_failed t rc)
    then show ?thesis using I ended mutex[of t] mutex move[of t Ended] by (auto simp: run_inv_def)
  next
    case (unlocks t env body)
    then show ?thesis using I ended mutex[of t] mutex move[of t "Serving (env, body)"] by (auto simp: run_inv_def)
  next
    case (answers_request t env body rs)
    then have "rs = answer handle srv env body"
      using serve_request_eq[OF request_in_hand[OF I]] by simp
    then show ?thesis using answers_request I ended mutex[of t] mutex move[of t At_Loop] by (auto simp: run_inv_def)
  next
    case (exception_escapes t env body e)
    then show ?thesis using serve_request_eq[OF request_in_hand[OF I]] by simp
  qed
qed

interpretation running: invariant_system "run_start queue" "run_step handle srv" "run_inv handle srv queue"
  for queue handle srv
  by unfold_locales (auto intro: run_inv_start run_step_inv)

lemma all_ended: "\<forall>t. P t = Ended \<Longrightarrow> all_in_hand P = {#}"
  by (simp add: all_in_hand_def)

lemma run_ends:
  assumes "reach start (run_step handle srv) s" "exit_flag s" "escaped s = None"
    "\<forall>t. phases s t = At_Loop \<or> phases s t = Ended" "\<forall>t \<ge> NUM_WORKERS. phases s t = Ended"
  shows "reach start (run_step handle srv) (s\<lparr>phases := \<lambda>_. Ended\<rparr>)"
proof -
  have "reach start (run_step handle srv) (s\<lparr>phases := \<lambda>t. if t < k then Ended else phases s t\<rparr>)" for k
  proof (induction k)
    case 0
    then show ?case using assms(1) by simp
  next
    case (Suc k)
    let ?s = "s\<lparr>phases := \<lambda>t. if t < k then Ended else phases s t\<rparr>"
    let ?s' = "s\<lparr>phases := \<lambda>t. if t < Suc k then Ended else phases s t\<rparr>"
    have "?s' = ?s\<lparr>phases := goes ?s k Ended\<rparr>" by (auto simp: fun_eq_iff less_Suc_eq)
    moreover have "?s' = ?s" if "phases s k = Ended" using that by (auto simp: fun_eq_iff less_Suc_eq)
    moreover have "run_step handle srv ?s (?s\<lparr>phases := goes ?s k Ended\<rparr>)" if "phases s k = At_Loop"
      using that assms(2,3) by (intro finds_exit) simp_all
    ultimately show ?case using Suc assms(4) reach_step by metis
  qed
  from this[of NUM_WORKERS] assms(5) show ?thesis
    by (simp add: if_distrib cong: if_cong)
qed

text \<open>C35. However the five threads interleave, each accepted request is answered exactly once and with
  its own answer: at every moment the requests that have been accepted are those answered and
  those in the hands of a thread, one thread at most is inside the accept, and when all threads
  have ended nothing that was accepted is without its answer.
\<close>

theorem each_request_answered_once:
  assumes "reach (run_start queue) (run_step handle srv) s"
  shows "requests queue = mset (map fst (answered s)) + all_in_hand (phases s) + requests (to_accept s) \<and>
    list_all (\<lambda>((env, body), rs). rs = answer handle srv env body) (answered s) \<and> escaped s = None \<and>
    (\<forall>t u. holds_mutex (phases s t) \<longrightarrow> holds_mutex (phases s u) \<longrightarrow> t = u) \<and>
    ((\<forall>t. phases s t = Ended) \<longrightarrow> requests queue = mset (map fst (answered s)) + requests (to_accept s))"
proof -
  have I: "run_inv handle srv queue s" using assms by (rule running.reach_inv)
  then have "requests queue = mset (map fst (answered s)) + all_in_hand (phases s) + requests (to_accept s)"
    "list_all (\<lambda>((env, body), rs). rs = answer handle srv env body) (answered s)" "escaped s = None"
    "\<forall>t u. holds_mutex (phases s t) \<longrightarrow> holds_mutex (phases s u) \<longrightarrow> t = u"
    by (simp_all add: run_inv_def)
  then show ?thesis using all_ended[of "phases s"] by auto
qed

text \<open>A run of a server without mappings: the first thread answers, then all of them are told to end.\<close>

definition run_example :: "'x handler_effect \<Rightarrow> fcgi_server \<Rightarrow> run" where
  "run_example handle srv = \<lparr>phases = (\<lambda>_. Ended), accept_mutex = None, exit_flag = True,
     to_accept = [Accept_Failed (- 1)],
     answered = [((Map.empty, []), answer handle srv Map.empty [])], escaped = None\<rparr>"

lemma run_example_reach:
  "reach (run_start [Accepted Map.empty [], Accept_Failed (- 1)]) (run_step handle srv) (run_example handle srv)"
proof -
  let ?R = "reach (run_start [Accepted Map.empty [], Accept_Failed (- 1)]) (run_step handle srv)"
  define ph where "ph x = (\<lambda>t. if t = 0 then x else if t < NUM_WORKERS then At_Loop else Ended)" for x
  define st where "st x m q a e = \<lparr>phases = ph x, accept_mutex = m, exit_flag = e, to_accept = q, answered = a, escaped = None\<rparr>"
    for x m q a e
  have "(ph x)(0 := y) = ph y" "ph x 0 = x" for x y by (auto simp: ph_def)
  note S = st_def this
  let ?q = "[Accept_Failed (- 1)]" and ?r = "(Map.empty, []) :: request"
  have ok: "serve_request handle srv Map.empty [] = Inr (answer handle srv Map.empty [])"
    by (rule serve_request_eq) (simp add: accepted_env_ok_def)
  have "run_new [Accepted Map.empty [], Accept_Failed (- 1)] = st At_Loop None (Accepted Map.empty [] # ?q) [] False"
    by (auto simp: run_new_def st_def ph_def NUM_WORKERS_def)
  then have s0: "?R (st At_Loop None (Accepted Map.empty [] # ?q) [] False)"
    by (intro reach_start) (simp add: run_start_def accepted_env_ok_def)
  have s1: "run_step handle srv (st At_Loop None q a False) (st Wants_Mutex None q a False)" for q a
    using goes_on[of "st At_Loop None q a False" 0] by (simp add: S)
  have s2: "run_step handle srv (st Wants_Mutex None q a False) (st In_Accept (Some 0) q a False)" for q a
    using locks[of "st Wants_Mutex None q a False" 0] by (simp add: S)
  have s3: "run_step handle srv (st In_Accept (Some 0) (x # q) a False) (st (Accept_Returned x) (Some 0) q a False)" for x q a
    using accept_returns[of "st In_Accept (Some 0) (x # q) a False" 0] by (simp add: S)
  have s4: "run_step handle srv (st (Accept_Returned (Accepted Map.empty [])) (Some 0) q a False) (st (Serving ?r) None q a False)" for q a
    using unlocks[of "st (Accept_Returned (Accepted Map.empty [])) (Some 0) q a False" 0] by (simp add: S)
  have s5: "run_step handle srv (st (Serving ?r) None q a False) (st At_Loop None q (a @ [(?r, answer handle srv Map.empty [])]) False)" for q a
    using answers_request[of "st (Serving ?r) None q a False" 0, OF _ _ ok] by (simp add: S)
  have s6: "run_step handle srv (st At_Loop None q a False) (st At_Loop None q a True)" for q a
    using exit_called[of "st At_Loop None q a False"] by (simp add: S)
  have "?R (st At_Loop None ?q ([] @ [(?r, answer handle srv Map.empty [])]) True)"
    by (rule reach_step[OF reach_step[OF reach_step[OF reach_step[OF reach_step[OF reach_step[OF s0 s1] s2] s3] s4] s5] s6])
  then have "?R ((st At_Loop None ?q ([] @ [(?r, answer handle srv Map.empty [])]) True)\<lparr>phases := \<lambda>_. Ended\<rparr>)"
    by (rule run_ends) (auto simp: st_def ph_def NUM_WORKERS_def)
  then show ?thesis by (simp add: st_def run_example_def)
qed

theorem each_request_answered_once_witness:
  "\<forall>(handle :: unit handler_effect) srv.
     requests [Accepted Map.empty [], Accept_Failed (- 1)] =
       mset (map fst (answered (run_example handle srv))) + requests [Accept_Failed (- 1)]"
proof (intro allI)
  fix handle :: "unit handler_effect" and srv
  show "requests [Accepted Map.empty [], Accept_Failed (- 1)] =
       mset (map fst (answered (run_example handle srv))) + requests [Accept_Failed (- 1)]"
    using each_request_answered_once[OF run_example_reach, of handle srv] by (simp add: run_example_def)
qed

section \<open>Stopping\<close>

text \<open>
  A thread looks at the exit flag only at the head of its loop; one that is past it accepts and
  answers one more request.
\<close>

fun unfinished :: "phase \<Rightarrow> nat" where
  "unfinished At_Loop = 0"
| "unfinished Ended = 0"
| "unfinished _ = 1"

definition drain_bound :: "run \<Rightarrow> nat" where
  "drain_bound s = length (answered s) + (\<Sum>t<NUM_WORKERS. unfinished (phases s t))"

lemma unfinished_le: "unfinished x \<le> 1"
  by (cases x) simp_all

lemma drain_bound_le: "drain_bound s \<le> length (answered s) + NUM_WORKERS"
  using sum_mono[of "{..<NUM_WORKERS}" "\<lambda>t. unfinished (phases s t)" "\<lambda>_. 1"] unfinished_le
  by (simp add: drain_bound_def)

lemma unfinished_update:
  assumes "t < NUM_WORKERS"
  shows "(\<Sum>u<NUM_WORKERS. unfinished ((P(t := x)) u)) + unfinished (P t) =
    (\<Sum>u<NUM_WORKERS. unfinished (P u)) + unfinished x"
proof -
  have "(\<Sum>u<NUM_WORKERS. unfinished (Q u)) = unfinished (Q t) + (\<Sum>u\<in>{..<NUM_WORKERS} - {t}. unfinished (Q u))" for Q
    using assms by (intro sum.remove) auto
  from this[of "P(t := x)"] this[of P] show ?thesis by simp
qed

definition draining :: "'x handler_effect \<Rightarrow> fcgi_server \<Rightarrow> accept list \<Rightarrow> nat \<Rightarrow> run \<Rightarrow> bool" where
  "draining handle srv queue b s \<longleftrightarrow> run_inv handle srv queue s \<and> exit_flag s \<and> drain_bound s \<le> b"

lemma draining_step:
  assumes "draining handle srv queue b s" "run_step handle srv s s'"
  shows "draining handle srv queue b s'"
proof -
  have I: "run_inv handle srv queue s" and e: "exit_flag s" and b: "drain_bound s \<le> b"
    using assms(1) by (simp_all add: draining_def)
  have t: "t < NUM_WORKERS" if "phases s t \<noteq> Ended" for t using phase_move(1)[OF I that] .
  from assms(2) have "exit_flag s' \<and> drain_bound s' \<le> drain_bound s"
  proof cases
    case (finds_exit t)
    then show ?thesis using e t[of t] unfinished_update[of t "phases s" Ended] by (simp add: drain_bound_def)
  next
    case (locks t)
    then show ?thesis using e t[of t] unfinished_update[of t "phases s" In_Accept] by (simp add: drain_bound_def)
  next
    case (accept_returns t a q)
    then show ?thesis using e t[of t] unfinished_update[of t "phases s" "Accept_Returned a"] by (simp add: drain_bound_def)
  next
    case (unlocks_failed t rc)
    then show ?thesis using e t[of t] unfinished_update[of t "phases s" Ended] by (simp add: drain_bound_def)
  next
    case (unlocks t env body)
    then show ?thesis using e t[of t] unfinished_update[of t "phases s" "Serving (env, body)"] by (simp add: drain_bound_def)
  next
    case (answers_request t env body rs)
    then show ?thesis using e t[of t] unfinished_update[of t "phases s" At_Loop] by (simp add: drain_bound_def)
  qed (use e in \<open>simp_all add: drain_bound_def\<close>)
  then show ?thesis using run_step_inv[OF I assms(2)] b by (simp add: draining_def)
qed

interpretation drain: invariant_system "draining handle srv queue b" "run_step handle srv" "draining handle srv queue b"
  for handle srv queue b
  by unfold_locales (auto intro: draining_step)

text \<open>After \<open>exit\<close> has been called, each of the five threads answers one more request at most,
  however many are waiting to be accepted.
\<close>

theorem exit_drains:
  assumes "reach (run_start queue) (run_step handle srv) s" "exit_flag s" "(run_step handle srv)\<^sup>*\<^sup>* s s'"
  shows "length (answered s') \<le> length (answered s) + NUM_WORKERS"
proof -
  have "draining handle srv queue (length (answered s) + NUM_WORKERS) s"
    using running.reach_inv[OF assms(1)] assms(2) drain_bound_le by (simp add: draining_def)
  then have "draining handle srv queue (length (answered s) + NUM_WORKERS) s'"
    by (rule drain.run_inv[OF assms(3)])
  then show ?thesis by (simp add: draining_def drain_bound_def)
qed

theorem exit_drains_witness:
  "\<forall>handle :: unit handler_effect. length (answered (run_example handle (fresh_server []))) \<le> 1 + 5"
proof (intro allI)
  fix handle :: "unit handler_effect"
  show "length (answered (run_example handle (fresh_server []))) \<le> 1 + 5"
    using exit_drains[OF run_example_reach[where handle = handle and srv = "fresh_server []"] _ rtranclp.rtrancl_refl]
    by (simp add: run_example_def NUM_WORKERS_def)
qed

end
