(* ===== verification/Db_Stmt.thy ===== *)
theory Db_Stmt
  imports Prelude "HOL-Library.Word"
begin

text \<open>
  Prepared statements: binding parameters, executing, fetching rows and reading columns as text or
  as an integer (the classes \<open>DBStmt\<close> and \<open>DBScopedLock\<close> of
  \<^verbatim>\<open>src/db/db_pool.h\<close>).

  The MySQL client library is a parameter, the record \<open>mysql\<close>: what preparing a text gives
  (the number of parameters and the types of the result columns, or an error) and what executing it
  with bound parameters gives (the rows, or the stage that fails and its error). Reading memory that
  nothing was written to is the outcome \<open>Undefined\<close>. The buffers are freed in
  \<^theory_text>\<open>Stmt_Memory\<close>, the handle is closed in \<^theory_text>\<open>Lib_Calls\<close>.
\<close>

section \<open>Statements\<close>

datatype field_type =
    MYSQL_TYPE_TINY | MYSQL_TYPE_SHORT | MYSQL_TYPE_LONG | MYSQL_TYPE_LONGLONG
  | MYSQL_TYPE_DOUBLE | MYSQL_TYPE_FLOAT | MYSQL_TYPE_STRING | MYSQL_TYPE_VAR_STRING
  | MYSQL_TYPE_BLOB | MYSQL_TYPE_TIME | MYSQL_TYPE_DATE | MYSQL_TYPE_DATETIME
  | MYSQL_TYPE_TIMESTAMP | MYSQL_TYPE_OTHER

record mysql_time =
  tm_year :: nat
  tm_month :: nat
  tm_day :: nat
  tm_hour :: nat
  tm_minute :: nat
  tm_second :: nat

text \<open>The memory of a column; a floating-point number is kept as the text the stream prints.\<close>

datatype buffer = Unset_Buffer | Integer_Buffer "64 word" | Real_Buffer string
  | Bytes_Buffer string | Time_Buffer mysql_time

record column_data =
  col_type :: field_type
  col_buffer :: buffer
  col_is_null :: bool

datatype bind_param = Garbage | Bound_Int int | Bound_Double string | Bound_String string | Bound_Blob

datatype server_cell = Null_Cell | Cell buffer | Cell_Error string
datatype server_row = Row "server_cell list" | Row_Error string

record mysql =
  sql_prepare :: "string \<Rightarrow> string + (nat \<times> field_type list)"
  sql_execute :: "string \<Rightarrow> bind_param list \<Rightarrow> (nat \<times> string) list \<Rightarrow>
    (string \<times> string) + server_row list"

record db_stmt =
  m_handler :: mysql
  m_stmt :: string
  m_bind_in :: "bind_param list"
  m_param_count :: nat
  m_column_data :: "column_data list"
  m_blob_params :: "(nat \<times> string) list"
  m_rows :: "server_row list"

definition m_num_fields :: "db_stmt \<Rightarrow> nat" where
  "m_num_fields st = length (m_column_data st)"

text \<open>The constructor: fresh memory for the parameters and for the columns.\<close>

definition DBStmt_new :: "mysql \<Rightarrow> string \<Rightarrow> db_stmt outcome" where
  "DBStmt_new conn stmt =
     (case sql_prepare conn stmt of
        Inl msg \<Rightarrow> Throws (Db_Exception msg ''prepare'')
      | Inr (params, types) \<Rightarrow> Returns
          \<lparr>m_handler = conn, m_stmt = stmt, m_bind_in = replicate params Garbage,
           m_param_count = params,
           m_column_data = map (\<lambda>ty. \<lparr>col_type = ty, col_buffer = Unset_Buffer, col_is_null = False\<rparr>) types,
           m_blob_params = [], m_rows = []\<rparr>)"

definition bindInt :: "nat \<Rightarrow> int \<Rightarrow> db_stmt \<Rightarrow> db_stmt" where
  "bindInt colno v st =
     (if colno < m_param_count st then st\<lparr>m_bind_in := (m_bind_in st)[colno := Bound_Int v]\<rparr> else st)"

definition bindDouble :: "nat \<Rightarrow> string \<Rightarrow> db_stmt \<Rightarrow> db_stmt" where
  "bindDouble colno v st =
     (if colno < m_param_count st then st\<lparr>m_bind_in := (m_bind_in st)[colno := Bound_Double v]\<rparr> else st)"

definition bindString :: "nat \<Rightarrow> string \<Rightarrow> db_stmt \<Rightarrow> db_stmt" where
  "bindString colno v st =
     (if colno < m_param_count st then st\<lparr>m_bind_in := (m_bind_in st)[colno := Bound_String v]\<rparr> else st)"

definition bindBlob :: "nat \<Rightarrow> string \<Rightarrow> db_stmt \<Rightarrow> db_stmt" where
  "bindBlob colno v st =
     (if colno < m_param_count st
      then st\<lparr>m_bind_in := (m_bind_in st)[colno := Bound_Blob],
              m_blob_params := m_blob_params st @ [(colno, v)]\<rparr>
      else st)"

text \<open>Executing hands every parameter to the library, bound or not.\<close>

definition execute :: "db_stmt \<Rightarrow> db_stmt outcome" where
  "execute st =
     (if Garbage \<in> set (m_bind_in st) then Undefined
      else case sql_execute (m_handler st) (m_stmt st) (m_bind_in st) (m_blob_params st) of
             Inl (stage, msg) \<Rightarrow> Throws (Db_Exception msg stage)
           | Inr rows \<Rightarrow> Returns (st\<lparr>m_rows := rows\<rparr>))"

text \<open>
  One column of a fetched row. For a NULL the library sets the flag and writes nothing else: other
  columns keep the bytes of the row before, a BLOB gets new memory of the length it had.
\<close>

definition fetch_column :: "column_data \<Rightarrow> server_cell \<Rightarrow> column_data outcome" where
  "fetch_column col cell =
     (case cell of
        Cell b \<Rightarrow> Returns (col\<lparr>col_buffer := b, col_is_null := False\<rparr>)
      | Cell_Error msg \<Rightarrow>
          (if col_type col = MYSQL_TYPE_BLOB then Throws (Db_Exception msg ''fetch_column'')
           else Throws (Db_Exception msg ''stmt_fetch''))
      | Null_Cell \<Rightarrow> Returns (col\<lparr>col_is_null := True,
            col_buffer := (if col_type col = MYSQL_TYPE_BLOB \<and> col_buffer col \<noteq> Bytes_Buffer []
                           then Unset_Buffer else col_buffer col)\<rparr>))"

fun fetch_columns :: "column_data list \<Rightarrow> server_cell list \<Rightarrow> column_data list outcome" where
  "fetch_columns (col # cols) (cell # cells) =
     bind_outcome (fetch_column col cell) (\<lambda>col'.
       bind_outcome (fetch_columns cols cells) (\<lambda>cols'. Returns (col' # cols')))"
| "fetch_columns cols cells = Returns cols"

definition fetch :: "db_stmt \<Rightarrow> (bool \<times> db_stmt) outcome" where
  "fetch st =
     (case m_rows st of
        [] \<Rightarrow> Returns (False, st)
      | Row_Error msg # _ \<Rightarrow> Throws (Db_Exception msg ''stmt_fetch'')
      | Row cells # rows \<Rightarrow>
          bind_outcome (fetch_columns (m_column_data st) cells) (\<lambda>cols.
            Returns (True, st\<lparr>m_column_data := cols, m_rows := rows\<rparr>)))"

text \<open>The loop \<open>while(stmt.fetch())\<close> over the rows, with a state that its body changes.\<close>

lemma fetch_decreases: "fetch st = Returns (True, st') \<Longrightarrow> length (m_rows st') < length (m_rows st)"
  by (auto simp: fetch_def unpack split: list.splits server_row.splits)

function while_fetch :: "(db_stmt \<Rightarrow> 'a \<Rightarrow> 'a outcome) \<Rightarrow> db_stmt \<Rightarrow> 'a \<Rightarrow> 'a outcome" where
  "while_fetch body st acc =
     (case fetch st of
        Returns (got, st') \<Rightarrow>
          (if got then
             (case body st' acc of
                Returns acc' \<Rightarrow> while_fetch body st' acc'
              | Throws e \<Rightarrow> Throws e | Undefined \<Rightarrow> Undefined | Diverges \<Rightarrow> Diverges)
           else Returns acc)
      | Throws e \<Rightarrow> Throws e | Undefined \<Rightarrow> Undefined | Diverges \<Rightarrow> Diverges)"
  by pat_completeness auto
termination
  by (relation "measure (\<lambda>(_, st, _). length (m_rows st))") (auto dest: fetch_decreases)

declare while_fetch.simps [simp del]

text \<open>Closing a statement can fail too, and then the destructor throws.\<close>

definition DBStmt_delete :: "string option \<Rightarrow> unit outcome" where
  "DBStmt_delete close_error =
     (case close_error of None \<Rightarrow> Returns () | Some msg \<Rightarrow> Throws (Db_Exception msg ''stmt_close''))"

text \<open>The number of an inserted row, of 64 bits, cut to an \<open>int\<close>.\<close>

definition last_inserted_id :: "64 word \<Rightarrow> int" where
  "last_inserted_id insert_id = sint (ucast insert_id :: 32 word)"

section \<open>Connections\<close>

record db_cred =
  cred_host :: string
  cred_user :: string
  cred_passwd :: string
  cred_db :: string
  cred_port :: nat

text \<open>The library's connect gets C strings; it gives a connection or an error text.\<close>

definition DBConn_new ::
  "(string \<Rightarrow> string \<Rightarrow> string \<Rightarrow> string \<Rightarrow> nat \<Rightarrow> string + mysql) \<Rightarrow> db_cred \<Rightarrow> mysql result" where
  "DBConn_new real_connect cred =
     (case real_connect (c_str (cred_host cred)) (c_str (cred_user cred))
        (c_str (cred_passwd cred)) (c_str (cred_db cred)) (cred_port cred) of
        Inl msg \<Rightarrow> Inl (Db_Exception msg ''unknown'')
      | Inr conn \<Rightarrow> Inr conn)"

lemma last_inserted_id_exact:
  assumes "uint insert_id < 2147483648"
  shows "last_inserted_id insert_id = uint insert_id"
proof -
  have "- (2 ^ 31) \<le> uint insert_id" by (rule order_trans[of _ 0]) simp_all
  then have "signed_take_bit 31 (uint insert_id) = uint insert_id"
    using assms by (intro signed_take_bit_int_eq_self) simp_all
  then show ?thesis using assms by (simp add: last_inserted_id_def sint_uint unsigned_ucast_eq take_bit_eq_mod)
qed

section \<open>Columns as text\<close>

definition convert_timestamp :: "mysql_time \<Rightarrow> string" where
  "convert_timestamp ts =
     setw0 4 (tm_year ts) @ ''-'' @ setw0 2 (tm_month ts) @ ''-'' @ setw0 2 (tm_day ts) @ '' '' @
     setw0 2 (tm_hour ts) @ '':'' @ setw0 2 (tm_minute ts) @ '':'' @ setw0 2 (tm_second ts)"

text \<open>The integer types read so many low bytes of the buffer as a signed number.\<close>

definition integer_of :: "field_type \<Rightarrow> 64 word \<Rightarrow> int option" where
  "integer_of ty w =
     (case ty of
        MYSQL_TYPE_TINY \<Rightarrow> Some (sint (ucast w :: 8 word))
      | MYSQL_TYPE_SHORT \<Rightarrow> Some (sint (ucast w :: 16 word))
      | MYSQL_TYPE_LONG \<Rightarrow> Some (sint (ucast w :: 32 word))
      | MYSQL_TYPE_LONGLONG \<Rightarrow> Some (sint w)
      | _ \<Rightarrow> None)"

definition column_to_string :: "column_data \<Rightarrow> string outcome" where
  "column_to_string col =
     (if col_type col \<in> {MYSQL_TYPE_TINY, MYSQL_TYPE_SHORT, MYSQL_TYPE_LONG, MYSQL_TYPE_LONGLONG} then
        (case col_buffer col of
           Integer_Buffer w \<Rightarrow> Returns (show_int (the (integer_of (col_type col) w)))
         | _ \<Rightarrow> Undefined)
      else if col_type col \<in> {MYSQL_TYPE_DOUBLE, MYSQL_TYPE_FLOAT} then
        (case col_buffer col of Real_Buffer s \<Rightarrow> Returns s | _ \<Rightarrow> Undefined)
      else if col_type col \<in> {MYSQL_TYPE_STRING, MYSQL_TYPE_VAR_STRING, MYSQL_TYPE_BLOB} then
        (case col_buffer col of Bytes_Buffer s \<Rightarrow> Returns s | _ \<Rightarrow> Undefined)
      else if col_type col = MYSQL_TYPE_TIME then
        Throws (Db_Exception (''Don'' @ [CHR 0x27] @ ''t know how to convert type MYSQL_TYPE_TIME'') ''stmt_fetch'')
      else if col_type col = MYSQL_TYPE_DATE then
        Throws (Db_Exception (''Don'' @ [CHR 0x27] @ ''t know how to convert type MYSQL_TYPE_DATE'') ''stmt_fetch'')
      else if col_type col \<in> {MYSQL_TYPE_DATETIME, MYSQL_TYPE_TIMESTAMP} then
        (case col_buffer col of Time_Buffer t \<Rightarrow> Returns (convert_timestamp t) | _ \<Rightarrow> Undefined)
      else Returns [])"

definition asString :: "db_stmt \<Rightarrow> nat \<Rightarrow> string outcome" where
  "asString st colno =
     (if m_num_fields st \<le> colno then Returns [] else column_to_string (m_column_data st ! colno))"

text \<open>Extraction of an \<open>int\<close>: white space, a sign, digits; \<open>None\<close> when it fails and
  leaves the variable as it was, which is uninitialised.\<close>

definition read_int :: "string \<Rightarrow> int option" where
  "read_int s =
     (let t = dropWhile is_space s;
          neg = (t \<noteq> [] \<and> hd t = CHR ''-'');
          u = (if t \<noteq> [] \<and> (hd t = CHR ''-'' \<or> hd t = CHR ''+'') then tl t else t);
          ds = takeWhile is_digit u;
          v = (if neg then - int (digits_val ds) else int (digits_val ds))
      in if ds = [] \<or> v < - 2147483648 \<or> 2147483647 < v then None else Some v)"

definition asInt :: "db_stmt \<Rightarrow> nat \<Rightarrow> int outcome" where
  "asInt st colno =
     bind_outcome (asString st colno) (\<lambda>s. case read_int s of None \<Rightarrow> Undefined | Some v \<Rightarrow> Returns v)"

definition is_null :: "db_stmt \<Rightarrow> nat \<Rightarrow> bool outcome" where
  "is_null st colno =
     (if m_num_fields st \<le> colno then Undefined else Returns (col_is_null (m_column_data st ! colno)))"

section \<open>Named locks of the database\<close>

definition DBScopedLock_new :: "mysql \<Rightarrow> string \<Rightarrow> unit outcome" where
  "DBScopedLock_new conn lockname =
     (let failed = Throws (Db_Exception ''cannot optain version lock'' ''get_lock'') in
      bind_outcome (DBStmt_new conn ''select get_lock(?, 0)'') (\<lambda>st.
      bind_outcome (execute (bindString 0 lockname st)) (\<lambda>st.
      bind_outcome (fetch st) (\<lambda>(got, st).
        if \<not> got then failed
        else bind_outcome (is_null st 0) (\<lambda>null.
          if null then failed
          else bind_outcome (asInt st 0) (\<lambda>v. if v \<noteq> 1 then failed else Returns ()))))))"

definition DBScopedLock_delete :: "mysql \<Rightarrow> string \<Rightarrow> unit outcome" where
  "DBScopedLock_delete conn lockname =
     bind_outcome (DBStmt_new conn ''do release_lock(?)'') (\<lambda>st.
     bind_outcome (execute (bindString 0 lockname st)) (\<lambda>_. Returns ()))"

section \<open>Reading back what a column holds\<close>

lemma read_int_show_int:
  "read_int (show_int v) = (if - 2147483648 \<le> v \<and> v \<le> 2147483647 then Some v else None)"
proof -
  define n where "n = nat \<bar>v\<bar>"
  note D = show_nat_digits[of n]
  obtain d ds where s: "show_nat n = d # ds" using show_nat_nonempty by (cases "show_nat n") auto
  have d: "\<not> is_space d" "d \<noteq> CHR ''-''" "d \<noteq> CHR ''+''" using D digit_not_special[of d] by (auto simp: s)
  have tw: "takeWhile is_digit (d # ds) = d # ds" using takeWhile_digits[OF D] s by simp
  have val: "digits_val (d # ds) = n" using digits_val_show_nat[of n] s by simp
  show ?thesis
  proof (cases "v < 0")
    case True
    then have v: "show_int v = CHR ''-'' # d # ds" "v = - int n"
      using s by (simp_all add: show_int_def n_def)
    then show ?thesis using True unfolding read_int_def v(1) Let_def
      by (simp add: is_space_def tw val del: takeWhile.simps)
  next
    case False
    then have v: "show_int v = d # ds" "v = int n" using s by (simp_all add: show_int_def n_def)
    then show ?thesis using False d unfolding read_int_def v(1) Let_def
      by (simp add: tw val del: takeWhile.simps)
  qed
qed

text \<open>An integer column read through text and back gives the number of the column's width, as a
  signed number; a \<open>LONGLONG\<close> that does not fit into an \<open>int\<close> leaves the result
  uninitialised.\<close>

theorem integer_column_roundtrip:
  assumes "c < m_num_fields st" "col_buffer (m_column_data st ! c) = Integer_Buffer w"
    "integer_of (col_type (m_column_data st ! c)) w = Some v"
  shows "asInt st c = (if - 2147483648 \<le> v \<and> v \<le> 2147483647 then Returns v else Undefined)"
proof -
  have "asString st c = Returns (show_int v)"
    using assms by (auto simp: asString_def column_to_string_def integer_of_def split: field_type.splits)
  then show ?thesis
    by (simp add: asInt_def read_int_show_int)
qed

text \<open>A statement with one column, for the examples.\<close>

definition one_column :: "field_type \<Rightarrow> buffer \<Rightarrow> server_row list \<Rightarrow> db_stmt" where
  "one_column ty b rows =
     \<lparr>m_handler = \<lparr>sql_prepare = (\<lambda>_. Inr (0, [ty])), sql_execute = (\<lambda>_ _ _. Inr rows)\<rparr>, m_stmt = [],
      m_bind_in = [], m_param_count = 0,
      m_column_data = [\<lparr>col_type = ty, col_buffer = b, col_is_null = False\<rparr>], m_blob_params = [],
      m_rows = rows\<rparr>"

theorem integer_column_roundtrip_witness:
  "asInt (one_column MYSQL_TYPE_TINY (Integer_Buffer 255) []) 0 = Returns (-1)"
  using integer_column_roundtrip[of 0 "one_column MYSQL_TYPE_TINY (Integer_Buffer 255) []" 255 "-1"]
  by (simp add: one_column_def m_num_fields_def integer_of_def)

lemma list_of_2: "length xs = 2 \<Longrightarrow> \<exists>a b. xs = [a, b]"
  by (auto simp: length_Suc_conv numeral_2_eq_2)

lemma list_of_4: "length xs = 4 \<Longrightarrow> \<exists>a b c d. xs = [a, b, c, d]"
  by (auto simp: length_Suc_conv eval_nat_numeral)

text \<open>A date column is printed in exactly 19 characters, of which the eleventh is the blank that the
  sitemap replaces, and each of its six numbers can be read back at its place.\<close>

theorem timestamp_text:
  assumes "tm_year t < 10000" "tm_month t < 100" "tm_day t < 100" "tm_hour t < 100"
    "tm_minute t < 100" "tm_second t < 100"
  shows "length (convert_timestamp t) = 19 \<and> convert_timestamp t ! 10 = CHR '' ''
    \<and> map (\<lambda>(pos, n). digits_val (take n (drop pos (convert_timestamp t))))
        [(0, 4), (5, 2), (8, 2), (11, 2), (14, 2), (17, 2)]
      = [tm_year t, tm_month t, tm_day t, tm_hour t, tm_minute t, tm_second t]"
proof -
  have four: "\<exists>a b c d. setw0 4 n = [a, b, c, d]" if "n < 10000" for n
  proof -
    have "length (setw0 4 n) = 4" using length_setw0[of n 3] that by simp
    then show ?thesis by (rule list_of_4)
  qed
  have two: "\<exists>a b. setw0 2 n = [a, b]" if "n < 100" for n
  proof -
    have "length (setw0 2 n) = 2" using length_setw0[of n 1] that by (simp add: numeral_2_eq_2)
    then show ?thesis by (rule list_of_2)
  qed
  obtain y1 y2 y3 y4 where y: "setw0 4 (tm_year t) = [y1, y2, y3, y4]" using four assms(1) by blast
  obtain m1 m2 where m: "setw0 2 (tm_month t) = [m1, m2]" using two assms(2) by blast
  obtain d1 d2 where d: "setw0 2 (tm_day t) = [d1, d2]" using two assms(3) by blast
  obtain h1 h2 where h: "setw0 2 (tm_hour t) = [h1, h2]" using two assms(4) by blast
  obtain i1 i2 where i: "setw0 2 (tm_minute t) = [i1, i2]" using two assms(5) by blast
  obtain s1 s2 where s: "setw0 2 (tm_second t) = [s1, s2]" using two assms(6) by blast
  have vals: "digits_val [y1, y2, y3, y4] = tm_year t" "digits_val [m1, m2] = tm_month t"
    "digits_val [d1, d2] = tm_day t" "digits_val [h1, h2] = tm_hour t"
    "digits_val [i1, i2] = tm_minute t" "digits_val [s1, s2] = tm_second t"
    unfolding y[symmetric] m[symmetric] d[symmetric] h[symmetric] i[symmetric] s[symmetric]
    by (rule digits_val_setw0)+
  have "convert_timestamp t = [y1, y2, y3, y4, CHR ''-'', m1, m2, CHR ''-'', d1, d2, CHR '' '',
      h1, h2, CHR '':'', i1, i2, CHR '':'', s1, s2]"
    by (simp add: convert_timestamp_def y m d h i s)
  then show ?thesis by (simp add: vals)
qed

theorem timestamp_text_witness:
  "convert_timestamp \<lparr>tm_year = 2012, tm_month = 3, tm_day = 9, tm_hour = 0, tm_minute = 5, tm_second = 59\<rparr> ! 10
     = CHR '' ''"
  using timestamp_text[of "\<lparr>tm_year = 2012, tm_month = 3, tm_day = 9, tm_hour = 0, tm_minute = 5, tm_second = 59\<rparr>"]
  by simp

lemma fetch_columns_nth:
  "fetch_columns cols cells = Returns cols' \<Longrightarrow> length cells = length cols \<Longrightarrow>
   length cols' = length cols \<and>
   (\<forall>c < length cols. fetch_column (cols ! c) (cells ! c) = Returns (cols' ! c))"
proof (induction cols cells arbitrary: cols' rule: fetch_columns.induct)
  case (1 col cols cell cells)
  then obtain col' cols1 where "fetch_column col cell = Returns col'"
    "fetch_columns cols cells = Returns cols1" "cols' = col' # cols1"
    by (auto simp: unpack)
  with 1 show ?case by (auto simp: nth_Cons split: nat.splits)
qed auto

lemma column_to_string_flag [simp]:
  "column_to_string (col\<lparr>col_is_null := b\<rparr>) = column_to_string col"
  by (cases col) (simp add: column_to_string_def cong: buffer.case_cong)

text \<open>A loop over rows without NULLs runs its body on each row, whatever was in the columns before.\<close>

definition columns_of :: "field_type list \<Rightarrow> buffer list \<Rightarrow> column_data list" where
  "columns_of tys bs = map2 (\<lambda>ty b. \<lparr>col_type = ty, col_buffer = b, col_is_null = False\<rparr>) tys bs"

definition full_rows :: "buffer list list \<Rightarrow> server_row list" where
  "full_rows rows = map (\<lambda>bs. Row (map Cell bs)) rows"

lemma fetch_columns_full:
  "length bs = length cols \<Longrightarrow>
   fetch_columns cols (map Cell bs) = Returns (columns_of (map col_type cols) bs)"
proof (induction cols arbitrary: bs)
  case (Cons col cols)
  then show ?case
    by (cases bs; cases col) (auto simp: fetch_column_def columns_of_def)
qed (simp add: columns_of_def)

lemma map_col_type_columns_of [simp]: "length bs = length tys \<Longrightarrow> map col_type (columns_of tys bs) = tys"
  by (induction tys bs rule: list_induct2') (auto simp: columns_of_def)

lemma while_fetch_full:
  assumes "m_rows st = full_rows rows" "map col_type (m_column_data st) = tys"
    and "\<forall>bs \<in> set rows. length bs = length tys"
    and "\<And>bs st' acc. bs \<in> set rows \<Longrightarrow> m_column_data st' = columns_of tys bs \<Longrightarrow> body st' acc = Returns (g bs acc)"
  shows "while_fetch body st acc = Returns (fold g rows acc)"
  using assms
proof (induction rows arbitrary: st acc)
  case Nil
  then show ?case by (subst while_fetch.simps) (simp add: fetch_def full_rows_def)
next
  case (Cons bs rows)
  let ?st = "st\<lparr>m_column_data := columns_of tys bs, m_rows := full_rows rows\<rparr>"
  have "fetch st = Returns (True, ?st)"
    using Cons.prems(1-3) by (auto simp: fetch_def full_rows_def fetch_columns_full)
  moreover have "while_fetch body ?st a = Returns (fold g rows a)" for a
    using Cons.prems(3,4) by (intro Cons.IH) auto
  moreover have "body ?st acc = Returns (g bs acc)" using Cons.prems(4) by simp
  ultimately show ?case by (subst while_fetch.simps) simp
qed

text \<open>A NULL is read as the row before: after a fetch that finds NULL in a column that is not a BLOB,
  the text of the column is what it was, and its flag is not asked for by \<open>asString\<close>.\<close>

theorem null_column_reads_previous_row:
  assumes "m_rows st = Row cells # rows" "length cells = m_num_fields st" "c < m_num_fields st"
    and "cells ! c = Null_Cell" "col_type (m_column_data st ! c) \<noteq> MYSQL_TYPE_BLOB"
    and "fetch st = Returns (got, st')"
  shows "got \<and> is_null st' c = Returns True \<and> asString st' c = asString st c"
proof -
  obtain cols where cols: "fetch_columns (m_column_data st) cells = Returns cols"
    "got" "st' = st\<lparr>m_column_data := cols, m_rows := rows\<rparr>"
    using assms(1,6) by (auto simp: fetch_def unpack)
  note n = fetch_columns_nth[OF cols(1)]
  have "fetch_column (m_column_data st ! c) Null_Cell = Returns (cols ! c)" "length cols = m_num_fields st"
    using n assms(2-4) by (auto simp: m_num_fields_def)
  then have "cols ! c = (m_column_data st ! c)\<lparr>col_is_null := True\<rparr>"
    using assms(5) by (simp add: fetch_column_def)
  then show ?thesis
    using cols(2,3) assms(3) \<open>length cols = m_num_fields st\<close>
    by (simp add: is_null_def asString_def m_num_fields_def)
qed

theorem null_column_reads_previous_row_witness:
  "\<exists>st'. fetch (one_column MYSQL_TYPE_STRING (Bytes_Buffer ''old'') [Row [Null_Cell]]) = Returns (True, st') \<and>
     asString st' 0 = Returns ''old''"
proof -
  let ?st = "one_column MYSQL_TYPE_STRING (Bytes_Buffer ''old'') [Row [Null_Cell]]"
  obtain st' where f: "fetch ?st = Returns (True, st')"
    by (simp add: one_column_def fetch_def fetch_column_def)
  have st: "m_rows ?st = Row [Null_Cell] # []" "length [Null_Cell] = m_num_fields ?st"
    "0 < m_num_fields ?st" "[Null_Cell] ! 0 = Null_Cell"
    "col_type (m_column_data ?st ! 0) \<noteq> MYSQL_TYPE_BLOB"
    by (simp_all add: one_column_def m_num_fields_def)
  have "asString ?st 0 = Returns ''old''"
    by (simp add: asString_def m_num_fields_def one_column_def column_to_string_def)
  with null_column_reads_previous_row[OF st f] f show ?thesis by auto
qed

end
