(* ===== verification/Xml.thy ===== *)
theory Xml
  imports Prelude
begin

text \<open>
  Documents built through libxml2 (the classes \<open>XMLText\<close>, \<open>XMLNode\<close> and
  \<open>XMLDoc\<close> of \<^verbatim>\<open>src/server/xml.h\<close>). libxml2 is not modelled: a node is the
  record of the calls that built it, in their order, and writing a document is a parameter
  \<open>dump\<close> from that record to the text, or \<open>None\<close> when there is no memory. Names and
  attribute values are handed over as C strings, text with its length.
\<close>

datatype xml_node = Elem string "node_call list" | Text string
  and node_call = New_Prop string string | Add_Child xml_node

definition XMLNode_new :: "string \<Rightarrow> xml_node" where
  "XMLNode_new name = Elem (c_str name) []"

text \<open>A call on a node; libxml2 gets no other calls on a text node here.\<close>

fun node_call_on :: "node_call \<Rightarrow> xml_node \<Rightarrow> xml_node" where
  "node_call_on c (Elem name calls) = Elem name (calls @ [c])"
| "node_call_on c (Text s) = Text s"

definition node_add :: "xml_node \<Rightarrow> xml_node \<Rightarrow> xml_node" where
  "node_add child n = node_call_on (Add_Child child) n"

definition add_text :: "string \<Rightarrow> xml_node \<Rightarrow> xml_node" where
  "add_text content n = node_add (Text content) n"

definition set_attr :: "string \<Rightarrow> string \<Rightarrow> xml_node \<Rightarrow> xml_node" where
  "set_attr name val n = node_call_on (New_Prop (c_str name) (c_str val)) n"

definition set_attr_int :: "string \<Rightarrow> int \<Rightarrow> xml_node \<Rightarrow> xml_node" where
  "set_attr_int name val n = set_attr name (show_int val) n"

record xml_doc =
  doc_version :: string
  doc_ns :: "string option"
  doc_root :: xml_node
  doc_pis :: "(string \<times> string) list"

definition XMLDoc_new :: "string \<Rightarrow> string \<Rightarrow> xml_doc" where
  "XMLDoc_new rootname version =
     \<lparr>doc_version = c_str version, doc_ns = None, doc_root = XMLNode_new rootname, doc_pis = []\<rparr>"

definition XMLDoc_new_ns :: "string \<Rightarrow> string \<Rightarrow> string \<Rightarrow> xml_doc" where
  "XMLDoc_new_ns rootname rootns version =
     \<lparr>doc_version = c_str version, doc_ns = Some (c_str rootns), doc_root = XMLNode_new rootname, doc_pis = []\<rparr>"

definition doc_add :: "xml_node \<Rightarrow> xml_doc \<Rightarrow> xml_doc" where
  "doc_add n doc = doc\<lparr>doc_root := node_add n (doc_root doc)\<rparr>"

text \<open>Each instruction goes directly before the root, that is behind the earlier ones.\<close>

definition add_pi :: "string \<Rightarrow> string \<Rightarrow> xml_doc \<Rightarrow> xml_doc" where
  "add_pi name content doc = doc\<lparr>doc_pis := doc_pis doc @ [(c_str name, c_str content)]\<rparr>"

definition doc_text :: "(xml_doc \<Rightarrow> string option) \<Rightarrow> xml_doc \<Rightarrow> string result" where
  "doc_text dump doc =
     (case dump doc of None \<Rightarrow> Inl (Runtime_Error ''cannot serialize document'') | Some s \<Rightarrow> Inr s)"

text \<open>The children of the root, as the sequence of what was added.\<close>

fun children :: "xml_node \<Rightarrow> xml_node list" where
  "children (Elem name calls) = List.map_filter (\<lambda>c. case c of Add_Child n \<Rightarrow> Some n | _ \<Rightarrow> None) calls"
| "children (Text s) = []"

lemma children_node_add [simp]: "children (node_add c (Elem n cs)) = children (Elem n cs) @ [c]"
  by (simp add: node_add_def map_filter_def)

definition is_elem :: "xml_node \<Rightarrow> bool" where
  "is_elem n \<longleftrightarrow> (case n of Elem _ _ \<Rightarrow> True | _ \<Rightarrow> False)"

lemma is_elem_simps [simp]:
  "is_elem (XMLNode_new name)" "is_elem (node_add c n) = is_elem n"
  by (cases n; simp add: is_elem_def XMLNode_new_def node_add_def)+

lemma children_add [simp]: "is_elem n \<Longrightarrow> children (node_add c n) = children n @ [c]"
  by (cases n) (auto simp: is_elem_def)

lemma fold_node_add:
  "fold (\<lambda>x. node_add (f x)) xs (Elem n cs) = Elem n (cs @ map (Add_Child \<circ> f) xs)"
  by (induction xs arbitrary: cs) (simp_all add: node_add_def)

end
