(* ===== verification/Wp_Handler.thy ===== *)
theory Wp_Handler
  imports Server Db_Stmt Xml
begin

text \<open>
  The handler of the blog's pages (the class \<open>wp_handler\<close> of
  \<^verbatim>\<open>src/server/wp_handler.cpp\<close>): the front page with the last posts, a post by its
  name, the category and author pages, and the error page.

  What \<open>DBPool::get\<close> gives the request, a connection or an exception, is an argument, and so is
  the text libxml2 writes for a document. A handler's outcome is the exception that leaves it, if
  any, and the response as it then is.
\<close>

section \<open>Pages\<close>

type_synonym handled = "(exn option \<times> fcgi_response) outcome"

abbreviation CRLF :: string where "CRLF \<equiv> [CR, LF]"

definition out :: "string \<Rightarrow> fcgi_response \<Rightarrow> fcgi_response" where
  "out s rs = rs\<lparr>fcgi_out := fcgi_out rs @ s\<rparr>"

definition return_error :: "fcgi_response \<Rightarrow> string \<Rightarrow> int \<Rightarrow> fcgi_response" where
  "return_error rs msg status =
     out (''Status: '' @ show_int status @ CRLF @ ''Content-Type: text/html'' @ CRLF @ CRLF @
          ''<html>'' @ ''<head>'' @ ''<title>Error</title>'' @ ''</head>'' @ ''<body>'' @
          ''<h2>An error has occured</h2>'' @ ''<p>'' @ msg @ ''</p>'' @ ''</body>'' @ ''</html>'') rs"

definition content_type_of :: "fcgi_request \<Rightarrow> string" where
  "content_type_of rq = (if get_param rq ''showxml'' \<noteq> ''yes'' then ''text/xml'' else ''application/xml'')"

definition with_stylesheet :: "fcgi_request \<Rightarrow> xml_doc \<Rightarrow> xml_doc" where
  "with_stylesheet rq doc =
     (if get_param rq ''showxml'' \<noteq> ''yes''
      then add_pi ''modxslt-stylesheet''
             (''type='' @ [QUOTE] @ ''text/xsl'' @ [QUOTE] @ '' href='' @ [QUOTE] @ ''xsl/feedback.xsl'' @ [QUOTE]) doc
      else doc)"

text \<open>Headers first, then the document; a document that cannot be written throws in between.\<close>

definition write_page ::
  "(xml_doc \<Rightarrow> string option) \<Rightarrow> string \<Rightarrow> xml_doc \<Rightarrow> fcgi_response \<Rightarrow> exn option \<times> fcgi_response" where
  "write_page dump ctype doc rs =
     (let rs1 = out (''Status: 200'' @ CRLF @ ''Content-Type: '' @ ctype @ CRLF @ CRLF) rs
      in case doc_text dump doc of Inl e \<Rightarrow> (Some e, rs1) | Inr s \<Rightarrow> (None, out s rs1))"

text \<open>The \<open>catch(const db_exception &e)\<close> of every page.\<close>

definition catch_db :: "fcgi_response \<Rightarrow> 'a outcome \<Rightarrow> ('a \<Rightarrow> handled) \<Rightarrow> handled" where
  "catch_db rs r k =
     (case r of
        Returns a \<Rightarrow> k a
      | Throws e \<Rightarrow>
          (case e of Db_Exception msg stage \<Rightarrow> Returns (None, return_error rs (c_str msg) 200)
           | _ \<Rightarrow> Returns (Some e, rs))
      | Undefined \<Rightarrow> Undefined
      | Diverges \<Rightarrow> Diverges)"

definition return_success ::
  "(xml_doc \<Rightarrow> string option) \<Rightarrow> fcgi_request \<Rightarrow> fcgi_response \<Rightarrow> int \<Rightarrow> exn option \<times> fcgi_response" where
  "return_success dump rq rs document_id =
     write_page dump (content_type_of rq)
       (doc_add (set_attr_int ''id'' document_id (XMLNode_new ''document''))
         (with_stylesheet rq (XMLDoc_new ''page'' ''1.0''))) rs"

definition handle_get ::
  "(xml_doc \<Rightarrow> string option) \<Rightarrow> fcgi_request \<Rightarrow> fcgi_response \<Rightarrow> exn option \<times> fcgi_response" where
  "handle_get dump rq rs =
     write_page dump (content_type_of rq) (with_stylesheet rq (XMLDoc_new ''page'' ''1.0'')) rs"

section \<open>The front page\<close>

definition blogroll_sql :: string where
  "blogroll_sql = ''select id, post_title, post_excerpt, post_content from wp_posts where post_status='' @
     [CHR 0x27] @ ''publish'' @ [CHR 0x27] @ ''  and post_type='' @ [CHR 0x27] @ ''post'' @ [CHR 0x27] @
     '' order by post_date_gmt desc limit 10''"

definition text_element :: "string \<Rightarrow> string \<Rightarrow> xml_node" where
  "text_element name content = add_text content (XMLNode_new name)"

text \<open>The content up to the "more" mark, or all of it.\<close>

definition content_element :: "string \<Rightarrow> xml_node" where
  "content_element content =
     (let more_pos = find_str content ''<!--more-->'' 0
      in if more_pos \<noteq> npos
         then add_text (take more_pos content) (set_attr ''more'' ''yes'' (XMLNode_new ''content''))
         else add_text content (XMLNode_new ''content''))"

definition blogroll_row :: "db_stmt \<Rightarrow> xml_node \<Rightarrow> xml_node outcome" where
  "blogroll_row st posts =
     bind_outcome (asInt st 0) (\<lambda>post_id.
     bind_outcome (asString st 1) (\<lambda>title.
     bind_outcome (asString st 2) (\<lambda>excerpt.
     bind_outcome (asString st 3) (\<lambda>content.
       Returns (node_add
         (node_add (content_element content)
           (node_add (text_element ''excerpt'' excerpt)
             (node_add (text_element ''title'' title)
               (set_attr_int ''id'' post_id (XMLNode_new ''post''))))) posts)))))"

definition handle_blogroll ::
  "(xml_doc \<Rightarrow> string option) \<Rightarrow> mysql outcome \<Rightarrow> fcgi_request \<Rightarrow> fcgi_response \<Rightarrow> handled" where
  "handle_blogroll dump get_conn rq rs =
     catch_db rs
       (bind_outcome get_conn (\<lambda>conn.
        bind_outcome (DBStmt_new conn blogroll_sql) (\<lambda>st.
        bind_outcome (execute st) (\<lambda>st.
        while_fetch blogroll_row st (XMLNode_new ''posts'')))))
       (\<lambda>posts. Returns (write_page dump (content_type_of rq)
          (doc_add posts (with_stylesheet rq (XMLDoc_new ''page'' ''1.0''))) rs))"

section \<open>Posts, categories, authors\<close>

definition by_name_sql :: "string \<Rightarrow> string" where
  "by_name_sql cols = ''select '' @ cols @ '' from wp_posts where post_status='' @ [CHR 0x27] @ ''publish'' @
     [CHR 0x27] @ '' and post_name=?''"

text \<open>Both bind the parameter with the index 1 where the first and only one has the index 0.\<close>

definition handle_category :: "mysql outcome \<Rightarrow> fcgi_response \<Rightarrow> string \<Rightarrow> handled" where
  "handle_category get_conn rs name =
     catch_db rs
       (bind_outcome get_conn (\<lambda>conn.
        bind_outcome (DBStmt_new conn (by_name_sql ''ID'')) (\<lambda>st.
        bind_outcome (execute (bindString 1 name st)) fetch)))
       (\<lambda>_. Returns (None, rs))"

definition handle_author :: "mysql outcome \<Rightarrow> fcgi_response \<Rightarrow> string \<Rightarrow> handled" where
  "handle_author get_conn rs name =
     catch_db rs
       (bind_outcome get_conn (\<lambda>conn.
        bind_outcome (DBStmt_new conn (by_name_sql ''ID'')) (\<lambda>st.
        bind_outcome (execute (bindString 1 name st)) fetch)))
       (\<lambda>_. Returns (None, rs))"

definition post_document :: "db_stmt \<Rightarrow> xml_node outcome" where
  "post_document st =
     bind_outcome (asInt st 0) (\<lambda>post_id.
     bind_outcome (asString st 1) (\<lambda>content.
       Returns (add_text content (set_attr_int ''id'' post_id (XMLNode_new ''post'')))))"

definition handle_404 :: "fcgi_response \<Rightarrow> fcgi_response" where
  "handle_404 rs = return_error rs ''page does not exist'' 404"

text \<open>The post, with the 404 page of \<open>handle\<close> for the result false.\<close>

definition handle_post ::
  "(xml_doc \<Rightarrow> string option) \<Rightarrow> mysql outcome \<Rightarrow> fcgi_request \<Rightarrow> fcgi_response \<Rightarrow> string \<Rightarrow> handled" where
  "handle_post dump get_conn rq rs name =
     catch_db rs
       (bind_outcome get_conn (\<lambda>conn.
        bind_outcome (DBStmt_new conn (by_name_sql ''id, post_content'')) (\<lambda>st.
        bind_outcome (execute (bindString 0 name st)) (\<lambda>st.
        bind_outcome (fetch st) (\<lambda>(got, st).
          if \<not> got then Returns None else bind_outcome (post_document st) (\<lambda>n. Returns (Some n)))))))
       (\<lambda>found. case found of
          None \<Rightarrow> Returns (None, handle_404 rs)
        | Some post \<Rightarrow> Returns (write_page dump (content_type_of rq)
            (doc_add post (with_stylesheet rq (XMLDoc_new ''page'' ''1.0''))) rs))"

definition wp_handle ::
  "(xml_doc \<Rightarrow> string option) \<Rightarrow> mysql outcome \<Rightarrow> fcgi_request \<Rightarrow> fcgi_response \<Rightarrow> handled" where
  "wp_handle dump get_conn rq rs =
     (let script_name = get_fcgi_param rq ''SCRIPT_NAME'';
          rest = (\<lambda>n k. case std_substr script_name n npos of
                         Inl e \<Rightarrow> Returns (Some e, rs) | Inr name \<Rightarrow> k name)
      in if script_name = ''/'' \<or> script_name = [] then handle_blogroll dump get_conn rq rs
         else if find_str script_name ''/category/'' 0 = 0 then
           rest (length ''/category/'') (handle_category get_conn rs)
         else if find_str script_name ''/author/'' 0 = 0 then
           rest (length ''/author/'') (handle_author get_conn rs)
         else rest 1 (handle_post dump get_conn rq rs))"

section \<open>What the pages are\<close>

lemma catch_db_simps [simp]:
  "catch_db rs (Returns a) k = k a"
  "catch_db rs (Throws (Db_Exception msg stage)) k = Returns (None, return_error rs (c_str msg) 200)"
  "catch_db rs Undefined k = Undefined"
  by (simp_all add: catch_db_def)

text \<open>The database of a blog: one statement and the rows it gives for every execution.\<close>

definition answers :: "mysql \<Rightarrow> string \<Rightarrow> nat \<Rightarrow> field_type list \<Rightarrow> (bind_param list \<Rightarrow> buffer list list) \<Rightarrow> bool" where
  "answers conn stmt params types rows \<longleftrightarrow>
     sql_prepare conn stmt = Inr (params, types) \<and>
     (\<forall>bs. sql_execute conn stmt bs [] = Inr (full_rows (rows bs)) \<and>
           (\<forall>r \<in> set (rows bs). length r = length types))"

lemma answers_new:
  "answers conn stmt params types rows \<Longrightarrow> \<exists>st. DBStmt_new conn stmt = Returns st \<and>
     m_handler st = conn \<and> m_stmt st = stmt \<and> m_bind_in st = replicate params Garbage \<and>
     m_param_count st = params \<and> map col_type (m_column_data st) = types \<and> m_blob_params st = []"
  by (simp add: answers_def DBStmt_new_def comp_def)

lemma answers_execute:
  assumes "answers conn stmt params types rows" "m_handler st = conn" "m_stmt st = stmt"
    "m_blob_params st = []" "Garbage \<notin> set (m_bind_in st)"
  shows "execute st = Returns (st\<lparr>m_rows := full_rows (rows (m_bind_in st))\<rparr>)"
  using assms by (simp add: execute_def answers_def)

text \<open>A query without parameters, up to its loop over the rows.\<close>

lemma answers_query:
  assumes "answers conn stmt 0 types rows"
  shows "\<exists>st. bind_outcome (DBStmt_new conn stmt) execute = Returns st
    \<and> m_rows st = full_rows (rows []) \<and> map col_type (m_column_data st) = types"
proof -
  obtain st where st: "DBStmt_new conn stmt = Returns st" "m_handler st = conn" "m_stmt st = stmt"
    "m_bind_in st = []" "map col_type (m_column_data st) = types" "m_blob_params st = []"
    using answers_new[OF assms] by auto
  then show ?thesis using answers_execute[OF assms st(2,3,6)] by simp
qed

lemma answers_length: "answers conn stmt n types rows \<Longrightarrow> \<forall>r \<in> set (rows bs). length r = length types"
  by (simp add: answers_def)

text \<open>The columns of a row in range.\<close>

lemma asString_columns_of:
  assumes "m_column_data st = columns_of tys bs" "c < length tys" "c < length bs"
  shows "asString st c = column_to_string \<lparr>col_type = tys ! c, col_buffer = bs ! c, col_is_null = False\<rparr>"
  using assms by (auto simp: asString_def m_num_fields_def columns_of_def)

lemma bytes_column [simp]:
  "ty \<in> {MYSQL_TYPE_STRING, MYSQL_TYPE_VAR_STRING, MYSQL_TYPE_BLOB} \<Longrightarrow>
   column_to_string \<lparr>col_type = ty, col_buffer = Bytes_Buffer s, col_is_null = nl\<rparr> = Returns s"
  by (auto simp: column_to_string_def)

lemma id_column [simp]:
  "column_to_string \<lparr>col_type = MYSQL_TYPE_LONGLONG, col_buffer = Integer_Buffer w, col_is_null = nl\<rparr>
     = Returns (show_int (sint w))"
  by (simp add: column_to_string_def integer_of_def)

text \<open>A number below \<open>2^31\<close> of a \<open>bigint\<close> column fits into the \<open>int\<close> that is read back.\<close>

lemma small_signed: "n < 2147483648 \<Longrightarrow> signed_take_bit 63 (int n) = int n"
  by (intro signed_take_bit_int_eq_self) auto

lemma small_sint:
  fixes w :: "64 word"
  assumes "unat w < 2147483648"
  shows "sint w = int (unat w)"
proof -
  define n where "n = unat w"
  have n: "n < 2147483648" using assms by (simp only: n_def)
  have "uint w = int n" unfolding n_def by (rule uint_nat)
  then have "sint w = int n" using small_signed[OF n] by (simp add: sint_uint)
  then show ?thesis by (simp only: n_def)
qed

lemma small_count:
  fixes w :: "64 word"
  assumes "unat w < 2147483648"
  shows "read_int (show_int (sint w)) = Some (int (unat w))" "unat (word_of_int (int (unat w)) :: 32 word) = unat w"
    "show_int (sint w) = show_nat (unat w)"
proof -
  define n where "n = unat w"
  have n: "n < 2147483648" using assms by (simp only: n_def)
  have s: "sint w = int n" unfolding n_def by (rule small_sint[OF assms])
  then have "read_int (show_int (sint w)) = Some (int n)"
    using n by (simp add: read_int_show_int)
  moreover have "unat (word_of_int (int n) :: 32 word) = n" using n by (simp add: unat_of_nat)
  moreover have "show_int (sint w) = show_nat n" unfolding s by (simp add: show_int_def)
  ultimately show "read_int (show_int (sint w)) = Some (int (unat w))"
    "unat (word_of_int (int (unat w)) :: 32 word) = unat w" "show_int (sint w) = show_nat (unat w)"
    by (simp_all only: n_def)
qed

lemma show_uint: "show_int (uint (w :: 64 word)) = show_nat (unat w)"
  by (simp add: show_int_def flip: uint_nat nat_uint_eq)

definition post_node :: "buffer list \<Rightarrow> xml_node" where
  "post_node bs =
     (case bs of
        [Integer_Buffer i, Bytes_Buffer title, Bytes_Buffer excerpt, Bytes_Buffer content] \<Rightarrow>
          Elem ''post'' [New_Prop ''id'' (show_nat (unat i)),
            Add_Child (Elem ''title'' [Add_Child (Text title)]),
            Add_Child (Elem ''excerpt'' [Add_Child (Text excerpt)]),
            Add_Child (case sub_index ''<!--more-->'' content of
                Some n \<Rightarrow> Elem ''content'' [New_Prop ''more'' ''yes'', Add_Child (Text (take n content))]
              | None \<Rightarrow> Elem ''content'' [Add_Child (Text content)])]
      | _ \<Rightarrow> Text [])"

definition post_columns :: "field_type list" where
  "post_columns = [MYSQL_TYPE_LONGLONG, MYSQL_TYPE_BLOB, MYSQL_TYPE_BLOB, MYSQL_TYPE_BLOB]"

definition post_row_ok :: "buffer list \<Rightarrow> bool" where
  "post_row_ok bs \<longleftrightarrow> (\<exists>i title excerpt content.
     bs = [Integer_Buffer i, Bytes_Buffer title, Bytes_Buffer excerpt, Bytes_Buffer content] \<and>
     unat i < 2147483648 \<and> length content < npos)"

lemma show_int_no_NUL: "c_str (show_int v) = show_int v"
  by (rule c_str_id) (simp add: show_int_def digits_no_NUL[OF show_nat_digits])

lemma content_element_eq:
  assumes "length content < npos"
  shows "content_element content = (case sub_index ''<!--more-->'' content of
      Some n \<Rightarrow> Elem ''content'' [New_Prop ''more'' ''yes'', Add_Child (Text (take n content))]
    | None \<Rightarrow> Elem ''content'' [Add_Child (Text content)])"
  using assms sub_index_SomeD[of "''<!--more-->''" content]
  by (force simp: content_element_def Let_def find_str_def add_text_def node_add_def set_attr_def XMLNode_new_def
      c_str_def split: option.splits)

lemma blogroll_row_eq:
  assumes "m_column_data st = columns_of post_columns bs" "post_row_ok bs"
  shows "blogroll_row st posts = Returns (node_add (post_node bs) posts)"
proof -
  obtain i title excerpt content where bs:
    "bs = [Integer_Buffer i, Bytes_Buffer title, Bytes_Buffer excerpt, Bytes_Buffer content]"
    "length content < npos" and i: "unat i < 2147483648"
    using assms(2) by (auto simp: post_row_ok_def)
  have c: "asString st 0 = Returns (show_int (sint i))" "asString st 1 = Returns title"
    "asString st 2 = Returns excerpt" "asString st 3 = Returns content"
    using asString_columns_of[OF assms(1)] by (simp_all add: bs(1) post_columns_def eval_nat_numeral)
  have "asInt st 0 = Returns (int (unat i))"
    unfolding asInt_def c(1) using small_count(1)[OF i] by simp
  then show ?thesis
    using c by (simp add: blogroll_row_def content_element_eq[OF bs(2)] post_node_def bs(1) text_element_def
        add_text_def node_add_def set_attr_int_def set_attr_def XMLNode_new_def c_str_def[of "''post''"]
        c_str_def[of "''title''"] c_str_def[of "''excerpt''"] c_str_def[of "''id''"] show_int_no_NUL show_uint)
qed

text \<open>C30. The front page lists the posts the database returns, all of them and in its order, each with
  its number (a \<open>bigint\<close>, below \<open>2^31\<close>), title and excerpt, and with its content up to the "more" mark when it has one.\<close>

theorem blogroll_page:
  assumes "answers conn blogroll_sql 0 post_columns rows" "\<forall>r \<in> set (rows []). post_row_ok r"
    and "get_fcgi_param rq ''SCRIPT_NAME'' \<in> {''/'', []}"
  shows "wp_handle dump (Returns conn) rq rs =
    Returns (write_page dump (content_type_of rq)
      (doc_add (Elem ''posts'' (map (Add_Child \<circ> post_node) (rows [])))
        (with_stylesheet rq (XMLDoc_new ''page'' ''1.0''))) rs)"
proof -
  obtain st0 st where st: "DBStmt_new conn blogroll_sql = Returns st0" "execute st0 = Returns st"
    "m_rows st = full_rows (rows [])" "map col_type (m_column_data st) = post_columns"
    using answers_query[OF assms(1)] by (auto simp: unpack)
  have "while_fetch blogroll_row st posts = Returns (fold (\<lambda>r. node_add (post_node r)) (rows []) posts)" for posts
    using st(3,4) answers_length[OF assms(1)] blogroll_row_eq assms(2) by (intro while_fetch_full) auto
  then have "while_fetch blogroll_row st (XMLNode_new ''posts'') =
      Returns (Elem ''posts'' (map (Add_Child \<circ> post_node) (rows [])))"
    by (simp add: XMLNode_new_def c_str_def fold_node_add)
  then show ?thesis
    using assms(3) st(1,2) by (auto simp: wp_handle_def handle_blogroll_def Let_def)
qed

text \<open>A blog with one post, as an example.\<close>

definition one_post_blog :: mysql where
  "one_post_blog = \<lparr>sql_prepare = (\<lambda>s. if s = blogroll_sql then Inr (0, post_columns)
        else Inr (1, [MYSQL_TYPE_LONGLONG, MYSQL_TYPE_BLOB])),
     sql_execute = (\<lambda>s bs _. Inr (full_rows
        (if s = blogroll_sql then [[Integer_Buffer 7, Bytes_Buffer ''t'', Bytes_Buffer ''e'', Bytes_Buffer ''a<!--more-->b'']]
         else if bs = [Bound_String ''cake''] then [[Integer_Buffer 7, Bytes_Buffer ''text'']] else [])))\<rparr>"

definition request_for :: "string \<Rightarrow> fcgi_request" where
  "request_for script = \<lparr>fcgi_in = in_open [], m_params = [], m_formdata_params = [],
     envp = (\<lambda>n. if n = ''SCRIPT_NAME'' then Some script else None)\<rparr>"

theorem blogroll_page_witness:
  "\<forall>dump rs. wp_handle dump (Returns one_post_blog) (request_for ''/'') rs =
    Returns (write_page dump ''text/xml''
      (doc_add (Elem ''posts'' [Add_Child (Elem ''post'' [New_Prop ''id'' ''7'',
          Add_Child (Elem ''title'' [Add_Child (Text ''t'')]), Add_Child (Elem ''excerpt'' [Add_Child (Text ''e'')]),
          Add_Child (Elem ''content'' [New_Prop ''more'' ''yes'', Add_Child (Text ''a'')])])])
        (with_stylesheet (request_for ''/'') (XMLDoc_new ''page'' ''1.0''))) rs)"
proof (intro allI)
  fix dump rs
  let ?row = "[Integer_Buffer 7, Bytes_Buffer ''t'', Bytes_Buffer ''e'', Bytes_Buffer ''a<!--more-->b'']"
  have a: "answers one_post_blog blogroll_sql 0 post_columns (\<lambda>_. [?row])"
    by (simp add: answers_def one_post_blog_def post_columns_def)
  have "\<forall>r \<in> set [?row]. post_row_ok r" by (simp add: post_row_ok_def npos_def)
  moreover have "get_fcgi_param (request_for ''/'') ''SCRIPT_NAME'' \<in> {''/'', []}"
    by (simp add: get_fcgi_param_def request_for_def)
  moreover have "content_type_of (request_for ''/'') = ''text/xml''"
    by (simp add: content_type_of_def get_param_def request_for_def)
  moreover have "post_node ?row = Elem ''post'' [New_Prop ''id'' ''7'',
          Add_Child (Elem ''title'' [Add_Child (Text ''t'')]), Add_Child (Elem ''excerpt'' [Add_Child (Text ''e'')]),
          Add_Child (Elem ''content'' [New_Prop ''more'' ''yes'', Add_Child (Text ''a'')])]"
    by code_simp
  ultimately show "wp_handle dump (Returns one_post_blog) (request_for ''/'') rs =
    Returns (write_page dump ''text/xml''
      (doc_add (Elem ''posts'' [Add_Child (Elem ''post'' [New_Prop ''id'' ''7'',
          Add_Child (Elem ''title'' [Add_Child (Text ''t'')]), Add_Child (Elem ''excerpt'' [Add_Child (Text ''e'')]),
          Add_Child (Elem ''content'' [New_Prop ''more'' ''yes'', Add_Child (Text ''a'')])])])
        (with_stylesheet (request_for ''/'') (XMLDoc_new ''page'' ''1.0''))) rs)"
    using blogroll_page[OF a, of "request_for ''/''" dump rs] by simp
qed

lemma find_str_0D: "find_str s k 0 = 0 \<Longrightarrow> prefix k s"
  by (auto simp: find_str_def npos_def dest!: sub_index_SomeD split: if_splits option.splits)

lemma find_str_prefix: "prefix k s \<Longrightarrow> find_str s k 0 = 0"
  by (cases s) (auto simp: find_str_def)

lemma name_part: "length k \<le> length s \<Longrightarrow> length s \<le> npos \<Longrightarrow> std_substr s (length k) npos = Inr (drop (length k) s)"
  by (simp add: std_substr_def)

text \<open>A page for a category or an author never comes about: the name is bound to a parameter the
  statement does not have, so the one it has is handed to the library uninitialised.\<close>

theorem category_and_author_unbound:
  assumes "sql_prepare conn (by_name_sql ''ID'') = Inr (1, types)"
    and "prefix ''/category/'' (get_fcgi_param rq ''SCRIPT_NAME'')
      \<or> prefix ''/author/'' (get_fcgi_param rq ''SCRIPT_NAME'')"
  shows "wp_handle dump (Returns conn) rq rs = Undefined"
proof -
  let ?s = "get_fcgi_param rq ''SCRIPT_NAME''"
  obtain st where st: "DBStmt_new conn (by_name_sql ''ID'') = Returns st"
    "m_bind_in st = [Garbage]" "m_param_count st = 1"
    using assms(1) by (simp add: DBStmt_new_def)
  then have "execute (bindString 1 name st) = Undefined" for name
    by (simp add: bindString_def execute_def)
  then have und: "handle_category (Returns conn) rs name = Undefined"
    "handle_author (Returns conn) rs name = Undefined" for name
    by (simp_all add: handle_category_def handle_author_def st(1))
  have "?s \<noteq> ''/''" "?s \<noteq> []" using assms(2) by auto
  moreover have "\<not> length ?s < length ''/category/''" if "prefix ''/category/'' ?s"
    using prefix_length_le[OF that] by simp
  moreover have "\<not> length ?s < length ''/author/''" if "prefix ''/author/'' ?s"
    using prefix_length_le[OF that] by simp
  ultimately show ?thesis
    using assms(2) und find_str_0D[of ?s "''/category/''"] find_str_prefix[of _ ?s]
    unfolding wp_handle_def Let_def std_substr_def by fastforce
qed

theorem category_and_author_unbound_witness:
  "\<forall>dump rs. wp_handle dump (Returns one_post_blog) (request_for ''/author/bob'') rs = Undefined"
proof (intro allI)
  fix dump rs
  have "by_name_sql ''ID'' \<noteq> blogroll_sql" by (simp add: by_name_sql_def blogroll_sql_def)
  then have "sql_prepare one_post_blog (by_name_sql ''ID'') = Inr (1, [MYSQL_TYPE_LONGLONG, MYSQL_TYPE_BLOB])"
    by (simp add: one_post_blog_def)
  then show "wp_handle dump (Returns one_post_blog) (request_for ''/author/bob'') rs = Undefined"
    by (rule category_and_author_unbound) (simp add: get_fcgi_param_def request_for_def)
qed

text \<open>The name of a post: not empty, and no category or author page.\<close>

definition post_script :: "string \<Rightarrow> bool" where
  "post_script name \<longleftrightarrow> name \<noteq> [] \<and> \<not> prefix ''category/'' name \<and> \<not> prefix ''author/'' name \<and> length name < npos"

lemma prefix_slash: "\<not> prefix k name \<Longrightarrow> find_str (CHR ''/'' # name) (CHR ''/'' # k) 0 \<noteq> 0"
  using find_str_0D[of "CHR ''/'' # name" "CHR ''/'' # k"] by auto

lemma post_document_row:
  assumes "map col_type (m_column_data st) = [MYSQL_TYPE_LONGLONG, MYSQL_TYPE_BLOB]"
    and "m_rows st = full_rows (r # rest)" "r = [Integer_Buffer i, Bytes_Buffer s]" "unat i < 2147483648"
  shows "\<exists>st'. fetch st = Returns (True, st') \<and> post_document st' =
      Returns (Elem ''post'' [New_Prop ''id'' (show_nat (unat i)), Add_Child (Text s)])"
proof -
  let ?st = "st\<lparr>m_column_data := columns_of [MYSQL_TYPE_LONGLONG, MYSQL_TYPE_BLOB] r, m_rows := full_rows rest\<rparr>"
  have "length r = length (m_column_data st)" using arg_cong[OF assms(1), of length] assms(3) by simp
  then have f: "fetch st = Returns (True, ?st)"
    using assms(1,2) by (simp add: fetch_def full_rows_def fetch_columns_full)
  have c: "asString ?st 0 = Returns (show_int (sint i))" "asString ?st 1 = Returns s"
    using asString_columns_of[of ?st "[MYSQL_TYPE_LONGLONG, MYSQL_TYPE_BLOB]" r] assms(3) by simp_all
  have "asInt ?st 0 = Returns (int (unat i))"
    unfolding asInt_def c(1) using small_count(1)[OF assms(4)] by simp
  with c(2) have "post_document ?st =
      Returns (Elem ''post'' [New_Prop ''id'' (show_nat (unat i)), Add_Child (Text s)])"
    by (simp add: post_document_def add_text_def node_add_def set_attr_int_def set_attr_def
        XMLNode_new_def c_str_def[of "''post''"] c_str_def[of "''id''"] show_int_no_NUL show_uint)
  then show ?thesis using f by blast
qed

text \<open>C31. A post is looked up by the part of the path behind the slash, as it is: the first row the
  database gives for that name is the page, with the post's number (a \<open>bigint\<close>, below
  \<open>2^31\<close>) and text; without a row the
  answer is the 404 page.\<close>

theorem post_page:
  assumes "answers conn (by_name_sql ''id, post_content'') 1 [MYSQL_TYPE_LONGLONG, MYSQL_TYPE_BLOB] rows"
    and "get_fcgi_param rq ''SCRIPT_NAME'' = CHR ''/'' # name" "post_script name"
    and "\<forall>r \<in> set (rows [Bound_String name]). \<exists>i s. r = [Integer_Buffer i, Bytes_Buffer s] \<and> unat i < 2147483648"
  shows "wp_handle dump (Returns conn) rq rs =
    (case rows [Bound_String name] of
       [] \<Rightarrow> Returns (None, return_error rs ''page does not exist'' 404)
     | [Integer_Buffer i, Bytes_Buffer s] # _ \<Rightarrow> Returns (write_page dump (content_type_of rq)
         (doc_add (Elem ''post'' [New_Prop ''id'' (show_nat (unat i)), Add_Child (Text s)])
           (with_stylesheet rq (XMLDoc_new ''page'' ''1.0''))) rs))"
proof -
  obtain st where st: "DBStmt_new conn (by_name_sql ''id, post_content'') = Returns st"
    "m_handler st = conn" "m_stmt st = by_name_sql ''id, post_content''" "m_bind_in st = [Garbage]"
    "m_param_count st = 1" "map col_type (m_column_data st) = [MYSQL_TYPE_LONGLONG, MYSQL_TYPE_BLOB]"
    "m_blob_params st = []"
    using answers_new[OF assms(1)] by auto
  define st1 where "st1 = bindString 0 name st"
  have st1: "m_handler st1 = conn" "m_stmt st1 = by_name_sql ''id, post_content''"
    "m_bind_in st1 = [Bound_String name]" "m_blob_params st1 = []"
    "map col_type (m_column_data st1) = [MYSQL_TYPE_LONGLONG, MYSQL_TYPE_BLOB]"
    using st by (simp_all add: st1_def bindString_def)
  let ?st2 = "st1\<lparr>m_rows := full_rows (rows [Bound_String name])\<rparr>"
  have ex: "execute st1 = Returns ?st2"
    using answers_execute[OF assms(1) st1(1,2,4)] st1(3) by simp
  have "handle_post dump (Returns conn) rq rs name =
    (case rows [Bound_String name] of
       [] \<Rightarrow> Returns (None, return_error rs ''page does not exist'' 404)
     | [Integer_Buffer i, Bytes_Buffer s] # _ \<Rightarrow> Returns (write_page dump (content_type_of rq)
         (doc_add (Elem ''post'' [New_Prop ''id'' (show_nat (unat i)), Add_Child (Text s)])
           (with_stylesheet rq (XMLDoc_new ''page'' ''1.0''))) rs))"
  proof (cases "rows [Bound_String name]")
    case Nil
    then have "fetch ?st2 = Returns (False, ?st2)" by (simp add: fetch_def full_rows_def)
    then show ?thesis
      using Nil by (simp add: handle_post_def st(1) st1_def[symmetric] ex handle_404_def)
  next
    case (Cons r rest)
    obtain i s where r: "r = [Integer_Buffer i, Bytes_Buffer s]" "unat i < 2147483648" using assms(4) Cons by auto
    obtain st' where f: "fetch ?st2 = Returns (True, st')" "post_document st' =
        Returns (Elem ''post'' [New_Prop ''id'' (show_nat (unat i)), Add_Child (Text s)])"
      using post_document_row[of ?st2 r rest i s] st1(5) r(2) by (auto simp: Cons r(1))
    then show ?thesis
      by (simp add: handle_post_def st(1) st1_def[symmetric] ex f[unfolded Cons r(1)] Cons r(1))
  qed
  moreover have "wp_handle dump (Returns conn) rq rs = handle_post dump (Returns conn) rq rs name"
    using assms(2,3) prefix_slash[of "''category/''" name] prefix_slash[of "''author/''" name]
    by (simp add: wp_handle_def post_script_def std_substr_def)
  ultimately show ?thesis by simp
qed

theorem post_page_witness:
  "\<forall>dump rs. wp_handle dump (Returns one_post_blog) (request_for ''/pie'') rs =
       Returns (None, return_error rs ''page does not exist'' 404)
     \<and> wp_handle dump (Returns one_post_blog) (request_for ''/cake'') rs =
       Returns (write_page dump ''text/xml''
         (doc_add (Elem ''post'' [New_Prop ''id'' ''7'', Add_Child (Text ''text'')])
           (with_stylesheet (request_for ''/cake'') (XMLDoc_new ''page'' ''1.0''))) rs)"
proof (intro allI)
  fix dump rs
  let ?rows = "\<lambda>bs. if bs = [Bound_String ''cake''] then [[Integer_Buffer 7, Bytes_Buffer ''text'']] else []"
  have "by_name_sql ''id, post_content'' \<noteq> blogroll_sql" by (simp add: by_name_sql_def blogroll_sql_def)
  then have a: "answers one_post_blog (by_name_sql ''id, post_content'') 1 [MYSQL_TYPE_LONGLONG, MYSQL_TYPE_BLOB] ?rows"
    by (simp add: answers_def one_post_blog_def)
  have "content_type_of (request_for ''/cake'') = ''text/xml''"
    by (simp add: content_type_of_def get_param_def request_for_def)
  moreover have "show_nat 7 = ''7''" by code_simp
  ultimately show "wp_handle dump (Returns one_post_blog) (request_for ''/pie'') rs =
       Returns (None, return_error rs ''page does not exist'' 404)
     \<and> wp_handle dump (Returns one_post_blog) (request_for ''/cake'') rs =
       Returns (write_page dump ''text/xml''
         (doc_add (Elem ''post'' [New_Prop ''id'' ''7'', Add_Child (Text ''text'')])
           (with_stylesheet (request_for ''/cake'') (XMLDoc_new ''page'' ''1.0''))) rs)"
    using post_page[OF a, of "request_for ''/pie''" "''pie''" dump rs]
      post_page[OF a, of "request_for ''/cake''" "''cake''" dump rs]
    by (simp add: get_fcgi_param_def request_for_def post_script_def npos_def)
qed

text \<open>When no connection can be had, every page is the error page with the database's message (up
  to a NUL byte), sent with the status 200; nothing is thrown.\<close>

theorem no_connection_is_a_page:
  "wp_handle dump (Throws (Db_Exception msg stage)) rq rs = Returns (None, return_error rs (c_str msg) 200)"
proof -
  let ?s = "get_fcgi_param rq ''SCRIPT_NAME''"
  have "handle_blogroll dump (Throws (Db_Exception msg stage)) rq rs = Returns (None, return_error rs (c_str msg) 200)"
    "handle_category (Throws (Db_Exception msg stage)) rs name = Returns (None, return_error rs (c_str msg) 200)"
    "handle_author (Throws (Db_Exception msg stage)) rs name = Returns (None, return_error rs (c_str msg) 200)"
    "handle_post dump (Throws (Db_Exception msg stage)) rq rs name = Returns (None, return_error rs (c_str msg) 200)" for name
    by (simp_all add: handle_blogroll_def handle_category_def handle_author_def handle_post_def)
  moreover have sub: "length k \<le> length ?s" if "find_str ?s k 0 = 0" for k
    using find_str_0D[OF that] by (rule prefix_length_le)
  ultimately show ?thesis
    using sub[of "''/category/''"] sub[of "''/author/''"]
    by (auto simp: wp_handle_def Let_def std_substr_def)
qed

end
