(* ===== verification/Sitemap_Handler.thy ===== *)
theory Sitemap_Handler
  imports Wp_Handler
begin

text \<open>
  The site map (the class \<open>sitemap_handler\<close> of
  \<^verbatim>\<open>src/server/sitemap_handler.cpp\<close>): one URL element for each page and post, for
  each taxonomy term and the pages of its archive, for each author, and for the front page.

  As in the handler of the blog, the connection that the pool gives and the writing of a document
  are arguments. \<open>num_posts\<close> and \<open>page\<close> are 32-bit unsigned, the number of posts per
  page is a \<open>size_t\<close>.
\<close>

section \<open>Sites and options\<close>

type_synonym site_map = "(string \<times> nat) list"

definition add_site :: "string \<Rightarrow> nat \<Rightarrow> site_map \<Rightarrow> site_map" where
  "add_site hostname db_pool sites = map_insert hostname db_pool sites"

definition quoted :: "string \<Rightarrow> string" where
  "quoted s = [CHR 0x27] @ s @ [CHR 0x27]"

definition option_sql :: "string \<Rightarrow> string" where
  "option_sql name = ''select option_value from wp_options where option_name='' @ quoted name"

definition get_base_url :: "mysql \<Rightarrow> string outcome" where
  "get_base_url conn =
     bind_outcome (DBStmt_new conn (option_sql ''home'')) (\<lambda>st.
     bind_outcome (execute st) (\<lambda>st.
     bind_outcome (fetch st) (\<lambda>(got, st). if got then asString st 0 else Returns [])))"

text \<open>A negative number becomes a huge \<open>size_t\<close>.\<close>

definition get_num_posts_per_page :: "mysql \<Rightarrow> 64 word outcome" where
  "get_num_posts_per_page conn =
     bind_outcome (DBStmt_new conn (option_sql ''posts_per_page'')) (\<lambda>st.
     bind_outcome (execute st) (\<lambda>st.
     bind_outcome (fetch st) (\<lambda>(got, st).
       if got then bind_outcome (asInt st 0) (\<lambda>v. Returns (word_of_int v)) else Returns 10)))"

section \<open>URL elements\<close>

definition add_url :: "string \<Rightarrow> string \<Rightarrow> string \<Rightarrow> string \<Rightarrow> xml_doc \<Rightarrow> xml_doc" where
  "add_url loc lastmod changefreq priority doc =
     doc_add (node_add (text_element ''priority'' priority)
       (node_add (text_element ''changefreq'' changefreq)
         (node_add (text_element ''lastmod'' lastmod)
           (node_add (text_element ''loc'' loc) (XMLNode_new ''url''))))) doc"

text \<open>\<open>modified_dt[10] = 'T'\<close>, which needs eleven characters, and the time zone.\<close>

definition iso_time :: "string \<Rightarrow> string outcome" where
  "iso_time modified_dt =
     (if length modified_dt \<le> 10 then Undefined
      else Returns (modified_dt[10 := CHR ''T''] @ ''+00:00''))"

definition modified_or_posted :: "db_stmt \<Rightarrow> string outcome" where
  "modified_or_posted st =
     bind_outcome (asString st 1) (\<lambda>m. if m \<noteq> ''0000-00-00 00:00:00'' then Returns m else asString st 2)"

abbreviation special_host :: string where "special_host \<equiv> ''www.nginxguts.com''"

section \<open>Pages and posts\<close>

definition pages_sql :: string where
  "pages_sql = ''select post_name, post_modified_gmt, post_date_gmt from wp_posts where post_status='' @
     quoted ''publish'' @ ''  and post_type='' @ quoted ''page'' @ '' order by post_date_gmt''"

definition page_row :: "string \<Rightarrow> db_stmt \<Rightarrow> xml_doc \<Rightarrow> xml_doc outcome" where
  "page_row base_url st doc =
     bind_outcome (modified_or_posted st) (\<lambda>modified_dt.
     bind_outcome (asString st 0) (\<lambda>name.
     bind_outcome (iso_time modified_dt) (\<lambda>lastmod.
       Returns (add_url (base_url @ ''/'' @ name @ ''/'') lastmod ''weekly'' ''1'' doc))))"

definition page_urls :: "mysql \<Rightarrow> string \<Rightarrow> xml_doc \<Rightarrow> xml_doc outcome" where
  "page_urls conn base_url doc =
     bind_outcome (DBStmt_new conn pages_sql) (\<lambda>st.
     bind_outcome (execute st) (\<lambda>st. while_fetch (page_row base_url) st doc))"

definition posts_sql :: string where
  "posts_sql = ''select post_name, post_modified_gmt, post_date_gmt from wp_posts where post_status='' @
     quoted ''publish'' @ ''  and post_type=? order by post_date_gmt''"

definition post_row :: "string \<Rightarrow> string \<Rightarrow> db_stmt \<Rightarrow> xml_doc \<Rightarrow> xml_doc outcome" where
  "post_row hostname base_url st doc =
     bind_outcome (asString st 2) (\<lambda>dt.
     bind_outcome (modified_or_posted st) (\<lambda>modified_dt.
     bind_outcome (asString st 0) (\<lambda>name.
     bind_outcome
       (if hostname \<noteq> special_host then Returns (base_url @ ''/wedding-cakes/'' @ name @ ''/'')
        else bind_outcome (of_result (std_substr dt 0 4)) (\<lambda>year.
             bind_outcome (of_result (std_substr dt 5 2)) (\<lambda>month.
               Returns (base_url @ ''/'' @ year @ ''/'' @ month @ ''/'' @ name @ ''/'')))) (\<lambda>url.
     bind_outcome (iso_time modified_dt) (\<lambda>lastmod.
       Returns (add_url url lastmod
         (if hostname \<noteq> special_host then ''weekly'' else ''monthly'') ''1'' doc))))))"

definition post_urls :: "mysql \<Rightarrow> string \<Rightarrow> string \<Rightarrow> string \<Rightarrow> xml_doc \<Rightarrow> xml_doc outcome" where
  "post_urls conn hostname base_url post_type doc =
     bind_outcome (DBStmt_new conn posts_sql) (\<lambda>st.
     bind_outcome (execute (bindString 0 post_type st)) (\<lambda>st.
       while_fetch (post_row hostname base_url) st doc))"

section \<open>Taxonomy terms and the pages of their archives\<close>

definition terms_sql :: string where
  "terms_sql = ''select slug, max(p.post_modified_gmt), count(distinct p.ID) from wp_terms ts, wp_term_taxonomy tt, wp_term_relationships tr, wp_posts p'' @
     '' where tt.taxonomy=? and tt.term_id=ts.term_id and tt.parent=0 and tt.count!=0 and '' @
     '' tt.term_taxonomy_id = tr.term_taxonomy_id and tr.object_id=p.ID and p.post_status='' @
     quoted ''publish'' @ '' group by slug''"

text \<open>The numbers of the pages the \<open>do\<close> loop adds; \<open>None\<close> when it never ends.\<close>

partial_function (option) term_page_loop :: "64 word \<Rightarrow> 32 word \<Rightarrow> 32 word \<Rightarrow> 32 word list option" where
  "term_page_loop num_posts_per_page num_posts page =
     (let num_posts' = (if num_posts_per_page < ucast num_posts
                        then ucast (ucast num_posts - num_posts_per_page) else 0)
      in if num_posts' \<noteq> 0 then
           Option.bind (term_page_loop num_posts_per_page num_posts' (page + 1)) (\<lambda>ps. Some ((page + 1) # ps))
         else Some [page + 1])"

definition term_pages :: "64 word \<Rightarrow> 32 word \<Rightarrow> 32 word list option" where
  "term_pages num_posts_per_page num_posts =
     (if num_posts_per_page < ucast num_posts
      then term_page_loop num_posts_per_page (ucast (ucast num_posts - num_posts_per_page)) 1
      else Some [])"

definition add_pages :: "string \<Rightarrow> string \<Rightarrow> 32 word list \<Rightarrow> xml_doc \<Rightarrow> xml_doc" where
  "add_pages url lastmod ps doc =
     fold (\<lambda>p. add_url (url @ ''page/'' @ show_nat (unat p) @ ''/'') lastmod ''daily'' ''1'') ps doc"

definition term_row :: "string \<Rightarrow> 64 word \<Rightarrow> string \<Rightarrow> db_stmt \<Rightarrow> xml_doc \<Rightarrow> xml_doc outcome" where
  "term_row base_url num_posts_per_page taxonomy st doc =
     bind_outcome (asString st 1) (\<lambda>modified_dt.
     bind_outcome (asInt st 2) (\<lambda>n.
     bind_outcome (asString st 0) (\<lambda>slug.
       let num_posts = word_of_int n :: 32 word;
           url = base_url @ ''/'' @ (if taxonomy = ''placecategory'' then ''weddingcakes'' else taxonomy) @
                 ''/'' @ slug @ ''/''
       in bind_outcome (iso_time modified_dt) (\<lambda>lastmod.
          case term_pages num_posts_per_page num_posts of
            None \<Rightarrow> Diverges
          | Some ps \<Rightarrow> Returns (add_pages url lastmod ps (add_url url lastmod ''daily'' ''1'' doc))))))"

definition term_urls :: "mysql \<Rightarrow> string \<Rightarrow> 64 word \<Rightarrow> string \<Rightarrow> xml_doc \<Rightarrow> xml_doc outcome" where
  "term_urls conn base_url num_posts_per_page taxonomy doc =
     bind_outcome (DBStmt_new conn terms_sql) (\<lambda>st.
     bind_outcome (execute (bindString 0 taxonomy st)) (\<lambda>st.
       while_fetch (term_row base_url num_posts_per_page taxonomy) st doc))"

section \<open>Authors and the front page\<close>

definition authors_sql :: string where
  "authors_sql = ''select user_login, max(p.post_modified_gmt) from wp_posts p, wp_users u where p.post_author=u.ID '' @
     '' and p.post_status='' @ quoted ''publish'' @ '' and p.post_type='' @ quoted ''post'' @ '' group by user_login''"

definition author_row :: "string \<Rightarrow> db_stmt \<Rightarrow> xml_doc \<Rightarrow> xml_doc outcome" where
  "author_row base_url st doc =
     bind_outcome (asString st 1) (\<lambda>modified_dt.
     bind_outcome (asString st 0) (\<lambda>login.
     bind_outcome (iso_time modified_dt) (\<lambda>lastmod.
       Returns (add_url (base_url @ ''/author/'' @ login @ ''/'') lastmod ''daily'' ''1'' doc))))"

definition author_urls :: "mysql \<Rightarrow> string \<Rightarrow> xml_doc \<Rightarrow> xml_doc outcome" where
  "author_urls conn base_url doc =
     bind_outcome (DBStmt_new conn authors_sql) (\<lambda>st.
     bind_outcome (execute st) (\<lambda>st. while_fetch (author_row base_url) st doc))"

definition front_sql :: string where
  "front_sql = ''select max(post_modified_gmt), count(distinct ID) from wp_posts'' @
     '' where post_status='' @ quoted ''publish'' @ '' and post_type='' @ quoted ''post''"

text \<open>The loop goes on while the remainder equals the divisor; the divisor zero is undefined, the
  inner \<open>None\<close>.\<close>

partial_function (option) front_page_loop ::
  "64 word \<Rightarrow> 32 word \<Rightarrow> 32 word \<Rightarrow> 32 word list option option" where
  "front_page_loop num_posts_per_page num_posts page =
     (let num_posts' = ucast (ucast num_posts - num_posts_per_page) :: 32 word
      in if num_posts_per_page = 0 then Some None
         else if ucast num_posts' mod num_posts_per_page = num_posts_per_page then
           Option.bind (front_page_loop num_posts_per_page num_posts' (page + 1))
             (\<lambda>ps. Some (map_option (\<lambda>qs. (page + 1) # qs) ps))
         else Some (Some [page + 1]))"

definition front_pages :: "string \<Rightarrow> 64 word \<Rightarrow> 32 word \<Rightarrow> 32 word list option option" where
  "front_pages hostname num_posts_per_page num_posts =
     (if hostname = special_host \<and> num_posts_per_page < ucast num_posts
      then front_page_loop num_posts_per_page (ucast (ucast num_posts - num_posts_per_page)) 1
      else Some (Some []))"

definition front_row :: "string \<Rightarrow> string \<Rightarrow> 64 word \<Rightarrow> db_stmt \<Rightarrow> xml_doc \<Rightarrow> xml_doc outcome" where
  "front_row hostname base_url num_posts_per_page st doc =
     bind_outcome (asString st 0) (\<lambda>modified_dt.
     bind_outcome (asInt st 1) (\<lambda>n.
       let url = base_url @ ''/''
       in bind_outcome (iso_time modified_dt) (\<lambda>lastmod.
          case front_pages hostname num_posts_per_page (word_of_int n) of
            None \<Rightarrow> Diverges
          | Some None \<Rightarrow> Undefined
          | Some (Some ps) \<Rightarrow> Returns (add_pages url lastmod ps (add_url url lastmod ''daily'' ''1'' doc)))))"

definition front_urls :: "mysql \<Rightarrow> string \<Rightarrow> string \<Rightarrow> 64 word \<Rightarrow> xml_doc \<Rightarrow> xml_doc outcome" where
  "front_urls conn hostname base_url num_posts_per_page doc =
     bind_outcome (DBStmt_new conn front_sql) (\<lambda>st.
     bind_outcome (execute st) (\<lambda>st. while_fetch (front_row hostname base_url num_posts_per_page) st doc))"

section \<open>The handler\<close>

definition post_types :: "string \<Rightarrow> string list" where
  "post_types hostname = ''post'' # (if hostname \<noteq> special_host then [''place'', ''event''] else [])"

definition taxonomy_types :: "string \<Rightarrow> string list" where
  "taxonomy_types hostname = ''category'' # (if hostname \<noteq> special_host then [''placecategory''] else [])"

definition sitemap_head :: "string \<Rightarrow> xml_doc" where
  "sitemap_head hostname =
     add_pi ''xml-stylesheet''
       (''type='' @ [QUOTE] @ ''text/xsl'' @ [QUOTE] @ '' href='' @ [QUOTE] @
         (if hostname = special_host then ''wp-content/plugins/google-sitemap-plugin/sitemap.xsl''
          else ''wp-content/uploads/sitemap.xsl'') @ [QUOTE])
       (XMLDoc_new_ns ''urlset'' ''http://www.sitemaps.org/schemas/sitemap/0.9'' ''1.0'')"

definition sitemap_doc :: "mysql \<Rightarrow> string \<Rightarrow> xml_doc outcome" where
  "sitemap_doc conn hostname =
     bind_outcome (get_base_url conn) (\<lambda>base_url.
     bind_outcome (get_num_posts_per_page conn) (\<lambda>num_posts_per_page.
     bind_outcome (page_urls conn base_url (sitemap_head hostname)) (\<lambda>doc.
     bind_outcome (for_each (post_urls conn hostname base_url) (post_types hostname) doc) (\<lambda>doc.
     bind_outcome (for_each (term_urls conn base_url num_posts_per_page) (taxonomy_types hostname) doc) (\<lambda>doc.
     bind_outcome (if hostname = special_host then author_urls conn base_url doc else Returns doc) (\<lambda>doc.
       front_urls conn hostname base_url num_posts_per_page doc))))))"

definition sitemap_handle ::
  "(xml_doc \<Rightarrow> string option) \<Rightarrow> (nat \<Rightarrow> mysql outcome) \<Rightarrow> site_map \<Rightarrow> fcgi_request \<Rightarrow> fcgi_response \<Rightarrow> handled" where
  "sitemap_handle dump get_conn sites rq rs =
     (let hostname = get_fcgi_param rq ''SERVER_NAME''
      in case map_find sites hostname of
           None \<Rightarrow> Returns (None, return_error rs (''site not found: '' @ hostname) 200)
         | Some db_pool \<Rightarrow>
             catch_db rs (bind_outcome (get_conn db_pool) (\<lambda>conn. sitemap_doc conn hostname))
               (\<lambda>doc. Returns (write_page dump ''application/xml'' doc rs)))"

section \<open>The archive pages that are listed\<close>

lemma unat_widen: "unat (ucast (num :: 32 word) :: 64 word) = unat num"
  by transfer (simp add: take_bit_nat_eq_self_iff take_bit_int_eq_self_iff)

lemma unat_truncate: "unat (ucast (w :: 64 word) :: 32 word) = unat w mod 4294967296"
  by (simp add: unsigned_ucast_eq take_bit_eq_mod)

lemma unat_32: "unat (num :: 32 word) < 4294967296"
  using unsigned_less[of num] by simp

lemma widen_less: "(per :: 64 word) < ucast (num :: 32 word) \<longleftrightarrow> unat per < unat num"
  by (simp add: word_less_nat_alt unat_widen)

lemma unat_narrow:
  fixes num :: "32 word" and per :: "64 word"
  assumes "unat per \<le> unat num"
  shows "unat (ucast (ucast num - per :: 64 word) :: 32 word) = unat num - unat per"
  using assms unat_32[of num]
  by (simp add: unat_truncate unat_sub_if' unat_widen)

lemma unat_Suc:
  "unat (page :: 32 word) + Suc x < 4294967296 \<Longrightarrow> unat (page + 1) = Suc (unat page)"
  using unat_32[of page] by (simp add: unat_word_ariths(1))

lemma round_up_less:
  fixes n k :: nat
  assumes "k < n" "0 < k"
  shows "(n + k - 1) div k = Suc ((n - 1) div k)" "((n - k) + k - 1) div k = (n - 1) div k"
proof -
  obtain m where n: "n = Suc m" using assms by (cases n) auto
  have a: "n + k - 1 = m + k" "(n - k) + k - 1 = m" "n - 1 = m" using n assms by simp_all
  show "(n + k - 1) div k = Suc ((n - 1) div k)" "((n - k) + k - 1) div k = (n - 1) div k"
    unfolding a using assms(2) by (simp_all add: div_add_self2)
qed

definition page_numbers :: "nat \<Rightarrow> nat \<Rightarrow> 32 word list" where
  "page_numbers a b = map of_nat [a..<b]"

lemma page_numbers_Cons: "a < b \<Longrightarrow> page_numbers a b = of_nat a # page_numbers (Suc a) b"
  by (simp add: page_numbers_def upt_conv_Cons)

lemma page_numbers_one: "page_numbers a (Suc a) = [of_nat a]"
  by (simp add: page_numbers_def)

lemma term_page_loop_pages:
  assumes "0 < unat per" "0 < unat num" "unat page + (unat num + unat per - 1) div unat per < 4294967296"
  shows "term_page_loop per num page =
    Some (page_numbers (Suc (unat page)) (Suc (unat page + (unat num + unat per - 1) div unat per)))"
  using assms(2,3)
proof (induction "unat num" arbitrary: num page rule: less_induct)
  case less
  let ?n = "unat num" and ?k = "unat per"
  let ?num = "ucast (ucast num - per :: 64 word) :: 32 word"
  have one: "page + 1 = of_nat (Suc (unat page))" by simp
  show ?case
  proof (cases "?k < ?n")
    case True
    then have num: "unat ?num = ?n - ?k" by (simp add: unat_narrow)
    have div: "(?n + ?k - 1) div ?k = Suc ((?n - 1) div ?k)" "(unat ?num + ?k - 1) div ?k = (?n - 1) div ?k"
      unfolding num by (rule round_up_less[OF True assms(1)])+
    have suc: "unat (page + 1) = Suc (unat page)"
      using less.prems(2) unfolding div by (rule unat_Suc)
    have "term_page_loop per ?num (page + 1) = Some (page_numbers (Suc (unat (page + 1)))
        (Suc (unat (page + 1) + (unat ?num + ?k - 1) div ?k)))"
    proof (rule less.hyps)
      show "unat ?num < ?n" "0 < unat ?num" using num True assms(1) by linarith+
      show "unat (page + 1) + (unat ?num + ?k - 1) div ?k < 4294967296"
        using less.prems(2) unfolding suc div by simp
    qed
    then have "term_page_loop per ?num (page + 1) = Some (page_numbers (Suc (Suc (unat page)))
        (Suc (Suc (unat page) + (?n - 1) div ?k)))"
      unfolding suc div .
    moreover have "?num \<noteq> 0" using num True by (auto simp: unat_eq_0)
    moreover have "page_numbers (Suc (unat page)) (Suc (unat page + Suc ((?n - 1) div ?k)))
        = (page + 1) # page_numbers (Suc (Suc (unat page))) (Suc (Suc (unat page) + (?n - 1) div ?k))"
      unfolding one by (subst page_numbers_Cons) simp_all
    ultimately show ?thesis
      unfolding div using True by (subst term_page_loop.simps) (simp add: widen_less)
  next
    case False
    then have "(?n + ?k - 1) div ?k = 1"
      using less.prems(1) by (intro div_nat_eqI) simp_all
    moreover have "page_numbers (Suc (unat page)) (Suc (unat page + 1)) = [page + 1]"
      unfolding one using page_numbers_one[of "Suc (unat page)"] by simp
    ultimately show ?thesis
      using False by (subst term_page_loop.simps) (simp add: widen_less)
  qed
qed

lemma round_up_le: "0 < k \<Longrightarrow> (n + k - 1) div k \<le> (n :: nat)"
  by (cases n) (simp_all add: div_add_self2)

lemma term_pages_some:
  assumes "per \<noteq> 0"
  shows "term_pages per num = Some (page_numbers 2 (Suc ((unat num + unat per - 1) div unat per)))"
proof (cases "unat per < unat num")
  case True
  let ?num = "ucast (ucast num - per :: 64 word) :: 32 word"
  have k: "0 < unat per" using assms by (simp add: unat_gt_0)
  have num: "unat ?num = unat num - unat per" using True by (simp add: unat_narrow)
  have div: "(unat num + unat per - 1) div unat per = Suc ((unat num - 1) div unat per)"
    "(unat ?num + unat per - 1) div unat per = (unat num - 1) div unat per"
    unfolding num by (rule round_up_less[OF True k])+
  have one: "unat (1 :: 32 word) = 1" by simp
  have "term_page_loop per ?num 1 =
      Some (page_numbers (Suc (unat (1 :: 32 word))) (Suc (unat (1 :: 32 word) + (unat ?num + unat per - 1) div unat per)))"
  proof (rule term_page_loop_pages)
    show "0 < unat per" by (fact k)
    show "0 < unat ?num" using num True by simp
    have "(unat num - 1) div unat per \<le> unat num - 1" by (rule div_le_dividend)
    then show "unat (1 :: 32 word) + (unat ?num + unat per - 1) div unat per < 4294967296"
      using True unat_32[of num] unfolding one div by linarith
  qed
  then show ?thesis
    using True div by (simp add: term_pages_def widen_less numeral_2_eq_2)
next
  case False
  moreover have k: "0 < unat per" using assms by (simp add: unat_gt_0)
  ultimately have "unat num + unat per - 1 < 2 * unat per" by simp
  then have "(unat num + unat per - 1) div unat per < 2"
    using k by (simp add: div_less_iff_less_mult)
  then show ?thesis using False by (simp add: term_pages_def widen_less page_numbers_def)
qed

text \<open>C21. The archive of a term with \<open>n\<close> posts, \<open>k > 0\<close> to a page, is listed page by page:
  beside the term itself the pages from 2 to the last one, which is \<open>n / k\<close> rounded up; the
  loop ends.\<close>

theorem term_pages_complete:
  assumes "per \<noteq> 0"
  shows "term_pages per num = Some (page_numbers 2 (Suc ((unat num + unat per - 1) div unat per)))"
  using assms by (rule term_pages_some)

theorem term_pages_complete_witness:
  "term_pages 10 35 = Some [2, 3, 4]"
proof -
  have "(10 :: 64 word) \<noteq> 0" by simp
  from term_pages_complete[OF this, of 35] show ?thesis
    by (simp add: page_numbers_def upt_conv_Cons)
qed

lemma narrow_zero: "(ucast (ucast (num :: 32 word) - 0 :: 64 word) :: 32 word) = num"
proof -
  have "unat (ucast (ucast num - 0 :: 64 word) :: 32 word) = unat num"
    using unat_narrow[of 0 num] by simp
  then show ?thesis by (simp only: word_unat_eq_iff)
qed

lemma term_page_loop_zero: "num \<noteq> 0 \<Longrightarrow> term_page_loop 0 num page \<noteq> Some ps"
proof (induction ps arbitrary: page)
  case Nil
  then show ?case
    by (subst term_page_loop.simps) (auto simp: Let_def bind_eq_Some_conv)
next
  case (Cons p ps)
  have "0 < (ucast num :: 64 word)" using Cons.prems by (simp add: widen_less unat_gt_0)
  then show ?case
    using Cons by (subst term_page_loop.simps) (auto simp: Let_def narrow_zero[simplified] bind_eq_Some_conv)
qed

text \<open>With zero posts per page the site map does not come about: for a term with posts the loop
  over its pages never ends, and on the host whose front page is paged the remainder of a division
  by zero is taken.\<close>

theorem zero_posts_per_page:
  assumes "num \<noteq> 0"
  shows "term_pages 0 num = None \<and> front_pages ''www.nginxguts.com'' 0 num = Some None"
proof -
  have pos: "0 < (ucast num :: 64 word)" using assms by (simp add: widen_less unat_gt_0)
  have "term_page_loop 0 num 1 = None"
    using term_page_loop_zero[OF assms, of 1] by (cases "term_page_loop 0 num 1") auto
  moreover have "front_page_loop 0 num 1 = Some None"
    by (subst front_page_loop.simps) simp
  ultimately show ?thesis
    using pos narrow_zero[of num] by (simp add: term_pages_def front_pages_def)
qed

theorem zero_posts_per_page_witness: "term_pages 0 1 = None"
  using zero_posts_per_page[of 1] by simp

text \<open>Of the archive of the front page one page is listed, the second, however many there are: the
  loop's condition compares a remainder with its divisor, which it never equals.\<close>

theorem front_page_lists_one:
  assumes "per \<noteq> 0"
  shows "front_pages hostname per num =
    Some (Some (if hostname = ''www.nginxguts.com'' \<and> per < ucast num then [2] else []))"
proof -
  have "x mod per \<noteq> per" for x :: "64 word"
  proof
    assume "x mod per = per"
    moreover have "unat (x mod per) < unat per"
      using assms by (simp add: unat_mod unat_gt_0)
    ultimately show False by simp
  qed
  then have "front_page_loop per m 1 = Some (Some [2])" for m
    using assms by (subst front_page_loop.simps) simp
  then show ?thesis by (simp add: front_pages_def)
qed

theorem front_page_lists_one_witness:
  "front_pages ''www.nginxguts.com'' 10 95 = Some (Some [2])"
proof -
  have "(10 :: 64 word) \<noteq> 0" by simp
  from front_page_lists_one[OF this, of "''www.nginxguts.com''" 95] show ?thesis
    by (simp add: widen_less)
qed

end
