(* ===== verification/Sitemap_Document.thy ===== *)
theory Sitemap_Document
  imports Sitemap_Handler
begin

text \<open>
  What the site map of \<^verbatim>\<open>src/server/sitemap_handler.cpp\<close> contains: the list of URL
  elements the rows of the database stand for, and the theorem that the handler writes that list.
\<close>

section \<open>The whole site map\<close>

text \<open>The elements a row stands for.\<close>

definition url_node :: "string \<Rightarrow> mysql_time \<Rightarrow> string \<Rightarrow> xml_node" where
  "url_node loc t changefreq = Elem ''url''
     [Add_Child (Elem ''loc'' [Add_Child (Text loc)]),
      Add_Child (Elem ''lastmod'' [Add_Child (Text ((convert_timestamp t)[10 := CHR ''T''] @ ''+00:00''))]),
      Add_Child (Elem ''changefreq'' [Add_Child (Text changefreq)]),
      Add_Child (Elem ''priority'' [Add_Child (Text ''1'')])]"

definition later :: "mysql_time \<Rightarrow> mysql_time \<Rightarrow> mysql_time" where
  "later m d = (if convert_timestamp m \<noteq> ''0000-00-00 00:00:00'' then m else d)"

fun page_entry :: "string \<Rightarrow> buffer list \<Rightarrow> xml_node" where
  "page_entry base [Bytes_Buffer name, Time_Buffer m, Time_Buffer d] =
     url_node (base @ ''/'' @ name @ ''/'') (later m d) ''weekly''"
| "page_entry base _ = Text []"

fun post_entry :: "string \<Rightarrow> buffer list \<Rightarrow> xml_node" where
  "post_entry base [Bytes_Buffer name, Time_Buffer m, Time_Buffer d] =
     url_node (base @ ''/wedding-cakes/'' @ name @ ''/'') (later m d) ''weekly''"
| "post_entry base _ = Text []"

fun term_entries :: "string \<Rightarrow> nat \<Rightarrow> string \<Rightarrow> buffer list \<Rightarrow> xml_node list" where
  "term_entries base k taxonomy [Bytes_Buffer slug, Time_Buffer m, Integer_Buffer n] =
     (let url = base @ ''/'' @ (if taxonomy = ''placecategory'' then ''weddingcakes'' else taxonomy) @ ''/'' @ slug @ ''/''
      in url_node url m ''daily'' #
         map (\<lambda>p. url_node (url @ ''page/'' @ show_nat p @ ''/'') m ''daily'') [2..<Suc ((unat n + k - 1) div k)])"
| "term_entries base k taxonomy _ = []"

fun front_entry :: "string \<Rightarrow> buffer list \<Rightarrow> xml_node" where
  "front_entry base [Time_Buffer m, Integer_Buffer n] = url_node (base @ ''/'') m ''daily''"
| "front_entry base _ = Text []"

definition dated_row :: "buffer list \<Rightarrow> bool" where
  "dated_row r \<longleftrightarrow> (\<exists>name m d. r = [Bytes_Buffer name, Time_Buffer m, Time_Buffer d])"

definition counted_row :: "buffer list \<Rightarrow> bool" where
  "counted_row r \<longleftrightarrow> (\<exists>slug m n. r = [Bytes_Buffer slug, Time_Buffer m, Integer_Buffer n] \<and> unat n < 2147483648)"

definition front_row_ok :: "buffer list \<Rightarrow> bool" where
  "front_row_ok r \<longleftrightarrow> (\<exists>m n. r = [Time_Buffer m, Integer_Buffer n] \<and> unat n < 2147483648)"

abbreviation dated_columns :: "field_type list" where
  "dated_columns \<equiv> [MYSQL_TYPE_VAR_STRING, MYSQL_TYPE_DATETIME, MYSQL_TYPE_DATETIME]"

abbreviation counted_columns :: "field_type list" where
  "counted_columns \<equiv> [MYSQL_TYPE_VAR_STRING, MYSQL_TYPE_DATETIME, MYSQL_TYPE_LONGLONG]"

abbreviation front_columns :: "field_type list" where
  "front_columns \<equiv> [MYSQL_TYPE_DATETIME, MYSQL_TYPE_LONGLONG]"

lemma time_column [simp]:
  "column_to_string \<lparr>col_type = MYSQL_TYPE_DATETIME, col_buffer = Time_Buffer t, col_is_null = nl\<rparr>
     = Returns (convert_timestamp t)"
  by (simp add: column_to_string_def)

lemma convert_timestamp_long: "10 < length (convert_timestamp t)"
proof -
  have "w \<le> length (setw0 w n)" for w n by (simp add: setw0_def)
  from this[of 4 "tm_year t"] this[of 2 "tm_month t"] this[of 2 "tm_day t"] this[of 2 "tm_hour t"]
  show ?thesis by (simp add: convert_timestamp_def)
qed

lemma iso_time_stamp: "iso_time (convert_timestamp t) = Returns ((convert_timestamp t)[10 := CHR ''T''] @ ''+00:00'')"
  using convert_timestamp_long[of t] by (simp add: iso_time_def)

lemma add_url_node:
  "add_url loc ((convert_timestamp t)[10 := CHR ''T''] @ ''+00:00'') freq ''1'' doc = doc_add (url_node loc t freq) doc"
  by (simp add: add_url_def url_node_def text_element_def add_text_def node_add_def XMLNode_new_def c_str_def)

lemma modified_or_posted_eq:
  assumes "asString st 1 = Returns (convert_timestamp m)" "asString st 2 = Returns (convert_timestamp d)"
  shows "modified_or_posted st = Returns (convert_timestamp (later m d))"
  using assms by (simp add: modified_or_posted_def later_def)

lemma page_row_eq:
  assumes "m_column_data st = columns_of dated_columns r" "dated_row r"
  shows "page_row base st doc = Returns (doc_add (page_entry base r) doc)"
proof -
  obtain name m d where r: "r = [Bytes_Buffer name, Time_Buffer m, Time_Buffer d]"
    using assms(2) by (auto simp: dated_row_def)
  have s: "asString st 0 = Returns name" "asString st 1 = Returns (convert_timestamp m)"
    "asString st 2 = Returns (convert_timestamp d)"
    using asString_columns_of[OF assms(1)] by (simp_all add: r eval_nat_numeral)
  show ?thesis
    by (simp add: page_row_def modified_or_posted_eq[OF s(2,3)] s(1) iso_time_stamp add_url_node r)
qed

lemma post_row_eq:
  assumes "m_column_data st = columns_of dated_columns r" "dated_row r" "hostname \<noteq> special_host"
  shows "post_row hostname base st doc = Returns (doc_add (post_entry base r) doc)"
proof -
  obtain name m d where r: "r = [Bytes_Buffer name, Time_Buffer m, Time_Buffer d]"
    using assms(2) by (auto simp: dated_row_def)
  have s: "asString st 0 = Returns name" "asString st 1 = Returns (convert_timestamp m)"
    "asString st 2 = Returns (convert_timestamp d)"
    using asString_columns_of[OF assms(1)] by (simp_all add: r eval_nat_numeral)
  show ?thesis
    using assms(3)
    by (simp add: post_row_def modified_or_posted_eq[OF s(2,3)] s(1,3) iso_time_stamp add_url_node r)
qed

lemma add_pages_numbers:
  assumes "b \<le> 4294967296"
  shows "add_pages url ((convert_timestamp t)[10 := CHR ''T''] @ ''+00:00'') (page_numbers a b) d =
    fold doc_add (map (\<lambda>p. url_node (url @ ''page/'' @ show_nat p @ ''/'') t ''daily'') [a..<b]) d"
proof -
  have "add_pages url ((convert_timestamp t)[10 := CHR ''T''] @ ''+00:00'') (map of_nat ps) d =
      fold doc_add (map (\<lambda>p. url_node (url @ ''page/'' @ show_nat p @ ''/'') t ''daily'') ps) d"
    if "\<forall>p \<in> set ps. p < 4294967296" for ps d
    using that
  proof (induction ps arbitrary: d)
    case (Cons p ps)
    then have "unat (word_of_nat p :: 32 word) = p" by (simp add: unat_of_nat)
    then show ?case using Cons by (simp add: add_pages_def add_url_node)
  qed (simp add: add_pages_def)
  then show ?thesis using assms by (simp add: page_numbers_def)
qed

lemma term_row_eq:
  assumes "m_column_data st = columns_of counted_columns r" "counted_row r" "per \<noteq> 0"
  shows "term_row base per taxonomy st doc = Returns (fold doc_add (term_entries base (unat per) taxonomy r) doc)"
proof -
  obtain slug m n where r: "r = [Bytes_Buffer slug, Time_Buffer m, Integer_Buffer n]" "unat n < 2147483648"
    using assms(2) by (auto simp: counted_row_def)
  have s: "asString st 0 = Returns slug" "asString st 1 = Returns (convert_timestamp m)"
    "asString st 2 = Returns (show_int (sint n))"
    using asString_columns_of[OF assms(1)] by (simp_all add: r(1) eval_nat_numeral)
  have i: "asInt st 2 = Returns (int (unat n))"
    unfolding asInt_def s(3) using small_count(1)[OF r(2)] by simp
  let ?k = "unat per"
  let ?last = "Suc ((unat n + ?k - 1) div ?k)"
  have "term_pages per (word_of_int (int (unat n))) = Some (page_numbers 2 ?last)"
    using term_pages_some[OF assms(3)] small_count(2)[OF r(2)] by simp
  moreover have "(unat n + ?k - 1) div ?k \<le> unat n"
    using assms(3) by (intro round_up_le) (simp add: unat_gt_0)
  then have "?last \<le> 4294967296" using r(2) by simp
  note pages = add_pages_numbers[OF this, of _ m 2]
  ultimately have "term_row base per taxonomy st doc = Returns
      (let url = base @ ''/'' @ (if taxonomy = ''placecategory'' then ''weddingcakes'' else taxonomy) @ ''/'' @ slug @ ''/''
       in fold doc_add (map (\<lambda>p. url_node (url @ ''page/'' @ show_nat p @ ''/'') m ''daily'') [2..<?last])
            (doc_add (url_node url m ''daily'') doc))"
    unfolding term_row_def s(1,2) i bind_outcome_simps Let_def iso_time_stamp add_url_node pages[symmetric]
    by simp
  then show ?thesis by (simp only: r(1) term_entries.simps Let_def fold_Cons comp_apply)
qed

lemma front_row_eq:
  assumes "m_column_data st = columns_of front_columns r" "front_row_ok r" "hostname \<noteq> special_host"
  shows "front_row hostname base per st doc = Returns (doc_add (front_entry base r) doc)"
proof -
  obtain m n where r: "r = [Time_Buffer m, Integer_Buffer n]" "unat n < 2147483648"
    using assms(2) by (auto simp: front_row_ok_def)
  have s: "asString st 0 = Returns (convert_timestamp m)" "asString st 1 = Returns (show_int (sint n))"
    using asString_columns_of[OF assms(1)] by (simp_all add: r(1))
  have i: "asInt st 1 = Returns (int (unat n))"
    unfolding asInt_def s(2) using small_count(1)[OF r(2)] by simp
  show ?thesis
    using assms(3)
    by (simp add: front_row_def s(1) i[simplified] Let_def iso_time_stamp front_pages_def add_pages_def add_url_node r(1))
qed

text \<open>A site's database, by the rows its queries give.\<close>

record site_data =
  home_url :: string
  per_page_text :: string
  page_rows :: "buffer list list"
  post_rows :: "string \<Rightarrow> buffer list list"
  term_rows :: "string \<Rightarrow> buffer list list"
  front_rows :: "buffer list list"

definition bound_text :: "bind_param list \<Rightarrow> string" where
  "bound_text bs = (case bs of [Bound_String s] \<Rightarrow> s | _ \<Rightarrow> [])"

definition site_db :: "mysql \<Rightarrow> site_data \<Rightarrow> bool" where
  "site_db conn d \<longleftrightarrow>
     answers conn (option_sql ''home'') 0 [MYSQL_TYPE_BLOB] (\<lambda>_. [[Bytes_Buffer (home_url d)]]) \<and>
     answers conn (option_sql ''posts_per_page'') 0 [MYSQL_TYPE_BLOB] (\<lambda>_. [[Bytes_Buffer (per_page_text d)]]) \<and>
     answers conn pages_sql 0 dated_columns (\<lambda>_. page_rows d) \<and>
     answers conn posts_sql 1 dated_columns (\<lambda>bs. post_rows d (bound_text bs)) \<and>
     answers conn terms_sql 1 counted_columns (\<lambda>bs. term_rows d (bound_text bs)) \<and>
     answers conn front_sql 0 front_columns (\<lambda>_. front_rows d) \<and>
     (\<forall>r \<in> set (page_rows d). dated_row r) \<and> (\<forall>ty. \<forall>r \<in> set (post_rows d ty). dated_row r) \<and>
     (\<forall>tx. \<forall>r \<in> set (term_rows d tx). counted_row r) \<and> (\<forall>r \<in> set (front_rows d). front_row_ok r)"

definition sitemap_nodes :: "site_data \<Rightarrow> nat \<Rightarrow> xml_node list" where
  "sitemap_nodes d k =
     map (page_entry (home_url d)) (page_rows d) @
     concat (map (\<lambda>ty. map (post_entry (home_url d)) (post_rows d ty)) [''post'', ''place'', ''event'']) @
     concat (map (\<lambda>tx. concat (map (term_entries (home_url d) k tx) (term_rows d tx))) [''category'', ''placecategory'']) @
     map (front_entry (home_url d)) (front_rows d)"

lemma fold_doc_add_concat: "fold (\<lambda>r. fold doc_add (f r)) rs doc = fold doc_add (concat (map f rs)) doc"
  by (induction rs arbitrary: doc) simp_all

text \<open>A statement with one parameter, bound, up to its loop over the rows.\<close>

lemma answers_bound_query:
  assumes "answers conn stmt 1 types rows"
  shows "\<exists>st0 st. DBStmt_new conn stmt = Returns st0 \<and> execute (bindString 0 v st0) = Returns st
    \<and> m_rows st = full_rows (rows [Bound_String v]) \<and> map col_type (m_column_data st) = types"
proof -
  obtain st where st: "DBStmt_new conn stmt = Returns st" "m_handler st = conn" "m_stmt st = stmt"
    "m_bind_in st = [Garbage]" "m_param_count st = 1" "map col_type (m_column_data st) = types"
    "m_blob_params st = []"
    using answers_new[OF assms] by auto
  let ?st = "bindString 0 v st"
  have b: "m_handler ?st = conn" "m_stmt ?st = stmt" "m_bind_in ?st = [Bound_String v]"
    "m_blob_params ?st = []" "m_column_data ?st = m_column_data st"
    using st by (simp_all add: bindString_def)
  then show ?thesis using answers_execute[OF assms b(1,2,4)] st(1,6) by simp
qed

lemma answers_plain_query:
  assumes "answers conn stmt 0 types rows"
  shows "\<exists>st0 st. DBStmt_new conn stmt = Returns st0 \<and> execute st0 = Returns st
    \<and> m_rows st = full_rows (rows []) \<and> map col_type (m_column_data st) = types"
  using answers_query[OF assms] by (auto simp: unpack)

lemma option_read:
  assumes "answers conn stmt 0 [MYSQL_TYPE_BLOB] (\<lambda>_. [[Bytes_Buffer s]])"
  shows "\<exists>st0 st st'. DBStmt_new conn stmt = Returns st0 \<and> execute st0 = Returns st
    \<and> fetch st = Returns (True, st') \<and> asString st' 0 = Returns s"
proof -
  obtain st0 st where st: "DBStmt_new conn stmt = Returns st0" "execute st0 = Returns st"
    "m_rows st = full_rows [[Bytes_Buffer s]]" "map col_type (m_column_data st) = [MYSQL_TYPE_BLOB]"
    using answers_plain_query[OF assms] by auto
  let ?st = "st\<lparr>m_column_data := columns_of [MYSQL_TYPE_BLOB] [Bytes_Buffer s], m_rows := []\<rparr>"
  have "length (m_column_data st) = 1" using arg_cong[OF st(4), of length] by simp
  then have "fetch st = Returns (True, ?st)"
    using st(3,4) fetch_columns_full[of "[Bytes_Buffer s]" "m_column_data st"]
    by (simp add: fetch_def full_rows_def)
  moreover have "asString ?st 0 = Returns s"
    using asString_columns_of[of ?st "[MYSQL_TYPE_BLOB]" "[Bytes_Buffer s]" 0] by simp
  ultimately show ?thesis using st(1,2) by blast
qed

lemma page_urls_eq:
  assumes "site_db conn d"
  shows "page_urls conn base doc = Returns (fold doc_add (map (page_entry base) (page_rows d)) doc)"
proof -
  have a: "answers conn pages_sql 0 dated_columns (\<lambda>_. page_rows d)" and ok: "\<forall>r \<in> set (page_rows d). dated_row r"
    using assms by (auto simp: site_db_def)
  obtain st0 st where st: "DBStmt_new conn pages_sql = Returns st0" "execute st0 = Returns st"
    "m_rows st = full_rows (page_rows d)" "map col_type (m_column_data st) = dated_columns"
    using answers_plain_query[OF a] by auto
  have "while_fetch (page_row base) st doc = Returns (fold (\<lambda>r. doc_add (page_entry base r)) (page_rows d) doc)"
    by (rule while_fetch_full[OF st(3,4) answers_length[OF a]]) (rule page_row_eq, assumption, simp add: ok)
  then show ?thesis by (simp add: page_urls_def st(1,2) fold_map comp_def)
qed

lemma post_urls_eq:
  assumes "site_db conn d" "hostname \<noteq> special_host"
  shows "post_urls conn hostname base ty doc = Returns (fold doc_add (map (post_entry base) (post_rows d ty)) doc)"
proof -
  have a: "answers conn posts_sql 1 dated_columns (\<lambda>bs. post_rows d (bound_text bs))"
    and ok: "\<forall>r \<in> set (post_rows d ty). dated_row r"
    using assms(1) by (auto simp: site_db_def)
  obtain st0 st where st: "DBStmt_new conn posts_sql = Returns st0" "execute (bindString 0 ty st0) = Returns st"
    "m_rows st = full_rows (post_rows d ty)" "map col_type (m_column_data st) = dated_columns"
    using answers_bound_query[OF a, of ty] by (auto simp: bound_text_def)
  have len: "\<forall>r \<in> set (post_rows d ty). length r = length dated_columns"
    using answers_length[OF a, of "[Bound_String ty]"] by (simp add: bound_text_def)
  have "while_fetch (post_row hostname base) st doc =
      Returns (fold (\<lambda>r. doc_add (post_entry base r)) (post_rows d ty) doc)"
    by (rule while_fetch_full[OF st(3,4) len]) (rule post_row_eq, assumption, simp_all add: ok assms(2))
  then show ?thesis by (simp add: post_urls_def st(1,2) fold_map comp_def)
qed

lemma term_urls_eq:
  assumes "site_db conn d" "per \<noteq> 0"
  shows "term_urls conn base per tx doc =
    Returns (fold doc_add (concat (map (term_entries base (unat per) tx) (term_rows d tx))) doc)"
proof -
  have a: "answers conn terms_sql 1 counted_columns (\<lambda>bs. term_rows d (bound_text bs))"
    and ok: "\<forall>r \<in> set (term_rows d tx). counted_row r"
    using assms(1) by (auto simp: site_db_def)
  obtain st0 st where st: "DBStmt_new conn terms_sql = Returns st0" "execute (bindString 0 tx st0) = Returns st"
    "m_rows st = full_rows (term_rows d tx)" "map col_type (m_column_data st) = counted_columns"
    using answers_bound_query[OF a, of tx] by (auto simp: bound_text_def)
  have len: "\<forall>r \<in> set (term_rows d tx). length r = length counted_columns"
    using answers_length[OF a, of "[Bound_String tx]"] by (simp add: bound_text_def)
  have "while_fetch (term_row base per tx) st doc =
      Returns (fold (\<lambda>r. fold doc_add (term_entries base (unat per) tx r)) (term_rows d tx) doc)"
    by (rule while_fetch_full[OF st(3,4) len]) (rule term_row_eq, assumption, simp_all add: ok assms(2))
  then show ?thesis by (simp add: term_urls_def st(1,2) fold_doc_add_concat)
qed

lemma front_urls_eq:
  assumes "site_db conn d" "hostname \<noteq> special_host"
  shows "front_urls conn hostname base per doc = Returns (fold doc_add (map (front_entry base) (front_rows d)) doc)"
proof -
  have a: "answers conn front_sql 0 front_columns (\<lambda>_. front_rows d)" and ok: "\<forall>r \<in> set (front_rows d). front_row_ok r"
    using assms(1) by (auto simp: site_db_def)
  obtain st0 st where st: "DBStmt_new conn front_sql = Returns st0" "execute st0 = Returns st"
    "m_rows st = full_rows (front_rows d)" "map col_type (m_column_data st) = front_columns"
    using answers_plain_query[OF a] by auto
  have "while_fetch (front_row hostname base per) st doc =
      Returns (fold (\<lambda>r. doc_add (front_entry base r)) (front_rows d) doc)"
    by (rule while_fetch_full[OF st(3,4) answers_length[OF a]]) (rule front_row_eq, assumption, simp_all add: ok assms(2))
  then show ?thesis by (simp add: front_urls_def st(1,2) fold_map comp_def)
qed

lemma options_eq:
  assumes "site_db conn d" "read_int (per_page_text d) = Some v"
  shows "get_base_url conn = Returns (home_url d)" "get_num_posts_per_page conn = Returns (word_of_int v)"
proof -
  have "answers conn (option_sql ''home'') 0 [MYSQL_TYPE_BLOB] (\<lambda>_. [[Bytes_Buffer (home_url d)]])"
    "answers conn (option_sql ''posts_per_page'') 0 [MYSQL_TYPE_BLOB] (\<lambda>_. [[Bytes_Buffer (per_page_text d)]])"
    using assms(1) by (simp_all add: site_db_def)
  note a = option_read[OF this(1)] option_read[OF this(2)]
  show "get_base_url conn = Returns (home_url d)"
    using a(1) by (auto simp: get_base_url_def)
  show "get_num_posts_per_page conn = Returns (word_of_int v)"
    using a(2) assms(2) by (auto simp: get_num_posts_per_page_def asInt_def)
qed

lemma sitemap_handled:
  assumes "map_find sites (get_fcgi_param rq ''SERVER_NAME'') = Some db_pool"
    and "get_fcgi_param rq ''SERVER_NAME'' \<noteq> ''www.nginxguts.com''"
    and "get_conn db_pool = Returns conn" "site_db conn d"
    and "read_int (per_page_text d) = Some (int k)" "0 < k"
  shows "sitemap_handle dump get_conn sites rq rs =
    Returns (write_page dump ''application/xml''
      (fold doc_add (sitemap_nodes d k) (sitemap_head (get_fcgi_param rq ''SERVER_NAME''))) rs)"
proof -
  let ?h = "get_fcgi_param rq ''SERVER_NAME''"
  define per where "per = (word_of_int (int k) :: 64 word)"
  have "k < 2147483648"
    using assms(5) by (auto simp: read_int_def Let_def split: if_splits)
  then have k: "unat per = k" by (simp add: per_def unat_of_nat)
  then have per: "per \<noteq> 0" using assms(6) by (metis unat_0 less_irrefl)
  have "get_num_posts_per_page conn = Returns per"
    unfolding per_def by (rule options_eq(2)[OF assms(4,5)])
  then have "sitemap_doc conn ?h = Returns (fold doc_add (sitemap_nodes d k) (sitemap_head ?h))"
    using assms(2)
    by (simp add: sitemap_doc_def options_eq(1)[OF assms(4,5)] page_urls_eq[OF assms(4)]
        post_urls_eq[OF assms(4) assms(2)] post_types_def term_urls_eq[OF assms(4) per] taxonomy_types_def
        front_urls_eq[OF assms(4) assms(2)] k sitemap_nodes_def)
  then show ?thesis
    using assms(1,3) by (simp add: sitemap_handle_def)
qed

text \<open>The same for every host: \<open>special_host\<close> has dated URLs for its posts, no places and events, its
  authors, and a second page of its front page when the posts do not fit one.\<close>

fun dated_post_entry :: "string \<Rightarrow> buffer list \<Rightarrow> xml_node" where
  "dated_post_entry base [Bytes_Buffer name, Time_Buffer m, Time_Buffer d] =
     url_node (base @ ''/'' @ take 4 (convert_timestamp d) @ ''/'' @ take 2 (drop 5 (convert_timestamp d)) @ ''/'' @ name @ ''/'')
       (later m d) ''monthly''"
| "dated_post_entry base _ = Text []"

fun author_entry :: "string \<Rightarrow> buffer list \<Rightarrow> xml_node" where
  "author_entry base [Bytes_Buffer login, Time_Buffer m] = url_node (base @ ''/author/'' @ login @ ''/'') m ''daily''"
| "author_entry base _ = Text []"

fun front_entries :: "string \<Rightarrow> string \<Rightarrow> nat \<Rightarrow> buffer list \<Rightarrow> xml_node list" where
  "front_entries hostname base k [Time_Buffer m, Integer_Buffer n] =
     url_node (base @ ''/'') m ''daily'' #
     (if hostname = special_host \<and> k < unat n then [url_node (base @ ''/page/2/'') m ''daily''] else [])"
| "front_entries hostname base k _ = [Text []]"

definition sitemap_entries :: "string \<Rightarrow> site_data \<Rightarrow> buffer list list \<Rightarrow> nat \<Rightarrow> xml_node list" where
  "sitemap_entries hostname d authors k =
     map (page_entry (home_url d)) (page_rows d) @
     concat (map (\<lambda>ty. map ((if hostname = special_host then dated_post_entry else post_entry) (home_url d)) (post_rows d ty))
       (post_types hostname)) @
     concat (map (\<lambda>tx. concat (map (term_entries (home_url d) k tx) (term_rows d tx))) (taxonomy_types hostname)) @
     (if hostname = special_host then map (author_entry (home_url d)) authors else []) @
     concat (map (front_entries hostname (home_url d) k) (front_rows d))"

definition author_row_ok :: "buffer list \<Rightarrow> bool" where
  "author_row_ok r \<longleftrightarrow> (\<exists>login m. r = [Bytes_Buffer login, Time_Buffer m])"

definition authors_db :: "mysql \<Rightarrow> buffer list list \<Rightarrow> bool" where
  "authors_db conn authors \<longleftrightarrow>
     answers conn authors_sql 0 [MYSQL_TYPE_VAR_STRING, MYSQL_TYPE_DATETIME] (\<lambda>_. authors) \<and>
     (\<forall>r \<in> set authors. author_row_ok r)"

lemma front_entries_other: "hostname \<noteq> special_host \<Longrightarrow> concat (map (front_entries hostname base k) rs) = map (front_entry base) rs"
proof (induction rs)
  case (Cons r rs)
  have "front_entries hostname base k r = [front_entry base r]"
    using Cons.prems by (cases "(hostname, base, k, r)" rule: front_entries.cases) simp_all
  then show ?case using Cons by simp
qed simp

lemma sitemap_entries_other:
  "hostname \<noteq> special_host \<Longrightarrow> sitemap_entries hostname d authors k = sitemap_nodes d k"
  by (simp add: sitemap_entries_def sitemap_nodes_def post_types_def taxonomy_types_def front_entries_other)

lemma dated_post_row_eq:
  assumes "m_column_data st = columns_of dated_columns r" "dated_row r"
  shows "post_row special_host base st doc = Returns (doc_add (dated_post_entry base r) doc)"
proof -
  obtain name m d where r: "r = [Bytes_Buffer name, Time_Buffer m, Time_Buffer d]"
    using assms(2) by (auto simp: dated_row_def)
  have s: "asString st 0 = Returns name" "asString st 1 = Returns (convert_timestamp m)"
    "asString st 2 = Returns (convert_timestamp d)"
    using asString_columns_of[OF assms(1)] by (simp_all add: r eval_nat_numeral)
  have "std_substr (convert_timestamp d) 0 4 = Inr (take 4 (convert_timestamp d))"
    "std_substr (convert_timestamp d) 5 2 = Inr (take 2 (drop 5 (convert_timestamp d)))"
    using convert_timestamp_long[of d] by (simp_all add: std_substr_def)
  then show ?thesis
    by (simp add: post_row_def modified_or_posted_eq[OF s(2,3)] s(1,3) iso_time_stamp add_url_node r of_result_def)
qed

lemma author_row_eq:
  assumes "m_column_data st = columns_of [MYSQL_TYPE_VAR_STRING, MYSQL_TYPE_DATETIME] r" "author_row_ok r"
  shows "author_row base st doc = Returns (doc_add (author_entry base r) doc)"
proof -
  obtain login m where r: "r = [Bytes_Buffer login, Time_Buffer m]"
    using assms(2) by (auto simp: author_row_ok_def)
  have s: "asString st 0 = Returns login" "asString st 1 = Returns (convert_timestamp m)"
    using asString_columns_of[OF assms(1)] by (simp_all add: r)
  show ?thesis by (simp add: author_row_def s[simplified] iso_time_stamp add_url_node r)
qed

lemma show_nat_2: "show_nat 2 = ''2''"
  by code_simp

lemma front_row_entries:
  assumes "m_column_data st = columns_of front_columns r" "front_row_ok r" "per \<noteq> 0"
  shows "front_row hostname base per st doc =
    Returns (fold doc_add (front_entries hostname base (unat per) r) doc)"
proof -
  obtain m n where r: "r = [Time_Buffer m, Integer_Buffer n]" "unat n < 2147483648"
    using assms(2) by (auto simp: front_row_ok_def)
  have s: "asString st 0 = Returns (convert_timestamp m)" "asString st 1 = Returns (show_int (sint n))"
    using asString_columns_of[OF assms(1)] by (simp_all add: r(1))
  have i: "asInt st 1 = Returns (int (unat n))"
    unfolding asInt_def s(2) using small_count(1)[OF r(2)] by simp
  have more: "per < ucast (word_of_int (int (unat n)) :: 32 word) \<longleftrightarrow> unat per < unat n"
    unfolding widen_less small_count(2)[OF r(2)] ..
  show ?thesis
    using front_page_lists_one[OF assms(3), of hostname "word_of_int (int (unat n))", unfolded more]
    by (simp add: front_row_def s(1) i[simplified] Let_def iso_time_stamp add_pages_def add_url_node r(1) show_nat_2)
qed

lemma special_post_urls:
  assumes "site_db conn d"
  shows "post_urls conn special_host base ty doc =
    Returns (fold doc_add (map (dated_post_entry base) (post_rows d ty)) doc)"
proof -
  have a: "answers conn posts_sql 1 dated_columns (\<lambda>bs. post_rows d (bound_text bs))"
    and ok: "\<forall>r \<in> set (post_rows d ty). dated_row r"
    using assms(1) by (auto simp: site_db_def)
  obtain st0 st where st: "DBStmt_new conn posts_sql = Returns st0" "execute (bindString 0 ty st0) = Returns st"
    "m_rows st = full_rows (post_rows d ty)" "map col_type (m_column_data st) = dated_columns"
    using answers_bound_query[OF a, of ty] by (auto simp: bound_text_def)
  have len: "\<forall>r \<in> set (post_rows d ty). length r = length dated_columns"
    using answers_length[OF a, of "[Bound_String ty]"] by (simp add: bound_text_def)
  have "while_fetch (post_row special_host base) st doc =
      Returns (fold (\<lambda>r. doc_add (dated_post_entry base r)) (post_rows d ty) doc)"
    by (rule while_fetch_full[OF st(3,4) len]) (rule dated_post_row_eq, assumption, simp add: ok)
  then show ?thesis by (simp add: post_urls_def st(1,2) fold_map comp_def)
qed

lemma author_urls_eq:
  assumes "authors_db conn authors"
  shows "author_urls conn base doc = Returns (fold doc_add (map (author_entry base) authors) doc)"
proof -
  have a: "answers conn authors_sql 0 [MYSQL_TYPE_VAR_STRING, MYSQL_TYPE_DATETIME] (\<lambda>_. authors)"
    and ok: "\<forall>r \<in> set authors. author_row_ok r"
    using assms by (auto simp: authors_db_def)
  obtain st0 st where st: "DBStmt_new conn authors_sql = Returns st0" "execute st0 = Returns st"
    "m_rows st = full_rows authors" "map col_type (m_column_data st) = [MYSQL_TYPE_VAR_STRING, MYSQL_TYPE_DATETIME]"
    using answers_plain_query[OF a] by auto
  have "while_fetch (author_row base) st doc = Returns (fold (\<lambda>r. doc_add (author_entry base r)) authors doc)"
    by (rule while_fetch_full[OF st(3,4) answers_length[OF a]]) (rule author_row_eq, assumption, simp add: ok)
  then show ?thesis by (simp add: author_urls_def st(1,2) fold_map comp_def)
qed

lemma front_urls_entries:
  assumes "site_db conn d" "per \<noteq> 0"
  shows "front_urls conn hostname base per doc =
    Returns (fold doc_add (concat (map (front_entries hostname base (unat per)) (front_rows d))) doc)"
proof -
  have a: "answers conn front_sql 0 front_columns (\<lambda>_. front_rows d)" and ok: "\<forall>r \<in> set (front_rows d). front_row_ok r"
    using assms(1) by (auto simp: site_db_def)
  obtain st0 st where st: "DBStmt_new conn front_sql = Returns st0" "execute st0 = Returns st"
    "m_rows st = full_rows (front_rows d)" "map col_type (m_column_data st) = front_columns"
    using answers_plain_query[OF a] by auto
  have "while_fetch (front_row hostname base per) st doc =
      Returns (fold (\<lambda>r. fold doc_add (front_entries hostname base (unat per) r)) (front_rows d) doc)"
    by (rule while_fetch_full[OF st(3,4) answers_length[OF a]]) (rule front_row_entries, assumption, simp_all add: ok assms(2))
  then show ?thesis by (simp add: front_urls_def st(1,2) fold_doc_add_concat)
qed

lemma sitemap_doc_entries:
  assumes "site_db conn d" "hostname = special_host \<longrightarrow> authors_db conn authors"
    and "read_int (per_page_text d) = Some (int k)" "0 < k"
  shows "sitemap_doc conn hostname = Returns (fold doc_add (sitemap_entries hostname d authors k) (sitemap_head hostname))"
proof -
  define per where "per = (word_of_int (int k) :: 64 word)"
  have "k < 2147483648"
    using assms(3) by (auto simp: read_int_def Let_def split: if_splits)
  then have k: "unat per = k" by (simp add: per_def unat_of_nat)
  then have per: "per \<noteq> 0" using assms(4) by (metis unat_0 less_irrefl)
  have opt: "get_num_posts_per_page conn = Returns per" "get_base_url conn = Returns (home_url d)"
    unfolding per_def using options_eq[OF assms(1,3)] by simp_all
  show ?thesis
  proof (cases "hostname = special_host")
    case True
    then have au: "authors_db conn authors" using assms(2) by simp
    show ?thesis
      unfolding True
      by (simp add: sitemap_doc_def opt page_urls_eq[OF assms(1)] special_post_urls[OF assms(1)] post_types_def
          term_urls_eq[OF assms(1) per] taxonomy_types_def author_urls_eq[OF au] front_urls_entries[OF assms(1) per]
          k sitemap_entries_def)
  next
    case False
    show ?thesis
      unfolding sitemap_entries_other[OF False]
      by (simp add: sitemap_doc_def opt page_urls_eq[OF assms(1)] False
          post_urls_eq[OF assms(1) False] post_types_def term_urls_eq[OF assms(1) per] taxonomy_types_def
          front_urls_eq[OF assms(1) False] k sitemap_nodes_def)
  qed
qed

text \<open>C20. The site map of a configured host is complete, when the site has a positive number of posts per page
  and its queries give rows without NULLs (so that the blog has a published post): it lists every
  page, every post of the kinds the host has, every category and place category with all pages of its
  archive, on the host www.nginxguts.com every author, and the front page, there with its second page
  when the posts do not fit the first, in this order and nothing else, each with its time of change;
  the answer has the status 200.\<close>

theorem sitemap_complete:
  assumes "map_find sites (get_fcgi_param rq ''SERVER_NAME'') = Some db_pool"
    and "get_conn db_pool = Returns conn" "site_db conn d"
    and "get_fcgi_param rq ''SERVER_NAME'' = special_host \<longrightarrow> authors_db conn authors"
    and "read_int (per_page_text d) = Some (int k)" "0 < k"
  shows "sitemap_handle dump get_conn sites rq rs =
    Returns (write_page dump ''application/xml''
      (fold doc_add (sitemap_entries (get_fcgi_param rq ''SERVER_NAME'') d authors k)
        (sitemap_head (get_fcgi_param rq ''SERVER_NAME''))) rs)"
  using assms(1,2) by (simp add: sitemap_handle_def Let_def sitemap_doc_entries[OF assms(3-6)])

text \<open>On a blog without a published post the greatest time of change is NULL, and the buffer of its column
  has never been written when the front page reads it.\<close>

theorem empty_blog_reads_unset:
  assumes "sql_prepare conn front_sql = Inr (0, front_columns)"
    and "\<And>bs n. sql_execute conn front_sql bs n = Inr [Row [Null_Cell, Cell (Integer_Buffer 0)]]"
  shows "front_urls conn hostname base per doc = Undefined"
proof -
  have "column_to_string \<lparr>col_type = MYSQL_TYPE_DATETIME, col_buffer = Unset_Buffer, col_is_null = True\<rparr> = Undefined"
    by (simp add: column_to_string_def)
  then have "while_fetch (front_row hostname base per)
      \<lparr>m_handler = conn, m_stmt = front_sql, m_bind_in = [], m_param_count = 0,
       m_column_data = map (\<lambda>ty. \<lparr>col_type = ty, col_buffer = Unset_Buffer, col_is_null = False\<rparr>) front_columns,
       m_blob_params = [], m_rows = [Row [Null_Cell, Cell (Integer_Buffer 0)]]\<rparr> doc = Undefined"
    by (subst while_fetch.simps) (simp add: fetch_def fetch_column_def front_row_def asString_def m_num_fields_def)
  then show ?thesis using assms by (simp add: front_urls_def DBStmt_new_def execute_def)
qed

text \<open>A small site, as an example: one post, one category with 25 posts, ten to a page.\<close>

definition site_conn :: "site_data \<Rightarrow> mysql" where
  "site_conn d = \<lparr>
     sql_prepare = (\<lambda>s.
       if s = option_sql ''home'' \<or> s = option_sql ''posts_per_page'' then Inr (0, [MYSQL_TYPE_BLOB])
       else if s = pages_sql then Inr (0, dated_columns)
       else if s = posts_sql then Inr (1, dated_columns)
       else if s = terms_sql then Inr (1, counted_columns)
       else if s = front_sql then Inr (0, front_columns) else Inl ''unknown''),
     sql_execute = (\<lambda>s bs _. Inr (full_rows
       (if s = option_sql ''home'' then [[Bytes_Buffer (home_url d)]]
        else if s = option_sql ''posts_per_page'' then [[Bytes_Buffer (per_page_text d)]]
        else if s = pages_sql then page_rows d
        else if s = posts_sql then post_rows d (bound_text bs)
        else if s = terms_sql then term_rows d (bound_text bs)
        else if s = front_sql then front_rows d else [])))\<rparr>"

definition a_day :: mysql_time where
  "a_day = \<lparr>tm_year = 2012, tm_month = 3, tm_day = 9, tm_hour = 0, tm_minute = 5, tm_second = 59\<rparr>"

definition sample_site :: site_data where
  "sample_site = \<lparr>home_url = ''http://w'', per_page_text = ''10'', page_rows = [],
     post_rows = (\<lambda>ty. if ty = ''post'' then [[Bytes_Buffer ''cake'', Time_Buffer a_day, Time_Buffer a_day]] else []),
     term_rows = (\<lambda>tx. if tx = ''category'' then [[Bytes_Buffer ''c'', Time_Buffer a_day, Integer_Buffer 25]] else []),
     front_rows = [[Time_Buffer a_day, Integer_Buffer 1]]\<rparr>"

lemma sql_texts_differ:
  "option_sql ''home'' \<noteq> option_sql ''posts_per_page''"
  "pages_sql \<notin> {option_sql ''home'', option_sql ''posts_per_page''}"
  "posts_sql \<notin> {option_sql ''home'', option_sql ''posts_per_page'', pages_sql}"
  "terms_sql \<notin> {option_sql ''home'', option_sql ''posts_per_page'', pages_sql, posts_sql}"
  "front_sql \<notin> {option_sql ''home'', option_sql ''posts_per_page'', pages_sql, posts_sql, terms_sql}"
  by (simp_all add: option_sql_def pages_sql_def posts_sql_def terms_sql_def front_sql_def quoted_def)

lemma sample_site_db: "site_db (site_conn sample_site) sample_site"
  using sql_texts_differ
  by (auto simp: site_db_def answers_def site_conn_def sample_site_def dated_row_def counted_row_def front_row_ok_def)

definition sitemap_request :: fcgi_request where
  "sitemap_request = \<lparr>fcgi_in = in_open [], m_params = [], m_formdata_params = [],
     envp = (\<lambda>n. if n = ''SERVER_NAME'' then Some ''wordpress.example.com'' else None)\<rparr>"

theorem sitemap_complete_witness:
  "\<forall>dump rs. sitemap_handle dump (\<lambda>_. Returns (site_conn sample_site)) [(''wordpress.example.com'', 0)] sitemap_request rs =
    Returns (write_page dump ''application/xml''
      (fold doc_add (sitemap_nodes sample_site 10) (sitemap_head ''wordpress.example.com'')) rs)"
proof (intro allI)
  fix dump rs
  have name: "get_fcgi_param sitemap_request ''SERVER_NAME'' = ''wordpress.example.com''"
    by (simp add: get_fcgi_param_def sitemap_request_def)
  have "read_int (per_page_text sample_site) = Some (int 10)"
    by (simp add: sample_site_def read_int_def is_space_def is_digit_def digits_val_def digit_val_def)
  from sitemap_complete[OF _ refl sample_site_db _ this, where sites = "[(''wordpress.example.com'', 0)]"
      and rq = sitemap_request and db_pool = 0 and dump = dump and rs = rs and authors = "[]", unfolded name]
  show "sitemap_handle dump (\<lambda>_. Returns (site_conn sample_site)) [(''wordpress.example.com'', 0)] sitemap_request rs =
    Returns (write_page dump ''application/xml''
      (fold doc_add (sitemap_nodes sample_site 10) (sitemap_head ''wordpress.example.com'')) rs)"
    by (simp add: map_find_def sitemap_entries_other)
qed

end
