(* ===== verification/Deallocation.thy ===== *)
theory Deallocation
  imports Prelude
begin

text \<open>
  The contract of \<open>delete\<close>: it ends the life of an object that is alive and is undefined for any
  other (\<open>deallocation\<close>), with what a loop of deletions then does. The connections of a pool and
  the buffers of a statement are deleted in such loops.
\<close>

locale deallocation =
  fixes alive :: "'m \<Rightarrow> 'a set" and del :: "'a \<Rightarrow> 'm \<Rightarrow> 'm outcome"
  assumes del_alive: "a \<in> alive m \<Longrightarrow> \<exists>m'. del a m = Returns m' \<and> alive m' = alive m - {a}"
    and del_dead: "a \<notin> alive m \<Longrightarrow> del a m = Undefined"
begin

lemma delete_each_once:
  "distinct as \<Longrightarrow> set as \<subseteq> alive m \<Longrightarrow> \<exists>m'. for_each del as m = Returns m' \<and> alive m' = alive m - set as"
proof (induction as arbitrary: m)
  case (Cons a as)
  then obtain m1 where 1: "del a m = Returns m1" "alive m1 = alive m - {a}" using del_alive[of a m] by auto
  then have "set as \<subseteq> alive m1" using Cons.prems by auto
  then show ?case using Cons.IH[of m1] Cons.prems(1) 1 by auto
qed simp

lemma delete_fails: "\<not> (distinct as \<and> set as \<subseteq> alive m) \<Longrightarrow> for_each del as m = Undefined"
proof (induction as arbitrary: m)
  case (Cons a as)
  show ?case
  proof (cases "a \<in> alive m")
    case True
    then obtain m1 where 1: "del a m = Returns m1" "alive m1 = alive m - {a}" using del_alive by blast
    then have "\<not> (distinct as \<and> set as \<subseteq> alive m1)" using Cons.prems True by auto
    then show ?thesis using Cons.IH[of m1] 1(1) by simp
  next
    case False
    then show ?thesis using del_dead by simp
  qed
qed simp

lemma deletes_iff: "for_each del as m = Undefined \<longleftrightarrow> \<not> (distinct as \<and> set as \<subseteq> alive m)"
  using delete_each_once[of as m] delete_fails[of as m] by auto

end

end
