(* ===== verification/Db_Pool.thy ===== *)
theory Db_Pool
  imports Deallocation Step_System
begin

text \<open>
  The pool of database connections that the worker threads share, and its maintenance thread
  (the class \<open>DBPool\<close> of \<^verbatim>\<open>src/db/db_pool.h\<close> and
  \<^verbatim>\<open>src/db/db_pool.cpp\<close>, with \<open>DBConnHolder\<close>).

  A \<open>DBConn*\<close> is a number. Opening a connection (\<open>new DBConn\<close>) is a parameter of the
  step that does it: the new object, or the exception the constructor throws. The clock is a
  parameter too. First the operations, each the code between taking and releasing
  \<open>m_lock\<close>; then the threads that interleave them.
\<close>

section \<open>The pool and its operations\<close>

type_synonym conn = nat

record pool =
  m_all_connections :: "conn list"
  m_available_connections :: "conn list"
  m_min_connections :: nat
  m_max_connections :: nat
  m_num_connections :: nat
  m_num_available :: nat
  m_last_used :: "conn \<Rightarrow> int"

definition DBPool_new :: "nat \<Rightarrow> nat \<Rightarrow> pool" where
  "DBPool_new min_conns max_conns =
     \<lparr>m_all_connections = [], m_available_connections = [], m_min_connections = min_conns,
      m_max_connections = max_conns, m_num_connections = 0, m_num_available = 0,
      m_last_used = (\<lambda>_. 0)\<rparr>"

definition touch :: "conn \<Rightarrow> int \<Rightarrow> pool \<Rightarrow> pool" where
  "touch c now p = p\<lparr>m_last_used := (m_last_used p)(c := now)\<rparr>"

definition grow :: "conn result \<Rightarrow> int \<Rightarrow> pool \<Rightarrow> (conn \<times> pool) result" where
  "grow opened now p =
     bind_result opened (\<lambda>c.
       Inr (c, (touch c now p)\<lparr>m_all_connections := m_all_connections p @ [c],
                               m_num_connections := m_num_connections p + 1\<rparr>))"

text \<open>The end of \<open>get\<close>; \<open>None\<close> is the undefined \<open>front()\<close> of an empty list.\<close>

definition take_front :: "int \<Rightarrow> pool \<Rightarrow> (conn \<times> pool) option" where
  "take_front now p =
     (case m_available_connections p of
        [] \<Rightarrow> None
      | c # cs \<Rightarrow> Some (c, touch c now (p\<lparr>m_available_connections := cs,
                              m_num_available := size_sub (m_num_available p) 1\<rparr>)))"

datatype get_outcome = Grown conn pool | Reused conn pool | Must_Wait | Get_Throws exn

text \<open>\<open>get\<close> up to its return, to \<open>pthread_cond_wait\<close>, or to the exception of \<open>grow\<close>.\<close>

definition pool_get :: "conn result \<Rightarrow> int \<Rightarrow> pool \<Rightarrow> get_outcome" where
  "pool_get opened now p =
     (if m_num_available p = 0 \<and> m_num_connections p < m_max_connections p then
        (case grow opened now p of
           Inl e \<Rightarrow> Get_Throws e
         | Inr (c, p') \<Rightarrow> Grown c (touch c now p'))
      else if m_available_connections p = [] then Must_Wait
      else (case take_front now p of None \<Rightarrow> Must_Wait | Some (c, p') \<Rightarrow> Reused c p'))"

definition pool_put :: "conn \<Rightarrow> int \<Rightarrow> pool \<Rightarrow> pool" where
  "pool_put c now p =
     touch c now (p\<lparr>m_available_connections := m_available_connections p @ [c],
                   m_num_available := m_num_available p + 1\<rparr>)"

section \<open>Maintenance\<close>

text \<open>The first connection that has been idle for 60 seconds is taken out and closed.\<close>

definition idle :: "int \<Rightarrow> pool \<Rightarrow> conn \<Rightarrow> bool" where
  "idle now p c \<longleftrightarrow> 60 \<le> now - m_last_used p c"

definition maintain :: "int \<Rightarrow> pool \<Rightarrow> pool \<times> conn option" where
  "maintain now p =
     (case List.find (idle now p) (m_available_connections p) of
        None \<Rightarrow> (p, None)
      | Some c \<Rightarrow> (p\<lparr>m_available_connections := remove1 c (m_available_connections p),
                      m_num_connections := size_sub (m_num_connections p) 1,
                      m_num_available := size_sub (m_num_available p) 1\<rparr>, Some c))"

text \<open>
  The static members: the pools that are registered, by their addresses, and the flags. The
  pools themselves are in a store, for the worker threads go on changing them.
\<close>

type_synonym pool_store = "nat \<Rightarrow> pool"

record maintenance =
  mt_pools :: "nat list"
  mt_running :: bool
  mt_exiting :: bool
  mt_threads :: nat

definition start_maintenance_thread :: "nat \<Rightarrow> maintenance \<Rightarrow> maintenance" where
  "start_maintenance_thread p m =
     (let m1 = m\<lparr>mt_pools := mt_pools m @ [p]\<rparr>
      in if \<not> mt_running m1 then m1\<lparr>mt_threads := mt_threads m1 + 1, mt_running := True\<rparr> else m1)"

definition join_maintenance_thread :: "maintenance \<Rightarrow> maintenance" where
  "join_maintenance_thread m = m\<lparr>mt_exiting := True\<rparr>"

text \<open>One turn over the registered pools, with the connections it closes.\<close>

fun maintenance_turn :: "int \<Rightarrow> nat list \<Rightarrow> pool_store \<Rightarrow> pool_store \<times> conn list" where
  "maintenance_turn now [] h = (h, [])"
| "maintenance_turn now (p # ps) h =
     (let (q, to_remove) = maintain now (h p);
          (h', closed) = maintenance_turn now ps (h(p := q))
      in (h', (case to_remove of None \<Rightarrow> closed | Some c \<Rightarrow> c # closed)))"

text \<open>The thread: before each turn the other threads have done something to the pools; the turn finds
  a clock and, at its end, the exit flag. The thread ends after a turn that found the flag set.\<close>

fun maintenance_thread_func ::
  "(int \<times> (pool_store \<Rightarrow> pool_store) \<times> bool) list \<Rightarrow> nat list \<Rightarrow> pool_store \<Rightarrow> pool_store \<times> conn list" where
  "maintenance_thread_func [] ps h = (h, [])"
| "maintenance_thread_func ((now, others, exiting) # turns) ps h =
     (let (h1, closed) = maintenance_turn now ps (others h)
      in if exiting then (h1, closed)
         else (let (h2, closed') = maintenance_thread_func turns ps h1 in (h2, closed @ closed')))"

text \<open>The destructor deletes what \<open>m_all_connections\<close> lists; deleting an object that is not alive
  is undefined.\<close>

definition delete_conn :: "conn \<Rightarrow> conn set \<Rightarrow> conn set outcome" where
  "delete_conn c live = (if c \<in> live then Returns (live - {c}) else Undefined)"

definition DBPool_delete :: "pool \<Rightarrow> conn set \<Rightarrow> conn set outcome" where
  "DBPool_delete p live = for_each delete_conn (m_all_connections p) live"

interpretation connections: deallocation "\<lambda>live. live" delete_conn
  by unfold_locales (auto simp: delete_conn_def)

section \<open>Threads\<close>

text \<open>
  A thread is outside the pool, blocked in \<open>pthread_cond_wait\<close>, woken but without the lock
  yet, or using a connection (it has a \<open>DBConnHolder\<close>). \<open>lock_owner\<close> is the thread
  that left \<open>get\<close> without unlocking, for \<open>get\<close> has no handler around \<open>grow\<close>.
  \<open>removing\<close> is \<open>to_remove\<close> of the maintenance thread: it takes a connection out with the
  lock held, and the \<open>auto_ptr\<close> deletes it at the end of the loop body, when the lock has been
  released. \<open>live\<close> holds the connection objects that exist, \<open>fault\<close> the first
  undefined behaviour.
\<close>

type_synonym tid = nat

datatype thread = Outside | Waiting | Woken | Using conn

datatype pool_fault = Front_Of_Empty | Use_After_Close | Deleted_Twice

record sys =
  the_pool :: pool
  threads :: "tid \<Rightarrow> thread"
  lock_owner :: "tid option"
  removing :: "conn option"
  live :: "conn set"
  fault :: "pool_fault option"

definition fresh_sys :: "nat \<Rightarrow> nat \<Rightarrow> sys" where
  "fresh_sys min_conns max_conns =
     \<lparr>the_pool = DBPool_new min_conns max_conns, threads = (\<lambda>_. Outside), lock_owner = None,
      removing = None, live = {}, fault = None\<rparr>"

definition pool_start :: "nat \<Rightarrow> nat \<Rightarrow> sys \<Rightarrow> bool" where
  "pool_start min_conns max_conns s \<longleftrightarrow> max_conns \<le> npos \<and> s = fresh_sys min_conns max_conns"

definition runs :: "sys \<Rightarrow> bool" where
  "runs s \<longleftrightarrow> lock_owner s = None \<and> fault s = None"

abbreviation move :: "sys \<Rightarrow> tid \<Rightarrow> thread \<Rightarrow> tid \<Rightarrow> thread" where
  "move s t x \<equiv> (threads s)(t := x)"

inductive pool_step :: "sys \<Rightarrow> sys \<Rightarrow> bool" where
  get_grown: "runs s \<Longrightarrow> threads s t = Outside \<Longrightarrow> c \<notin> live s \<Longrightarrow>
     pool_get (Inr c) now (the_pool s) = Grown c p \<Longrightarrow>
     pool_step s (s\<lparr>the_pool := p, threads := move s t (Using c), live := insert c (live s)\<rparr>)"
| get_reused: "runs s \<Longrightarrow> threads s t = Outside \<Longrightarrow>
     pool_get opened now (the_pool s) = Reused c p \<Longrightarrow>
     pool_step s (s\<lparr>the_pool := p, threads := move s t (Using c)\<rparr>)"
| get_waits: "runs s \<Longrightarrow> threads s t = Outside \<Longrightarrow>
     pool_get opened now (the_pool s) = Must_Wait \<Longrightarrow>
     pool_step s (s\<lparr>threads := move s t Waiting\<rparr>)"
| get_throws: "runs s \<Longrightarrow> threads s t = Outside \<Longrightarrow>
     pool_get (Inl e) now (the_pool s) = Get_Throws e \<Longrightarrow>
     pool_step s (s\<lparr>lock_owner := Some t\<rparr>)"
| put_signals: "runs s \<Longrightarrow> threads s t = Using c \<Longrightarrow> threads s w = Waiting \<Longrightarrow>
     pool_step s (s\<lparr>the_pool := pool_put c now (the_pool s),
                    threads := (threads s)(t := Outside, w := Woken)\<rparr>)"
| put_quiet: "runs s \<Longrightarrow> threads s t = Using c \<Longrightarrow> \<forall>w. threads s w \<noteq> Waiting \<Longrightarrow>
     pool_step s (s\<lparr>the_pool := pool_put c now (the_pool s), threads := move s t Outside\<rparr>)"
| spurious: "fault s = None \<Longrightarrow> threads s w = Waiting \<Longrightarrow>
     pool_step s (s\<lparr>threads := move s w Woken\<rparr>)"
| resumes: "runs s \<Longrightarrow> threads s t = Woken \<Longrightarrow>
     take_front now (the_pool s) = Some (c, p) \<Longrightarrow>
     pool_step s (s\<lparr>the_pool := p, threads := move s t (Using c)\<rparr>)"
| resumes_empty: "runs s \<Longrightarrow> threads s t = Woken \<Longrightarrow>
     take_front now (the_pool s) = None \<Longrightarrow>
     pool_step s (s\<lparr>fault := Some Front_Of_Empty\<rparr>)"
| maintains: "runs s \<Longrightarrow> removing s = None \<Longrightarrow> maintain now (the_pool s) = (p, Some c) \<Longrightarrow>
     pool_step s (s\<lparr>the_pool := p, removing := Some c\<rparr>)"
| removes: "fault s = None \<Longrightarrow> removing s = Some c \<Longrightarrow> delete_conn c (live s) = Returns L \<Longrightarrow>
     pool_step s (s\<lparr>live := L, removing := None\<rparr>)"
| removes_dead: "fault s = None \<Longrightarrow> removing s = Some c \<Longrightarrow> delete_conn c (live s) = Undefined \<Longrightarrow>
     pool_step s (s\<lparr>fault := Some Deleted_Twice\<rparr>)"
| uses_closed: "fault s = None \<Longrightarrow> threads s t = Using c \<Longrightarrow> c \<notin> live s \<Longrightarrow>
     pool_step s (s\<lparr>fault := Some Use_After_Close\<rparr>)"

section \<open>Invariant\<close>

text \<open>
  The counters agree with the lists and the threads, every connection in circulation is alive and
  in one place only, and nothing else is alive but the connection that is being removed.
\<close>

definition users :: "(tid \<Rightarrow> thread) \<Rightarrow> tid set" where
  "users T = {t. \<exists>c. T t = Using c}"

definition counts_ok :: "nat \<Rightarrow> pool \<Rightarrow> tid set \<Rightarrow> bool" where
  "counts_ok M p U \<longleftrightarrow> M \<le> npos \<and> m_max_connections p = M \<and>
     m_num_available p = length (m_available_connections p) \<and> finite U \<and>
     m_num_connections p = length (m_available_connections p) + card U \<and> m_num_connections p \<le> M"

definition owners_ok :: "conn list \<Rightarrow> (tid \<Rightarrow> thread) \<Rightarrow> conn set \<Rightarrow> bool" where
  "owners_ok av T L \<longleftrightarrow> distinct av \<and>
     (\<forall>t c. T t = Using c \<longrightarrow> c \<notin> set av) \<and>
     (\<forall>t u c. T t = Using c \<longrightarrow> T u = Using c \<longrightarrow> t = u) \<and>
     L = set av \<union> {c. \<exists>t. T t = Using c}"

definition pool_inv :: "nat \<Rightarrow> sys \<Rightarrow> bool" where
  "pool_inv M s \<longleftrightarrow> counts_ok M (the_pool s) (users (threads s)) \<and>
     owners_ok (m_available_connections (the_pool s)) (threads s) (live s - set_option (removing s)) \<and>
     set_option (removing s) \<subseteq> live s \<and> live s \<subseteq> set (m_all_connections (the_pool s)) \<and>
     fault s \<noteq> Some Use_After_Close \<and> fault s \<noteq> Some Deleted_Twice"

lemma users_start [simp]: "users (\<lambda>_. Outside) = {}"
  by (simp add: users_def)

lemma users_move [simp]:
  "users (T(t := Using c)) = insert t (users T)"
  "users (T(t := Outside)) = users T - {t}"
  "users (T(t := Waiting)) = users T - {t}"
  "users (T(t := Woken)) = users T - {t}"
  by (auto simp: users_def)

lemma not_user: "T t = Outside \<or> T t = Waiting \<or> T t = Woken \<Longrightarrow> t \<notin> users T"
  by (auto simp: users_def)

lemma owners_idle_move:
  assumes "t \<notin> users T" "x \<in> {Outside, Waiting, Woken}"
  shows "owners_ok av (T(t := x)) L = owners_ok av T L"
proof -
  have "(T(t := x)) u = Using d \<longleftrightarrow> T u = Using d" for u d
    using assms by (auto simp: users_def)
  then show ?thesis by (simp only: owners_ok_def)
qed

lemma owners_take:
  "owners_ok (c # cs) T L \<Longrightarrow> t \<notin> users T \<Longrightarrow> owners_ok cs (T(t := Using c)) L"
  by (auto simp: owners_ok_def users_def)

lemma owners_new:
  "owners_ok av T L \<Longrightarrow> t \<notin> users T \<Longrightarrow> c \<notin> L \<Longrightarrow> owners_ok av (T(t := Using c)) (insert c L)"
  by (auto simp: owners_ok_def users_def)

lemma owners_put:
  "owners_ok av T L \<Longrightarrow> T t = Using c \<Longrightarrow> owners_ok (av @ [c]) (T(t := Outside)) L"
  unfolding owners_ok_def by (intro conjI allI impI set_eqI; fastforce split: if_splits)

lemma owners_remove:
  "owners_ok av T L \<Longrightarrow> c \<in> set av \<Longrightarrow> owners_ok (remove1 c av) T (L - {c})"
  by (auto simp: owners_ok_def)

lemma touch_simps [simp]:
  "m_all_connections (touch c now p) = m_all_connections p"
  "m_available_connections (touch c now p) = m_available_connections p"
  "m_max_connections (touch c now p) = m_max_connections p"
  "m_num_connections (touch c now p) = m_num_connections p"
  "m_num_available (touch c now p) = m_num_available p"
  by (simp_all add: touch_def)

text \<open>What each operation does to the fields of the pool.\<close>

lemma pool_get_Grown:
  assumes "pool_get (Inr c) now p = Grown c' p'"
  shows "c' = c" "m_num_available p = 0" "m_num_connections p < m_max_connections p"
    "m_all_connections p' = m_all_connections p @ [c]"
    "m_available_connections p' = m_available_connections p"
    "m_max_connections p' = m_max_connections p"
    "m_num_connections p' = m_num_connections p + 1" "m_num_available p' = m_num_available p"
  using assms by (auto simp: pool_get_def grow_def take_front_def split: if_splits list.splits)

lemma take_front_Some:
  assumes "take_front now p = Some (c, p')"
  shows "\<exists>cs. m_available_connections p = c # cs \<and> m_available_connections p' = cs"
    "m_all_connections p' = m_all_connections p" "m_max_connections p' = m_max_connections p"
    "m_num_connections p' = m_num_connections p"
    "m_num_available p' = size_sub (m_num_available p) 1"
  using assms by (auto simp: take_front_def split: list.splits)

lemma take_front_None: "take_front now p = None \<longleftrightarrow> m_available_connections p = []"
  by (simp add: take_front_def split: list.splits)

lemma pool_get_Reused:
  "pool_get opened now p = Reused c p' \<Longrightarrow> take_front now p = Some (c, p')"
  by (auto simp: pool_get_def split: if_splits option.splits sum.splits)

lemma pool_get_Must_Wait: "pool_get opened now p = Must_Wait \<Longrightarrow> m_available_connections p = []"
  by (auto simp: pool_get_def take_front_None split: if_splits option.splits sum.splits)

lemma pool_put_simps [simp]:
  "m_all_connections (pool_put c now p) = m_all_connections p"
  "m_available_connections (pool_put c now p) = m_available_connections p @ [c]"
  "m_max_connections (pool_put c now p) = m_max_connections p"
  "m_num_connections (pool_put c now p) = m_num_connections p"
  "m_num_available (pool_put c now p) = m_num_available p + 1"
  by (simp_all add: pool_put_def)

lemma maintain_Some:
  assumes "maintain now p = (p', Some c)"
  shows "c \<in> set (m_available_connections p)" "idle now p c"
    "m_available_connections p' = remove1 c (m_available_connections p)"
    "m_all_connections p' = m_all_connections p" "m_max_connections p' = m_max_connections p"
    "m_num_connections p' = size_sub (m_num_connections p) 1"
    "m_num_available p' = size_sub (m_num_available p) 1"
  using assms by (auto simp: maintain_def find_Some_iff split: option.splits)

lemma size_pred: "0 < n \<Longrightarrow> n \<le> npos \<Longrightarrow> size_sub n 1 = n - 1"
  by (simp add: size_sub_le)

lemma counts_bound: "counts_ok M p U \<Longrightarrow> m_num_available p \<le> npos \<and> m_num_connections p \<le> npos"
  by (auto simp: counts_ok_def)

lemma counts_take:
  assumes "counts_ok M p U" "take_front now p = Some (c, p')" "t \<notin> U"
  shows "counts_ok M p' (insert t U)"
proof -
  have "0 < m_num_available p" using assms take_front_Some(1)[OF assms(2)] by (auto simp: counts_ok_def)
  then have "size_sub (m_num_available p) 1 = m_num_available p - 1"
    using counts_bound[OF assms(1)] by (intro size_pred) auto
  then show ?thesis
    using assms take_front_Some[OF assms(2)] by (auto simp: counts_ok_def)
qed

lemma counts_put: "counts_ok M p U \<Longrightarrow> t \<in> U \<Longrightarrow> counts_ok M (pool_put c now p) (U - {t})"
  using card.remove[of U t] by (simp add: counts_ok_def)

lemma counts_maintain:
  assumes "counts_ok M p U" "maintain now p = (p', Some c)"
  shows "counts_ok M p' U"
proof -
  note m = maintain_Some[OF assms(2)]
  have len: "0 < length (m_available_connections p)" using m(1) by (rule length_pos_if_in_set)
  have "0 < m_num_available p" "0 < m_num_connections p"
    using len assms(1) by (auto simp: counts_ok_def)
  then have "size_sub (m_num_available p) 1 = m_num_available p - 1"
    "size_sub (m_num_connections p) 1 = m_num_connections p - 1"
    using counts_bound[OF assms(1)] size_pred by blast+
  moreover obtain k where "length (m_available_connections p) = Suc k"
    using len by (auto simp: gr0_conv_Suc)
  ultimately show ?thesis
    using assms(1) m by (simp add: counts_ok_def length_remove1)
qed

section \<open>The invariant holds\<close>

lemma pool_inv_start: "pool_start mn mx s \<Longrightarrow> pool_inv mx s"
  by (simp add: pool_start_def fresh_sys_def pool_inv_def counts_ok_def owners_ok_def DBPool_new_def)

lemma pool_inv_front:
  assumes "pool_inv M s" "take_front now (the_pool s) = Some (c, p)" "t \<notin> users (threads s)"
  shows "pool_inv M (s\<lparr>the_pool := p, threads := move s t (Using c)\<rparr>)"
  using assms take_front_Some[OF assms(2)]
  by (auto simp: pool_inv_def intro: counts_take owners_take)

lemma pool_inv_put:
  assumes "pool_inv M s" "threads s t = Using c"
  shows "pool_inv M (s\<lparr>the_pool := pool_put c now (the_pool s), threads := move s t Outside\<rparr>)"
  using assms by (auto simp: pool_inv_def users_def[of "threads s"] owners_put
      intro!: counts_put[where U = "users (threads s)", unfolded users_def])

lemma pool_inv_wake:
  assumes "pool_inv M s" "threads s t = Waiting"
  shows "pool_inv M (s\<lparr>threads := move s t Woken\<rparr>)"
  using assms by (simp add: pool_inv_def owners_idle_move not_user)

lemma pool_step_inv:
  assumes "pool_inv M s" "pool_step s s'"
  shows "pool_inv M s'"
  using assms(2)
proof cases
  case (get_grown t c now p)
  note g = pool_get_Grown[OF get_grown(5)]
  have t: "t \<notin> users (threads s)" using get_grown(3) by (simp add: not_user)
  have "counts_ok M p (insert t (users (threads s)))"
    using assms(1) g t by (auto simp: pool_inv_def counts_ok_def)
  moreover have "insert c (live s) - set_option (removing s) = insert c (live s - set_option (removing s))"
    using assms(1) get_grown(4) by (auto simp: pool_inv_def)
  ultimately show ?thesis
    using assms(1) g t get_grown(1,4) by (auto simp: pool_inv_def intro!: owners_new)
next
  case (get_reused t opened now c p)
  then show ?thesis
    using assms(1) pool_inv_front[OF _ pool_get_Reused[OF get_reused(4)]] by (simp add: not_user)
next
  case (get_waits t opened now)
  then show ?thesis using assms(1) by (simp add: pool_inv_def owners_idle_move not_user)
next
  case (get_throws t e now)
  then show ?thesis using assms(1) by (simp add: pool_inv_def)
next
  case (put_signals t c w now)
  have "w \<noteq> t" using put_signals(3,4) by auto
  then show ?thesis
    using pool_inv_wake[OF pool_inv_put[OF assms(1) put_signals(3), of now], of w] put_signals(1,4)
    by simp
next
  case (put_quiet t c now)
  then show ?thesis using pool_inv_put[OF assms(1)] by simp
next
  case (spurious w)
  then show ?thesis using pool_inv_wake[OF assms(1)] by simp
next
  case (resumes t now c p)
  then show ?thesis using pool_inv_front[OF assms(1)] by (simp add: not_user)
next
  case (resumes_empty t now)
  then show ?thesis using assms(1) by (simp add: pool_inv_def)
next
  case (maintains now p c)
  note m = maintain_Some[OF maintains(4)]
  have "owners_ok (m_available_connections (the_pool s)) (threads s) (live s)"
    using assms(1) maintains(3) by (simp add: pool_inv_def)
  moreover from this have "c \<in> live s" using m(1) by (auto simp: owners_ok_def)
  ultimately show ?thesis
    using assms(1) maintains(1) m counts_maintain[OF _ maintains(4)]
    by (auto simp: pool_inv_def owners_remove)
next
  case (removes c L)
  then have "L = live s - {c}" by (simp add: delete_conn_def split: if_splits)
  then show ?thesis using assms(1) removes(1,3) by (auto simp: pool_inv_def)
next
  case (removes_dead c)
  then show ?thesis using assms(1) by (simp add: pool_inv_def delete_conn_def split: if_splits)
next
  case (uses_closed t c)
  then show ?thesis using assms(1) by (auto simp: pool_inv_def owners_ok_def)
qed

interpretation conns: invariant_system "pool_start mn mx" pool_step "pool_inv mx" for mn mx
  by unfold_locales (auto intro: pool_inv_start pool_step_inv)

section \<open>What holds of every interleaving\<close>

lemma pool_inv_reach: "reach (pool_start mn mx) pool_step s \<Longrightarrow> pool_inv mx s"
  by (rule conns.reach_inv)

text \<open>A small run used as an example: thread 0 opens connection 7 of a pool of one.\<close>

definition one_user :: sys where
  "one_user = \<lparr>the_pool = \<lparr>m_all_connections = [7], m_available_connections = [],
     m_min_connections = 0, m_max_connections = 1, m_num_connections = 1, m_num_available = 0,
     m_last_used = (\<lambda>_. 0)(7 := 100)\<rparr>,
     threads = (\<lambda>_. Outside)(0 := Using 7), lock_owner = None, removing = None, live = {7}, fault = None\<rparr>"

definition one_user_waited :: sys where
  "one_user_waited = one_user\<lparr>threads := ((\<lambda>_. Outside)(0 := Using 7))(1 := Waiting)\<rparr>"

lemma one_user_reach: "reach (pool_start 0 1) pool_step one_user"
proof -
  let ?s = "fresh_sys 0 1"
  let ?p = "the_pool one_user"
  have "reach (pool_start 0 1) pool_step ?s"
    by (rule reach_start) (simp add: pool_start_def npos_def)
  moreover have "pool_step ?s (?s\<lparr>the_pool := ?p, threads := move ?s 0 (Using 7), live := insert 7 (live ?s)\<rparr>)"
    by (rule get_grown[where now = 100])
      (simp_all add: fresh_sys_def runs_def pool_get_def grow_def touch_def DBPool_new_def one_user_def)
  ultimately show ?thesis
    using reach_step by (fastforce simp: one_user_def fresh_sys_def)
qed

lemma one_user_waited_reach: "reach (pool_start 0 1) pool_step one_user_waited"
proof -
  have "pool_step one_user (one_user\<lparr>threads := move one_user 1 Waiting\<rparr>)"
    by (rule get_waits[where opened = "Inr 0" and now = 0])
      (simp_all add: runs_def pool_get_def one_user_def)
  then have "pool_step one_user one_user_waited"
    by (simp add: one_user_waited_def one_user_def)
  then show ?thesis using one_user_reach by (rule reach_step[rotated])
qed

definition one_idle :: sys where
  "one_idle = one_user\<lparr>the_pool := pool_put 7 100 (the_pool one_user), threads := \<lambda>_. Outside\<rparr>"

lemma one_idle_reach: "reach (pool_start 0 1) pool_step one_idle"
proof -
  have "pool_step one_user (one_user\<lparr>the_pool := pool_put 7 100 (the_pool one_user),
    threads := move one_user 0 Outside\<rparr>)"
    by (rule put_quiet) (auto simp: one_user_def runs_def)
  moreover have "move one_user 0 Outside = (\<lambda>_. Outside)" by (auto simp: one_user_def)
  ultimately have "pool_step one_user one_idle" by (simp add: one_idle_def)
  then show ?thesis using one_user_reach by (rule reach_step[rotated])
qed

text \<open>C9. Whatever the threads do and whenever the maintenance thread runs, a connection is with one
  thread at most, is not offered to others while it is in use, and is alive as long as it is in the
  pool or with a thread: no thread ever uses a connection that the maintenance thread closed. The
  connection that the maintenance thread is removing is with nobody else, and is deleted once.\<close>

theorem connections_exclusive:
  assumes "reach (pool_start mn mx) pool_step s"
  shows "(\<forall>t u c. threads s t = Using c \<and> threads s u = Using c \<longrightarrow> t = u)
    \<and> (\<forall>t c. threads s t = Using c \<longrightarrow> c \<in> live s \<and> c \<notin> set (m_available_connections (the_pool s)))
    \<and> set (m_available_connections (the_pool s)) \<subseteq> live s
    \<and> distinct (m_available_connections (the_pool s)) \<and> fault s \<noteq> Some Use_After_Close
    \<and> (\<forall>c. removing s = Some c \<longrightarrow> c \<in> live s \<and> c \<notin> set (m_available_connections (the_pool s)) \<and> (\<forall>t. threads s t \<noteq> Using c))
    \<and> fault s \<noteq> Some Deleted_Twice"
proof -
  let ?av = "m_available_connections (the_pool s)" and ?R = "set_option (removing s)"
  have "owners_ok ?av (threads s) (live s - ?R)" "?R \<subseteq> live s"
    "fault s \<noteq> Some Use_After_Close \<and> fault s \<noteq> Some Deleted_Twice"
    using pool_inv_reach[OF assms] by (simp_all add: pool_inv_def)
  then show ?thesis unfolding owners_ok_def by (intro conjI allI impI) auto
qed

theorem connections_exclusive_witness:
  "threads one_user_waited 0 = Using 7 \<and> 7 \<in> live one_user_waited \<and>
   7 \<notin> set (m_available_connections (the_pool one_user_waited))"
proof -
  have "threads one_user_waited 0 = Using 7" by (simp add: one_user_waited_def)
  then show ?thesis using connections_exclusive[OF one_user_waited_reach] by blast
qed

definition being_removed :: "sys \<Rightarrow> nat" where
  "being_removed s = (case removing s of None \<Rightarrow> 0 | Some _ \<Rightarrow> 1)"

lemma counters_from_inv:
  assumes "pool_inv mx s"
  shows "m_num_available (the_pool s) = length (m_available_connections (the_pool s))
    \<and> m_num_connections (the_pool s) = length (m_available_connections (the_pool s)) + card {t. \<exists>c. threads s t = Using c}
    \<and> m_num_connections (the_pool s) \<le> mx
    \<and> finite (live s) \<and> card (live s) = m_num_connections (the_pool s) + being_removed s"
proof -
  let ?av = "m_available_connections (the_pool s)" and ?T = "threads s" and ?R = "set_option (removing s)"
  let ?in_use = "{c. \<exists>t. ?T t = Using c}"
  have c: "counts_ok mx (the_pool s) (users ?T)" and ow: "owners_ok ?av ?T (live s - ?R)" and R: "?R \<subseteq> live s"
    using assms by (auto simp: pool_inv_def)
  have one: "t = u" if "?T t = Using d" "?T u = Using d" for t u d
    using ow that unfolding owners_ok_def by blast
  have uses: "bij_betw (\<lambda>t. case ?T t of Using d \<Rightarrow> d | _ \<Rightarrow> 0) (users ?T) ?in_use"
    by (rule bij_betwI') (force simp: users_def dest: one)+
  have fin: "finite ?in_use" and card: "card ?in_use = card (users ?T)"
    using bij_betw_finite[OF uses] bij_betw_same_card[OF uses] c by (auto simp: counts_ok_def)
  have "live s - ?R = set ?av \<union> ?in_use" "set ?av \<inter> ?in_use = {}" "distinct ?av"
    using ow by (auto simp: owners_ok_def)
  then have rest: "card (live s - ?R) = length ?av + card (users ?T)" "finite (live s - ?R)"
    using fin card by (auto simp: card_Un_disjoint distinct_card)
  have "finite ?R" by (cases "removing s") auto
  moreover have "live s = (live s - ?R) \<union> ?R" using R by auto
  moreover have "card ?R = being_removed s" by (cases "removing s") (simp_all add: being_removed_def)
  moreover have "card ((live s - ?R) \<union> ?R) = card (live s - ?R) + card ?R"
    using rest(2) \<open>finite ?R\<close> by (intro card_Un_disjoint) auto
  ultimately have "card (live s) = card (live s - ?R) + being_removed s" "finite (live s)"
    using rest(2) by (metis, metis finite_Un)
  then show ?thesis using c rest(1) by (simp add: counts_ok_def users_def)
qed

text \<open>C13. The counters are exact in every reachable state: the pool counts as many connections as are
  available or in use, never more than its maximum; and as many connections exist as it counts, and one
  more while the maintenance thread, which lowers the counters before it deletes a connection, has one
  to delete.\<close>

theorem counters_exact:
  assumes "reach (pool_start mn mx) pool_step s"
  shows "m_num_available (the_pool s) = length (m_available_connections (the_pool s))
    \<and> m_num_connections (the_pool s) = length (m_available_connections (the_pool s)) + card {t. \<exists>c. threads s t = Using c}
    \<and> m_num_connections (the_pool s) \<le> mx
    \<and> finite (live s) \<and> card (live s) = m_num_connections (the_pool s) + being_removed s"
  using pool_inv_reach[OF assms] by (rule counters_from_inv)

theorem counters_exact_witness: "card (live one_user_waited) \<le> 1"
  using counters_exact[OF one_user_waited_reach] by (simp add: being_removed_def one_user_waited_def one_user_def)

text \<open>The maximum is a maximum of what is counted: while the maintenance thread has a connection to
  delete, a thread can open another one, and for a while there is one more than the maximum.\<close>

lemma maximum_exceeded:
  "\<exists>s. reach (pool_start 0 1) pool_step s \<and> threads s 0 = Using 8 \<and> live s = {7, 8}"
proof -
  obtain p where p: "maintain 160 (the_pool one_idle) = (p, Some 7)"
    by (simp add: one_idle_def one_user_def pool_put_def touch_def maintain_def idle_def)
  define s1 where "s1 = one_idle\<lparr>the_pool := p, removing := Some 7\<rparr>"
  have "pool_step one_idle s1"
    unfolding s1_def using p by (intro maintains) (simp_all add: one_idle_def one_user_def runs_def)
  with one_idle_reach have r: "reach (pool_start 0 1) pool_step s1" by (rule reach_step)
  note m = maintain_Some[OF p]
  have "m_num_available p = 0" "m_num_connections p = 0" "m_max_connections p = 1"
    using m by (simp_all add: one_idle_def one_user_def size_sub_le npos_def)
  then obtain q where q: "pool_get (Inr 8) 161 p = Grown 8 q" by (auto simp: pool_get_def grow_def)
  define s2 where "s2 = s1\<lparr>the_pool := q, threads := move s1 0 (Using 8), live := insert 8 (live s1)\<rparr>"
  have "pool_step s1 s2"
    unfolding s2_def using q by (intro get_grown) (simp_all add: s1_def one_idle_def one_user_def runs_def)
  with r have "reach (pool_start 0 1) pool_step s2" by (rule reach_step)
  moreover have "threads s2 0 = Using 8" "live s2 = {7, 8}" by (auto simp: s2_def s1_def one_idle_def one_user_def)
  ultimately show ?thesis by blast
qed

text \<open>C14. A wakeup can be stolen. With every connection in use, one thread returns its connection
  and signals a waiting one; a third thread calls \<open>get\<close> first and takes the connection;
  the woken thread does not test the list again and reads the front of an empty list.\<close>

theorem wakeup_stolen:
  assumes "reach (pool_start mn mx) pool_step s" "runs s" "m_available_connections (the_pool s) = []"
    and "threads s t = Using c" "threads s w = Waiting" "threads s x = Outside"
  shows "\<exists>s1 s2 s3. pool_step s s1 \<and> threads s1 t = Outside \<and> threads s1 w = Woken
    \<and> pool_step s1 s2 \<and> threads s2 x = Using c \<and> threads s2 w = Woken
    \<and> pool_step s2 s3 \<and> fault s3 = Some Front_Of_Empty"
proof -
  have dif: "w \<noteq> t" "x \<noteq> t" "x \<noteq> w" using assms(4-6) by auto
  have zero: "m_num_available (the_pool s) = 0"
    using pool_inv_reach[OF assms(1)] assms(3) by (simp add: pool_inv_def counts_ok_def)
  define p1 where "p1 = pool_put c 0 (the_pool s)"
  define s1 where "s1 = s\<lparr>the_pool := p1, threads := (threads s)(t := Outside, w := Woken)\<rparr>"
  define p2 where "p2 = touch c 0 (p1\<lparr>m_available_connections := [], m_num_available := 0\<rparr>)"
  define s2 where "s2 = s1\<lparr>the_pool := p2, threads := move s1 x (Using c)\<rparr>"
  have "pool_step s s1"
    unfolding s1_def p1_def using assms(2,4,5) by (rule put_signals)
  moreover have "pool_step s1 s2"
    unfolding s2_def using assms(2,6) dif
    by (intro get_reused[where now = 0 and opened = "Inr 0"])
      (simp_all add: s1_def p1_def p2_def runs_def pool_get_def take_front_def assms(3) zero size_sub_le npos_def)
  moreover have "pool_step s2 (s2\<lparr>fault := Some Front_Of_Empty\<rparr>)"
    using assms(2) dif by (intro resumes_empty[where t = w and now = 0])
      (simp_all add: s1_def s2_def p2_def runs_def take_front_None)
  ultimately show ?thesis
    using dif by (intro exI[of _ s1] exI[of _ s2] exI) (auto simp: s1_def s2_def)
qed

theorem wakeup_stolen_witness:
  "\<exists>s. reach (pool_start 0 1) pool_step s \<and>
     (\<exists>s1 s2 s3. pool_step s s1 \<and> pool_step s1 s2 \<and> pool_step s2 s3 \<and> fault s3 = Some Front_Of_Empty)"
proof -
  have "runs one_user_waited" "m_available_connections (the_pool one_user_waited) = []"
    "threads one_user_waited 0 = Using 7" "threads one_user_waited 1 = Waiting"
    "threads one_user_waited 2 = Outside"
    by (simp_all add: one_user_waited_def one_user_def runs_def)
  from wakeup_stolen[OF one_user_waited_reach this] one_user_waited_reach show ?thesis by blast
qed

lemma locked_step:
  assumes "pool_step s s'" "lock_owner s = Some t"
  shows "lock_owner s' = Some t \<and> the_pool s' = the_pool s
    \<and> (live s', removing s') \<in> {(live s, removing s), (live s - set_option (removing s), None)}
    \<and> (\<forall>u c. threads s' u = Using c \<longleftrightarrow> threads s u = Using c)
    \<and> (\<forall>u. threads s u = Outside \<longleftrightarrow> threads s' u = Outside)"
  using assms
proof cases
  case (removes c L)
  then show ?thesis using assms(2) by (simp add: delete_conn_def split: if_splits)
qed (use assms(2) in \<open>auto simp: runs_def\<close>)

text \<open>C15. When the database refuses a new connection, \<open>get\<close> leaves by the exception with
  the lock held: from then on no thread gets, returns or waits for a connection again, and the
  maintenance thread takes none out, whatever the threads try; at most it deletes the one it has
  already taken out.\<close>

theorem failed_connect_blocks_pool:
  assumes "runs s" "threads s t = Outside" "m_num_available (the_pool s) = 0"
    and "m_num_connections (the_pool s) < m_max_connections (the_pool s)"
  shows "\<exists>s'. pool_step s s' \<and> threads s' t = Outside \<and> lock_owner s' = Some t
    \<and> (\<forall>s''. pool_step\<^sup>*\<^sup>* s' s'' \<longrightarrow> lock_owner s'' = Some t \<and> the_pool s'' = the_pool s
         \<and> (live s'', removing s'') \<in> {(live s, removing s), (live s - set_option (removing s), None)}
         \<and> (\<forall>u c. threads s'' u = Using c \<longleftrightarrow> threads s u = Using c)
         \<and> (\<forall>u. threads s u = Outside \<longleftrightarrow> threads s'' u = Outside))"
proof -
  let ?s = "s\<lparr>lock_owner := Some t\<rparr>"
  have "pool_get (Inl (Logic_Error [])) 0 (the_pool s) = Get_Throws (Logic_Error [])"
    using assms(3,4) by (simp add: pool_get_def grow_def)
  with assms(1,2) have step: "pool_step s ?s" by (rule get_throws)
  have "lock_owner s'' = Some t \<and> the_pool s'' = the_pool s
      \<and> (live s'', removing s'') \<in> {(live s, removing s), (live s - set_option (removing s), None)}
      \<and> (\<forall>u c. threads s'' u = Using c \<longleftrightarrow> threads s u = Using c)
      \<and> (\<forall>u. threads s u = Outside \<longleftrightarrow> threads s'' u = Outside)" if "pool_step\<^sup>*\<^sup>* ?s s''" for s''
    using that
  proof (induction rule: rtranclp_induct)
    case (step s1 s2)
    then show ?case using locked_step[OF step(2), of t] by auto
  qed simp
  then show ?thesis
    using step assms(2) by (intro exI[of _ ?s]) auto
qed

theorem failed_connect_blocks_pool_witness:
  "\<exists>s'. pool_step (fresh_sys 0 1) s' \<and> lock_owner s' = Some 3"
proof -
  have "runs (fresh_sys 0 1)" "threads (fresh_sys 0 1) 3 = Outside"
    "m_num_available (the_pool (fresh_sys 0 1)) = 0"
    "m_num_connections (the_pool (fresh_sys 0 1)) < m_max_connections (the_pool (fresh_sys 0 1))"
    by (simp_all add: fresh_sys_def runs_def DBPool_new_def)
  from failed_connect_blocks_pool[OF this] show ?thesis by blast
qed

text \<open>The destructor succeeds exactly on a list of different live objects.\<close>

lemma pool_delete_iff:
  "DBPool_delete p L = Undefined \<longleftrightarrow> \<not> (distinct (m_all_connections p) \<and> set (m_all_connections p) \<subseteq> L)"
  by (simp add: DBPool_delete_def connections.deletes_iff)

lemma dangling_step:
  assumes "pool_step s s'" "DBPool_delete (the_pool s) (live s) = Undefined"
  shows "DBPool_delete (the_pool s') (live s') = Undefined"
  using assms
proof cases
  case (get_grown t c now p)
  then show ?thesis using assms(2) pool_get_Grown[OF get_grown(5)]
    by (auto simp: pool_delete_iff split: if_splits)
next
  case (get_reused t opened now c p)
  then show ?thesis using assms(2) take_front_Some[OF pool_get_Reused[OF get_reused(4)]]
    by (simp add: DBPool_delete_def)
next
  case (resumes t now c p)
  then show ?thesis using assms(2) take_front_Some[OF resumes(4)] by (simp add: DBPool_delete_def)
next
  case (maintains now p c)
  then show ?thesis using assms(2) maintain_Some[OF maintains(4)] by (simp add: DBPool_delete_def)
next
  case (removes c L)
  then show ?thesis using assms(2) by (auto simp: pool_delete_iff delete_conn_def split: if_splits)
qed (auto simp: DBPool_delete_def)

text \<open>The maintenance thread deletes a connection and leaves its pointer in
  \<open>m_all_connections\<close>: from then on, whatever happens, the destructor of the pool would
  delete an object that is not alive (or the same object twice).\<close>

theorem closed_connection_dangles:
  assumes "reach (pool_start mn mx) pool_step s" "removing s = Some c"
    and "pool_step\<^sup>*\<^sup>* (s\<lparr>live := live s - {c}, removing := None\<rparr>) s'"
  shows "DBPool_delete (the_pool s') (live s') = Undefined"
proof -
  let ?s = "s\<lparr>live := live s - {c}, removing := None\<rparr>"
  have "c \<in> live s" "live s \<subseteq> set (m_all_connections (the_pool s))"
    using pool_inv_reach[OF assms(1)] assms(2) by (auto simp: pool_inv_def)
  then have "DBPool_delete (the_pool ?s) (live ?s) = Undefined" by (auto simp: pool_delete_iff)
  with assms(3) show ?thesis
    by (induction rule: rtranclp_induct) (auto intro: dangling_step)
qed

section \<open>The order of connections, and maintenance\<close>

definition put_all :: "int \<Rightarrow> conn list \<Rightarrow> pool \<Rightarrow> pool" where
  "put_all now cs p = fold (\<lambda>c. pool_put c now) cs p"

text \<open>The connections that \<open>n\<close> calls of \<open>get\<close> hand out; \<open>None\<close> when one of them
  would wait or open a connection.\<close>

fun get_all :: "int \<Rightarrow> nat \<Rightarrow> pool \<Rightarrow> conn list option" where
  "get_all now 0 p = Some []"
| "get_all now (Suc n) p =
     (case pool_get (Inl (Db_Exception [] [])) now p of
        Reused c p' \<Rightarrow> map_option ((#) c) (get_all now n p')
      | _ \<Rightarrow> None)"

lemma put_all_fields:
  "m_available_connections (put_all now cs p) = m_available_connections p @ cs"
  "m_num_available (put_all now cs p) = m_num_available p + length cs"
  by (induction cs arbitrary: p) (simp_all add: put_all_def)

lemma get_all_front:
  "m_num_available p = length (m_available_connections p) \<Longrightarrow> m_num_available p \<le> npos \<Longrightarrow>
   n \<le> m_num_available p \<Longrightarrow> get_all now n p = Some (take n (m_available_connections p))"
proof (induction n arbitrary: p)
  case (Suc n)
  then obtain c cs where av: "m_available_connections p = c # cs"
    by (cases "m_available_connections p") auto
  then have len: "m_num_available p = Suc (length cs)" using Suc.prems by simp
  obtain p' where p': "take_front now p = Some (c, p')" by (simp add: take_front_def av)
  have get: "pool_get (Inl (Db_Exception [] [])) now p = Reused c p'"
    using av len p' by (simp add: pool_get_def)
  note f = take_front_Some[OF p']
  have "size_sub (m_num_available p) 1 = length cs"
    using len Suc.prems by (simp add: size_sub_le)
  then have "get_all now n p' = Some (take n cs)"
    using Suc.IH[of p'] f av len Suc.prems by simp
  then show ?case using get av by simp
qed simp

text \<open>The pool is a queue: connections that are put back are handed out again after those that
  were there before them, in the order in which they came back, and no call waits or opens one.\<close>

theorem put_get_fifo:
  assumes "m_num_available p = length (m_available_connections p)"
    and "m_num_available p + length cs \<le> npos"
  shows "get_all now (m_num_available p + length cs) (put_all now' cs p)
    = Some (m_available_connections p @ cs)"
  using assms by (simp add: get_all_front put_all_fields)

theorem put_get_fifo_witness:
  "get_all 5 3 (put_all 4 [8, 2, 9] (DBPool_new 0 1)) = Some [8, 2, 9]"
proof -
  have "m_num_available (DBPool_new 0 1) = length (m_available_connections (DBPool_new 0 1))"
    "m_num_available (DBPool_new 0 1) + length [8, 2, 9 :: conn] \<le> npos"
    by (simp_all add: DBPool_new_def npos_def)
  from put_get_fifo[OF this, of 5 4] show ?thesis by (simp add: DBPool_new_def eval_nat_numeral)
qed

text \<open>Turns of the maintenance thread on one pool that nobody uses, all at one time.\<close>

definition maintain_times :: "nat \<Rightarrow> int \<Rightarrow> pool \<Rightarrow> pool" where
  "maintain_times n now p = ((\<lambda>q. fst (maintain now q)) ^^ n) p"

lemma find_remove1:
  "List.find P xs = Some x \<Longrightarrow> filter P xs = x # filter P (remove1 x xs)
     \<and> filter (\<lambda>y. \<not> P y) (remove1 x xs) = filter (\<lambda>y. \<not> P y) xs"
proof (induction xs)
  case (Cons a xs)
  have "P x" using Cons.prems find_Some_iff[of P "a # xs" x] by blast
  then show ?case using Cons by (auto split: if_splits)
qed simp

lemma find_none: "List.find P xs = None \<Longrightarrow> filter P xs = []"
  by (simp add: find_None_iff filter_empty_conv)

lemma map_filter_cong: "(\<And>x. x \<in> set xs \<Longrightarrow> f x = g x) \<Longrightarrow> List.map_filter f xs = List.map_filter g xs"
  by (induction xs) (auto simp: map_filter_simps split: option.splits)

lemma maintain_step:
  "filter (idle now p) (m_available_connections (fst (maintain now p)))
     = drop 1 (filter (idle now p) (m_available_connections p))"
  "filter (\<lambda>c. \<not> idle now p c) (m_available_connections (fst (maintain now p)))
     = filter (\<lambda>c. \<not> idle now p c) (m_available_connections p)"
  "m_last_used (fst (maintain now p)) = m_last_used p"
  by (auto simp: maintain_def dest: find_remove1 find_none split: option.splits)

text \<open>Each turn of the maintenance thread closes exactly one idle connection of a pool, the one
  that came back first, as long as there is one; connections used within the last 60 seconds stay,
  in their order.\<close>

theorem maintenance_drains_idle:
  "filter (idle now p) (m_available_connections (maintain_times n now p))
     = drop n (filter (idle now p) (m_available_connections p))
   \<and> filter (\<lambda>c. \<not> idle now p c) (m_available_connections (maintain_times n now p))
     = filter (\<lambda>c. \<not> idle now p c) (m_available_connections p)"
proof -
  have "m_last_used (maintain_times n now p) = m_last_used p" for n
    by (induction n) (simp_all add: maintain_times_def maintain_step)
  then have same: "idle now (maintain_times n now p) = idle now p" for n
    by (simp add: idle_def fun_eq_iff)
  have suc: "maintain_times (Suc n) now p = fst (maintain now (maintain_times n now p))" for n
    by (simp add: maintain_times_def)
  show ?thesis
  proof (induction n)
    case (Suc n)
    then show ?case
      using maintain_step(1,2)[of now "maintain_times n now p"] by (simp add: suc same drop_drop)
  qed (simp add: maintain_times_def)
qed

text \<open>One turn treats every registered pool once, each by itself: a pool that is registered loses
  its first idle connection, every other pool is as before, and the connections that are closed are
  those taken out, one per pool at most.\<close>

theorem maintenance_turn_each:
  assumes "distinct ps"
  shows "maintenance_turn now ps h =
    ((\<lambda>p. if p \<in> set ps then fst (maintain now (h p)) else h p),
     List.map_filter (\<lambda>p. snd (maintain now (h p))) ps)"
  using assms
proof (induction ps arbitrary: h)
  case (Cons p ps)
  let ?h = "h(p := fst (maintain now (h p)))"
  have "List.map_filter (\<lambda>q. snd (maintain now (?h q))) ps = List.map_filter (\<lambda>q. snd (maintain now (h q))) ps"
    using Cons.prems by (intro map_filter_cong) auto
  moreover have "(\<lambda>q. if q \<in> set ps then fst (maintain now (?h q)) else ?h q)
      = (\<lambda>q. if q \<in> set (p # ps) then fst (maintain now (h q)) else h q)"
    using Cons.prems by auto
  moreover have "distinct ps" using Cons.prems by simp
  ultimately have "maintenance_turn now ps ?h =
      ((\<lambda>q. if q \<in> set (p # ps) then fst (maintain now (h q)) else h q),
       List.map_filter (\<lambda>q. snd (maintain now (h q))) ps)"
    using Cons.IH[of ?h] by (simp only:)
  then show ?case
    by (simp add: case_prod_beta map_filter_simps del: fun_upd_apply split: option.splits)
qed (simp add: map_filter_simps)

theorem maintenance_turn_each_witness:
  "\<forall>h. fst (maintenance_turn 9 [1, 2] h) 2 = fst (maintain 9 (h 2))"
  using maintenance_turn_each[of "[1, 2]"] by simp

text \<open>However many pools are started, there is one maintenance thread, and it serves them all.\<close>

theorem one_maintenance_thread:
  "fold start_maintenance_thread ps \<lparr>mt_pools = [], mt_running = False, mt_exiting = False, mt_threads = 0\<rparr>
    = \<lparr>mt_pools = ps, mt_running = (ps \<noteq> []), mt_exiting = False, mt_threads = (if ps = [] then 0 else 1)\<rparr>"
  by (induction ps rule: rev_induct) (simp_all add: start_maintenance_thread_def Let_def)

end
