(* ===== verification/Worker.thy ===== *)
theory Worker
  imports Server_Run Sitemap_Document Db_Pool
begin

text \<open>
  The worker process (\<^verbatim>\<open>src/server/worker.cpp\<close>): the connection pool and its maintenance
  thread, the server with its two handlers and their locations, the change of the user, and the
  exit code. What the system calls \<open>getpwnam\<close>, \<open>getgrnam\<close> and the socket functions return are
  arguments; \<open>run\<close> is \<open>run_step\<close> of \<^theory_text>\<open>Server_Run\<close>.
\<close>

section \<open>Operations\<close>

datatype sys_call = Setsid | Setuid int | Setgid int | Close_Fd int | Ignore_Sigpipe

text \<open>The user is checked twice, the group never: a missing group is a null pointer that is read.\<close>

definition drop_permissions :: "(string \<Rightarrow> int option) \<Rightarrow> (string \<Rightarrow> int option) \<Rightarrow> sys_call list outcome" where
  "drop_permissions getpwnam getgrnam =
     (let nobody = (case getpwnam ''www-data'' of None \<Rightarrow> getpwnam ''nobody'' | Some u \<Rightarrow> Some u)
      in case nobody of
           None \<Rightarrow> Returns []
         | Some pw_uid \<Rightarrow>
             (let nogroup = (case getgrnam ''www-data'' of None \<Rightarrow> getgrnam ''nogroup'' | Some g \<Rightarrow> Some g)
              in if nobody = None then Returns []
                 else (case nogroup of
                         None \<Rightarrow> Undefined
                       | Some gr_gid \<Rightarrow> Returns [Setsid, Setuid pw_uid, Setgid gr_gid,
                           Close_Fd 0, Close_Fd 1, Close_Fd 2, Ignore_Sigpipe])))"

definition POOL_WP_COM :: nat where "POOL_WP_COM = 0"
definition WP_HANDLER :: handler where "WP_HANDLER = 0"
definition SITEMAP_HANDLER :: handler where "SITEMAP_HANDLER = 1"

record worker =
  the_server :: fcgi_server
  the_sites :: site_map
  the_calls :: "sys_call list"

text \<open>Up to the start of the server; the outcome is an exception or the worker.\<close>

definition worker_setup ::
  "(string \<Rightarrow> int option) \<Rightarrow> (string \<Rightarrow> int option) \<Rightarrow> int \<Rightarrow> worker outcome" where
  "worker_setup getpwnam getgrnam mutex_init_rc =
     bind_outcome (of_result (fcgi_server_new '':9002'' mutex_init_rc)) (\<lambda>s0.
     bind_outcome (drop_permissions getpwnam getgrnam) (\<lambda>calls.
       let sites = add_site ''wordpress.example.com'' POOL_WP_COM []
       in bind_outcome (of_result (add_handler_mapping ''/'' (Some WP_HANDLER) s0)) (\<lambda>s1.
          bind_outcome (of_result (add_handler_mapping ''/sitemap.xml'' (Some SITEMAP_HANDLER) s1)) (\<lambda>s2.
            Returns \<lparr>the_server = add_handler (Some WP_HANDLER) (add_handler (Some SITEMAP_HANDLER) s2),
              the_sites = sites, the_calls = calls\<rparr>))))"

text \<open>
  The process, with the listening socket's descriptor or error code. Every exception ends it with
  the code 1, past the join of the maintenance thread.
\<close>

definition worker_process ::
  "(string \<Rightarrow> int option) \<Rightarrow> (string \<Rightarrow> int option) \<Rightarrow> int \<Rightarrow> int \<Rightarrow> maintenance \<Rightarrow>
     (int \<times> fcgi_server option \<times> maintenance) outcome" where
  "worker_process getpwnam getgrnam mutex_init_rc open_socket_rc m0 =
     (let m = start_maintenance_thread POOL_WP_COM m0
      in case worker_setup getpwnam getgrnam mutex_init_rc of
           Returns w \<Rightarrow>
             (case server_init open_socket_rc (the_server w) of
                (s, Some e) \<Rightarrow> Returns (1, Some (fcgi_server_delete s), m)
              | (s, None) \<Rightarrow> Returns (0, Some (fcgi_server_delete (server_shutdown s)), join_maintenance_thread m))
         | Throws e \<Rightarrow> Returns (1, None, m)
         | Undefined \<Rightarrow> Undefined
         | Diverges \<Rightarrow> Diverges)"

section \<open>Where a request goes\<close>

lemma find_str_char_0: "find_str (c # s) [d] 0 = 0 \<longleftrightarrow> c = d"
  by (auto simp: find_str_def npos_def split: option.splits)

definition configured :: fcgi_server where
  "configured = (fresh_server '':9002'')\<lparr>
     locations_map := [(''/'', Some WP_HANDLER), (''/sitemap.xml'', Some SITEMAP_HANDLER)],
     handlers := [SITEMAP_HANDLER, WP_HANDLER]\<rparr>"

lemma worker_setup_Returns:
  assumes "worker_setup getpwnam getgrnam mutex_init_rc = Returns w"
  shows "the_server w = configured" "the_sites w = [(''wordpress.example.com'', POOL_WP_COM)]"
    "drop_permissions getpwnam getgrnam = Returns (the_calls w)"
proof -
  have "''/'' < (''/sitemap.xml'' :: string)" by simp
  then have s: "bind_result (add_handler_mapping ''/'' (Some WP_HANDLER) (fresh_server '':9002''))
      (add_handler_mapping ''/sitemap.xml'' (Some SITEMAP_HANDLER)) =
    Inr ((fresh_server '':9002'')\<lparr>locations_map := [(''/'', Some WP_HANDLER), (''/sitemap.xml'', Some SITEMAP_HANDLER)]\<rparr>)"
    by (simp add: add_handler_mapping_def find_str_char_0)
  have "mutex_init_rc = 0" using assms by (auto simp: worker_setup_def fcgi_server_new_def of_result_def split: if_splits)
  then show "the_server w = configured" "the_sites w = [(''wordpress.example.com'', POOL_WP_COM)]"
    "drop_permissions getpwnam getgrnam = Returns (the_calls w)"
    using assms s
    by (auto simp: worker_setup_def unpack add_site_def configured_def add_handler_def
        map_insert_def map_find_def fresh_server_def split: sum.splits)
qed

lemma configured_dispatch:
  assumes "length uri < npos"
  shows "invoke_handler handle uri configured rq rs =
    (if prefix ''/sitemap.xml'' uri then handle SITEMAP_HANDLER rq rs
     else if prefix ''/'' uri then handle WP_HANDLER rq rs
     else (Some (Fcgi_Exception (c_str (''No handlers configured for location: '' @ [QUOTE] @ uri @ [QUOTE])) HTTP_NOT_FOUND), rq, rs))"
proof -
  have "prefix ''/sitemap.xml'' uri \<Longrightarrow> prefix ''/'' uri" by (cases uri) auto
  then show ?thesis
    using find_str_0_prefix[OF assms]
    by (auto simp: invoke_handler_def configured_def equal_range_def)
qed

text \<open>A worker that has been set up sends every request whose path begins with /sitemap.xml to the
  site map, every other path that begins with a slash to the blog, and answers all others with
  status 404; this holds for the whole run, whatever thread takes the request.
\<close>

theorem worker_routes:
  assumes "worker_setup getpwnam getgrnam mutex_init_rc = Returns w"
    and "accepted_env_ok (Accepted env body)" "env ''SCRIPT_NAME'' = Some uri" "length uri < npos"
  shows "serve_request handle (the_server w) env body = Inr
    (case (if prefix ''/sitemap.xml'' uri then handle SITEMAP_HANDLER (request_of env body) fcgi_response_new
           else if prefix ''/'' uri then handle WP_HANDLER (request_of env body) fcgi_response_new
           else (Some (Fcgi_Exception (c_str (''No handlers configured for location: '' @ [QUOTE] @ uri @ [QUOTE])) 404),
                 request_of env body, fcgi_response_new)) of
       (None, _, rs) \<Rightarrow> rs
     | (Some e, _, rs) \<Rightarrow> rs\<lparr>fcgi_out := fcgi_out rs @ exn_output e\<rparr>)"
  using assms(3) by (simp add: serve_request_eq[OF assms(2)] answer_def worker_setup_Returns(1)[OF assms(1)]
      configured_dispatch[OF assms(4)] HTTP_NOT_FOUND_def)

definition some_accounts :: "string \<Rightarrow> int option" where
  "some_accounts name = (if name = ''www-data'' then Some 33 else None)"

lemma setup_example:
  "worker_setup some_accounts some_accounts 0 = Returns \<lparr>the_server = configured,
     the_sites = [(''wordpress.example.com'', POOL_WP_COM)],
     the_calls = [Setsid, Setuid 33, Setgid 33, Close_Fd 0, Close_Fd 1, Close_Fd 2, Ignore_Sigpipe]\<rparr>"
proof -
  have "\<exists>w. worker_setup some_accounts some_accounts 0 = Returns w"
    by (simp add: worker_setup_def drop_permissions_def some_accounts_def of_result_def add_handler_mapping_def find_str_char_0)
  then obtain w where w: "worker_setup some_accounts some_accounts 0 = Returns w" by blast
  moreover have "the_calls w = [Setsid, Setuid 33, Setgid 33, Close_Fd 0, Close_Fd 1, Close_Fd 2, Ignore_Sigpipe]"
    using worker_setup_Returns(3)[OF w] by (simp add: drop_permissions_def some_accounts_def)
  ultimately show ?thesis using worker_setup_Returns(1,2)[OF w] by (cases w) simp
qed

theorem worker_routes_witness:
  "\<forall>handle :: unit handler_effect. serve_request handle configured (\<lambda>n. if n = ''SCRIPT_NAME'' then Some ''/cake'' else None) [] =
     Inr (answer handle configured (\<lambda>n. if n = ''SCRIPT_NAME'' then Some ''/cake'' else None) [])"
proof (intro allI)
  fix handle :: "unit handler_effect"
  let ?env = "\<lambda>n. if n = ''SCRIPT_NAME'' then Some ''/cake'' else None"
  have len: "length ''/cake'' < npos" by (simp add: npos_def)
  from worker_routes[OF setup_example, of ?env "[]" "''/cake''" handle] configured_dispatch[OF len]
  show "serve_request handle configured ?env [] = Inr (answer handle configured ?env [])"
    using len by (simp add: accepted_env_ok_def answer_def)
qed

text \<open>The effects of the two handlers are those of their models wherever these give a result.\<close>

definition runs_worker_handlers ::
  "(xml_doc \<Rightarrow> string option) \<Rightarrow> (nat \<Rightarrow> mysql outcome) \<Rightarrow> site_map \<Rightarrow> 'x handler_effect \<Rightarrow> bool" where
  "runs_worker_handlers dump get_conn sites handle \<longleftrightarrow>
     (\<forall>rq rs e rs'. wp_handle dump (get_conn POOL_WP_COM) rq rs = Returns (e, rs') \<longrightarrow> handle WP_HANDLER rq rs = (e, rq, rs')) \<and>
     (\<forall>rq rs e rs'. sitemap_handle dump get_conn sites rq rs = Returns (e, rs') \<longrightarrow> handle SITEMAP_HANDLER rq rs = (e, rq, rs'))"

lemma site_map_dispatched:
  assumes "worker_setup getpwnam getgrnam mutex_init_rc = Returns w"
    and "runs_worker_handlers dump get_conn (the_sites w) handle"
    and "accepted_env_ok (Accepted env body)" "env ''SCRIPT_NAME'' = Some ''/sitemap.xml''"
    and "env ''SERVER_NAME'' = Some ''wordpress.example.com''"
    and "get_conn POOL_WP_COM = Returns conn" "site_db conn d" "read_int (per_page_text d) = Some (int k)" "0 < k"
  shows "serve_request handle (the_server w) env body = Inr
    (case write_page dump ''application/xml'' (fold doc_add (sitemap_nodes d k) (sitemap_head ''wordpress.example.com'')) fcgi_response_new of
       (None, rs) \<Rightarrow> rs
     | (Some e, rs) \<Rightarrow> rs\<lparr>fcgi_out := fcgi_out rs @ exn_output e\<rparr>)"
proof -
  let ?rq = "request_of env body"
  let ?page = "write_page dump ''application/xml'' (fold doc_add (sitemap_nodes d k) (sitemap_head ''wordpress.example.com'')) fcgi_response_new"
  have host: "get_fcgi_param ?rq ''SERVER_NAME'' = ''wordpress.example.com''"
    using assms(5) by (simp add: request_of_def get_fcgi_param_def)
  have "map_find (the_sites w) (get_fcgi_param ?rq ''SERVER_NAME'') = Some POOL_WP_COM"
    by (simp add: worker_setup_Returns(2)[OF assms(1)] host map_find_def)
  moreover have "get_fcgi_param ?rq ''SERVER_NAME'' \<noteq> ''www.nginxguts.com''" by (simp add: host)
  ultimately have "sitemap_handle dump get_conn (the_sites w) ?rq fcgi_response_new = Returns ?page"
    unfolding host[symmetric] by (rule sitemap_handled) (rule assms)+
  then have "handle SITEMAP_HANDLER ?rq fcgi_response_new = (fst ?page, ?rq, snd ?page)"
    using assms(2) by (simp add: runs_worker_handlers_def)
  moreover have "length ''/sitemap.xml'' < npos" by (simp add: npos_def)
  ultimately show ?thesis
    using assms(4)
    by (simp add: serve_request_eq[OF assms(3)] answer_def worker_setup_Returns(1)[OF assms(1)] configured_dispatch split: prod.splits option.splits)
qed

text \<open>A request for the site map of the configured host, through the whole program: the worker's
  server chooses the site map handler, the handler finds the host's pool, reads options, pages,
  posts, terms and the front page from the database, and the response is the status 200, the
  content type and the text of the complete site map.
\<close>

theorem site_map_served:
  assumes "worker_setup getpwnam getgrnam mutex_init_rc = Returns w"
    and "runs_worker_handlers dump get_conn (the_sites w) handle"
    and "accepted_env_ok (Accepted env body)" "env ''SCRIPT_NAME'' = Some ''/sitemap.xml''"
    and "env ''SERVER_NAME'' = Some ''wordpress.example.com''"
    and "get_conn POOL_WP_COM = Returns conn" "site_db conn d" "read_int (per_page_text d) = Some (int k)" "0 < k"
    and "dump (fold doc_add (sitemap_nodes d k) (sitemap_head ''wordpress.example.com'')) = Some xml"
  shows "serve_request handle (the_server w) env body = Inr \<lparr>fcgi_out =
    ''Status: 200'' @ [CR, LF] @ ''Content-Type: application/xml'' @ [CR, LF] @ [CR, LF] @ xml, fcgi_err = []\<rparr>"
  using site_map_dispatched[OF assms(1-9)] by (simp add: write_page_def doc_text_def assms(10) out_def fcgi_response_new_def)

theorem site_map_served_witness:
  "\<exists>handle :: unit handler_effect. serve_request handle configured
     (\<lambda>n. if n = ''SCRIPT_NAME'' then Some ''/sitemap.xml'' else if n = ''SERVER_NAME'' then Some ''wordpress.example.com'' else None) [] =
     Inr \<lparr>fcgi_out = ''Status: 200'' @ [CR, LF] @ ''Content-Type: application/xml'' @ [CR, LF] @ [CR, LF] @ ''<urlset/>'', fcgi_err = []\<rparr>"
proof -
  let ?env = "\<lambda>n. if n = ''SCRIPT_NAME'' then Some ''/sitemap.xml'' else if n = ''SERVER_NAME'' then Some ''wordpress.example.com'' else None"
  let ?dump = "\<lambda>doc. Some ''<urlset/>''" and ?conn = "\<lambda>_. Returns (site_conn sample_site)"
  let ?sites = "[(''wordpress.example.com'', POOL_WP_COM)]"
  let ?result = "\<lambda>r rq rs. case r of Returns (e, rs') \<Rightarrow> (e, rq, rs') | _ \<Rightarrow> (None, rq, rs)"
  define handle :: "unit handler_effect" where
    "handle h rq rs = (if h = WP_HANDLER then ?result (wp_handle ?dump (?conn POOL_WP_COM) rq rs) rq rs
      else ?result (sitemap_handle ?dump ?conn ?sites rq rs) rq rs)" for h rq rs
  have "runs_worker_handlers ?dump ?conn ?sites handle"
    by (simp add: runs_worker_handlers_def handle_def WP_HANDLER_def SITEMAP_HANDLER_def)
  moreover have "read_int (per_page_text sample_site) = Some (int 10)"
    by (simp add: sample_site_def read_int_def is_space_def is_digit_def digits_val_def digit_val_def)
  ultimately have "serve_request handle configured ?env [] =
     Inr \<lparr>fcgi_out = ''Status: 200'' @ [CR, LF] @ ''Content-Type: application/xml'' @ [CR, LF] @ [CR, LF] @ ''<urlset/>'', fcgi_err = []\<rparr>"
    using site_map_served[OF setup_example, of ?dump ?conn handle ?env "[]" "site_conn sample_site" sample_site 10 "''<urlset/>''"]
      sample_site_db by (simp add: accepted_env_ok_def)
  then show ?thesis by blast
qed

section \<open>The user and the group\<close>

text \<open>
  What the kernel does with the user and the group of a process (its real, effective and saved ids
  taken as one): root may set them, another user changes the group only to the one it has.
\<close>

record creds =
  uid :: int
  gid :: int

definition posix_ids :: "(sys_call \<Rightarrow> creds \<Rightarrow> creds) \<Rightarrow> bool" where
  "posix_ids krn \<longleftrightarrow>
     (\<forall>c u. uid c = 0 \<longrightarrow> krn (Setuid u) c = c\<lparr>uid := u\<rparr>) \<and>
     (\<forall>c g. uid c = 0 \<longrightarrow> krn (Setgid g) c = c\<lparr>gid := g\<rparr>) \<and>
     (\<forall>c g. uid c \<noteq> 0 \<longrightarrow> krn (Setgid g) c = c) \<and>
     (\<forall>c. krn Setsid c = c) \<and> (\<forall>c fd. krn (Close_Fd fd) c = c) \<and> (\<forall>c. krn Ignore_Sigpipe c = c)"

lemma drop_permissions_calls:
  assumes "drop_permissions getpwnam getgrnam = Returns calls" "calls \<noteq> []"
  shows "\<exists>name u g. getpwnam name = Some u \<and>
    calls = [Setsid, Setuid u, Setgid g, Close_Fd 0, Close_Fd 1, Close_Fd 2, Ignore_Sigpipe]"
  using assms by (auto simp: drop_permissions_def Let_def split: option.splits)

text \<open>Without a group of either name a null pointer is read, after the user has been changed.\<close>

lemma missing_group_is_read:
  assumes "getpwnam ''www-data'' = Some u" "getgrnam ''www-data'' = None" "getgrnam ''nogroup'' = None"
  shows "drop_permissions getpwnam getgrnam = Undefined"
  using assms by (simp add: drop_permissions_def)

text \<open>A worker started by root keeps the group of root: the user is given up before the group is
  changed, so the kernel refuses the change of the group, and its result is not looked at.
\<close>

theorem worker_keeps_root_group:
  assumes "drop_permissions getpwnam getgrnam = Returns calls" "calls \<noteq> []" "posix_ids krn"
    and "\<forall>name u. getpwnam name = Some u \<longrightarrow> u \<noteq> 0" "uid c = 0" "gid c = 0"
  shows "uid (fold krn calls c) \<noteq> 0 \<and> gid (fold krn calls c) = 0"
proof -
  obtain name u g where u: "getpwnam name = Some u"
    and calls: "calls = [Setsid, Setuid u, Setgid g, Close_Fd 0, Close_Fd 1, Close_Fd 2, Ignore_Sigpipe]"
    using drop_permissions_calls[OF assms(1,2)] by blast
  have "u \<noteq> 0" using u assms(4) by simp
  then show ?thesis using assms(3,5,6) by (simp add: calls posix_ids_def)
qed

definition a_kernel :: "sys_call \<Rightarrow> creds \<Rightarrow> creds" where
  "a_kernel call c = (case call of Setuid u \<Rightarrow> if uid c = 0 then c\<lparr>uid := u\<rparr> else c
     | Setgid g \<Rightarrow> if uid c = 0 then c\<lparr>gid := g\<rparr> else c | _ \<Rightarrow> c)"

theorem worker_keeps_root_group_witness:
  "gid (fold a_kernel [Setsid, Setuid 33, Setgid 33, Close_Fd 0, Close_Fd 1, Close_Fd 2, Ignore_Sigpipe] \<lparr>uid = 0, gid = 0\<rparr>) = 0"
proof -
  have "drop_permissions some_accounts some_accounts =
    Returns [Setsid, Setuid 33, Setgid 33, Close_Fd 0, Close_Fd 1, Close_Fd 2, Ignore_Sigpipe]"
    by (simp add: drop_permissions_def some_accounts_def)
  moreover have "posix_ids a_kernel" by (simp add: posix_ids_def a_kernel_def)
  ultimately show ?thesis
    using worker_keeps_root_group[of some_accounts some_accounts _ a_kernel "\<lparr>uid = 0, gid = 0\<rparr>"]
    by (auto simp: some_accounts_def split: if_splits)
qed

section \<open>The exit of the process\<close>

text \<open>
  A socket that cannot be opened ends the process with the code 1 while the maintenance thread goes
  on with the pool, which is destroyed on the way out.
\<close>

lemma failed_start_leaves_maintenance:
  assumes "worker_setup getpwnam getgrnam mutex_init_rc = Returns w" "open_socket_rc < 0"
  shows "\<exists>s m. worker_process getpwnam getgrnam mutex_init_rc open_socket_rc m0 = Returns (1, Some s, m) \<and>
    POOL_WP_COM \<in> set (mt_pools m) \<and> mt_running m \<and> mt_exiting m = mt_exiting m0"
  using assms by (simp add: worker_process_def Let_def server_init_def start_maintenance_thread_def)

text \<open>A process that ran initialises, shuts down and deletes each handler once.\<close>

lemma worker_lifecycle:
  assumes "worker_setup getpwnam getgrnam mutex_init_rc = Returns w" "0 \<le> open_socket_rc"
  shows "\<exists>s m. worker_process getpwnam getgrnam mutex_init_rc open_socket_rc m0 = Returns (0, Some s, m) \<and> mt_exiting m \<and>
    server_calls s = [Init_Handler SITEMAP_HANDLER, Init_Handler WP_HANDLER,
      Shutdown_Handler SITEMAP_HANDLER, Shutdown_Handler WP_HANDLER, Close_Socket open_socket_rc,
      Delete_Handler SITEMAP_HANDLER, Delete_Handler WP_HANDLER]"
  using assms worker_setup_Returns(1)[OF assms(1)]
  by (simp add: worker_process_def Let_def server_init_def server_shutdown_def fcgi_server_delete_def configured_def
      fresh_server_def join_maintenance_thread_def)

end
