(* ===== verification/Url.thy ===== *)
theory Url
  imports Prelude
begin

text \<open>
  The splitting of a URL into its parts (the class \<open>URL\<close> of
  \<^verbatim>\<open>src/server/url.h\<close>). The iterator is the part of the source that is left; reading
  the position behind the last character is \<open>Undefined\<close>.
\<close>

record url =
  source :: string
  schema :: string
  host :: string
  port :: string
  path :: string
  query :: string

text \<open>How many characters the schema takes.\<close>

definition schema_length :: "string \<Rightarrow> nat outcome" where
  "schema_length src =
     (if length ''http://'' \<le> length src then
        (if src ! 0 = CHR ''h'' \<and> src ! 1 = CHR ''t'' \<and> src ! 2 = CHR ''t'' \<and> src ! 3 = CHR ''p'' then
           (if src ! 4 = CHR ''s'' \<and> src ! 5 = CHR '':'' \<and> src ! 6 = CHR ''/'' then
              (if length src \<le> 7 then Undefined
               else if src ! 7 = CHR ''/'' then Returns 8 else Returns 0)
            else if src ! 4 = CHR '':'' \<and> src ! 5 = CHR ''/'' \<and> src ! 6 = CHR ''/'' then Returns 7
            else Returns 0)
         else Returns 0)
      else Returns 0)"

text \<open>A loop that advances up to a character where it breaks: what it passed, and the rest.\<close>

definition scan_until :: "(char \<Rightarrow> bool) \<Rightarrow> string \<Rightarrow> string \<times> string" where
  "scan_until stop s = (takeWhile (\<lambda>c. \<not> stop c) s, dropWhile (\<lambda>c. \<not> stop c) s)"

definition starts_with :: "char \<Rightarrow> string \<Rightarrow> bool" where
  "starts_with c s \<longleftrightarrow> s \<noteq> [] \<and> hd s = c"

definition URL_new :: "string \<Rightarrow> url outcome" where
  "URL_new src =
     bind_outcome (schema_length src) (\<lambda>n.
       let (h, p1) = scan_until (\<lambda>c. c = CHR '':'' \<or> c = CHR ''/'' \<or> c = CHR ''?'') (drop n src);
           (prt, p2) = (if starts_with (CHR '':'') p1 then scan_until (\<lambda>c. \<not> is_digit c) (tl p1) else ([], p1))
       in if starts_with (CHR '':'') p1 \<and> prt = [] then Throws (Runtime_Error ''bad url'')
          else
            (let (pth, p3) = (if starts_with (CHR ''/'') p2 then scan_until (\<lambda>c. c = CHR ''?'') p2 else ([], p2));
                 qry = (if starts_with (CHR ''?'') p3 then p3 else [])
             in Returns \<lparr>source = src, schema = take n src, host = h, port = prt, path = pth, query = qry\<rparr>))"

section \<open>Putting the parts together again\<close>

text \<open>The parts of a URL as they are written, and when they are proper ones.\<close>

definition url_text :: "string \<Rightarrow> string \<Rightarrow> string \<Rightarrow> string \<Rightarrow> string \<Rightarrow> string" where
  "url_text sch h prt pth qry = sch @ h @ (if prt = [] then [] else CHR '':'' # prt) @ pth @ qry"

definition url_parts_ok :: "string \<Rightarrow> string \<Rightarrow> string \<Rightarrow> string \<Rightarrow> string \<Rightarrow> bool" where
  "url_parts_ok sch h prt pth qry \<longleftrightarrow> sch \<in> {[], ''http://'', ''https://''} \<and>
     set h \<inter> {CHR '':'', CHR ''/'', CHR ''?''} = {} \<and> list_all is_digit prt \<and>
     (pth = [] \<or> hd pth = CHR ''/'' \<and> CHR ''?'' \<notin> set pth) \<and> (qry = [] \<or> hd qry = CHR ''?'')"

lemma scan_until_stop:
  "\<forall>c \<in> set xs. \<not> stop c \<Longrightarrow> ys = [] \<or> stop (hd ys) \<Longrightarrow> scan_until stop (xs @ ys) = (xs, ys)"
  by (induction xs) (cases ys; auto simp: scan_until_def)+

abbreviation special :: "char \<Rightarrow> bool" where
  "special c \<equiv> c = CHR '':'' \<or> c = CHR ''/'' \<or> c = CHR ''?''"

text \<open>What follows the host is empty or begins with a special character; a colon comes before a digit.\<close>

lemma colon_before_digit:
  assumes "url_parts_ok sch h prt pth qry" "s = url_text [] h prt pth qry"
    "\<forall>j < i. \<not> special (s ! j)" "s ! i = CHR '':''" "Suc i < length s"
  shows "is_digit (s ! Suc i)"
proof -
  let ?tail = "(if prt = [] then [] else CHR '':'' # prt) @ pth @ qry"
  have s: "s = h @ ?tail" using assms(2) by (simp add: url_text_def)
  have ok: "\<forall>c \<in> set h. \<not> special c" "\<forall>c \<in> set prt. is_digit c" "pth = [] \<or> hd pth = CHR ''/''"
    "qry = [] \<or> hd qry = CHR ''?''"
    using assms(1) by (auto simp: url_parts_ok_def list_all_iff)
  have tail: "special (hd ?tail)" "prt = [] \<Longrightarrow> hd ?tail \<noteq> CHR '':''" if "?tail \<noteq> []"
    using that ok(3,4) by (cases pth; cases qry; auto)+
  have ge: "\<not> i < length h"
  proof
    assume "i < length h"
    then have "s ! i \<in> set h" by (simp add: s nth_append)
    then show False using ok(1) assms(4) by auto
  qed
  have ne: "?tail \<noteq> []" using ge assms(5) by (auto simp: s)
  have "\<not> length h < i"
  proof
    assume "length h < i"
    then have "\<not> special (s ! length h)" using assms(3) by blast
    moreover have "s ! length h = hd ?tail" using ne by (simp add: s nth_append hd_conv_nth)
    ultimately show False using tail(1)[OF ne] by simp
  qed
  with ge have i: "i = length h" by simp
  then have "hd ?tail = CHR '':''" using assms(4) ne by (simp add: s nth_append hd_conv_nth)
  then have "prt \<noteq> []" using tail(2)[OF ne] by blast
  then have "s ! Suc i = hd prt" by (cases prt) (simp_all add: s i nth_append)
  then show ?thesis using ok(2) \<open>prt \<noteq> []\<close> by simp
qed

lemma schema_of_text:
  assumes "url_parts_ok sch h prt pth qry"
  shows "schema_length (url_text sch h prt pth qry) = Returns (length sch)"
proof -
  let ?s = "url_text sch h prt pth qry"
  consider "sch = ''http://''" | "sch = ''https://''" | "sch = []"
    using assms by (auto simp: url_parts_ok_def)
  then show ?thesis
  proof cases
    case 3
    have no: "\<not> (?s ! i = CHR '':'' \<and> ?s ! Suc i = CHR ''/'')" if "\<forall>j < i. \<not> special (?s ! j)" "Suc i < length ?s" for i
      using colon_before_digit[OF assms, of ?s i] that 3 by (auto simp: is_digit_def)
    have "\<not> (?s ! 4 = CHR '':'' \<and> ?s ! 5 = CHR ''/'')"
      if "?s ! 0 = CHR ''h''" "?s ! 1 = CHR ''t''" "?s ! 2 = CHR ''t''" "?s ! 3 = CHR ''p''" "7 \<le> length ?s"
      using no[of 4] that by (simp add: less_Suc_eq eval_nat_numeral)
    moreover have "\<not> (?s ! 5 = CHR '':'' \<and> ?s ! 6 = CHR ''/'')"
      if "?s ! 0 = CHR ''h''" "?s ! 1 = CHR ''t''" "?s ! 2 = CHR ''t''" "?s ! 3 = CHR ''p''" "?s ! 4 = CHR ''s''" "7 \<le> length ?s"
      using no[of 5] that by (simp add: less_Suc_eq eval_nat_numeral)
    ultimately show ?thesis using 3 by (auto simp: schema_length_def)
  qed (simp_all add: url_text_def schema_length_def)
qed

text \<open>A URL put together from proper parts, a schema or none, a host, a port or none, a path and a
  query, is split into exactly these parts.\<close>

theorem url_roundtrip:
  assumes "url_parts_ok sch h prt pth qry"
  shows "URL_new (url_text sch h prt pth qry) =
    Returns \<lparr>source = url_text sch h prt pth qry, schema = sch, host = h, port = prt, path = pth, query = qry\<rparr>"
proof -
  let ?s = "url_text sch h prt pth qry"
  let ?p1 = "(if prt = [] then [] else CHR '':'' # prt) @ pth @ qry"
  have ok: "\<forall>c \<in> set h. \<not> special c" "\<forall>c \<in> set prt. \<not> \<not> is_digit c" "pth = [] \<or> hd pth = CHR ''/''"
    "\<forall>c \<in> set pth. \<not> c = CHR ''?''" "qry = [] \<or> hd qry = CHR ''?''"
    using assms by (auto simp: url_parts_ok_def list_all_iff)
  have cut: "drop (length sch) ?s = h @ ?p1" "take (length sch) ?s = sch"
    by (simp_all add: url_text_def)
  have tails: "?p1 = [] \<or> special (hd ?p1)" "pth @ qry = [] \<or> \<not> is_digit (hd (pth @ qry))"
    "qry = [] \<or> hd qry = CHR ''?''" "\<not> starts_with (CHR '':'') (pth @ qry)"
    using ok(3,5) by (cases pth; cases qry; auto simp: is_digit_def starts_with_def)+
  note scans = scan_until_stop[OF ok(1) tails(1)] scan_until_stop[OF ok(2) tails(2)]
    scan_until_stop[OF ok(4) tails(3)]
  have port: "(if starts_with (CHR '':'') ?p1 then scan_until (\<lambda>c. \<not> is_digit c) (tl ?p1) else ([], ?p1)) = (prt, pth @ qry)"
    using scans(2) tails(4) by (auto simp: starts_with_def)
  have path: "(if starts_with (CHR ''/'') (pth @ qry) then scan_until (\<lambda>c. c = CHR ''?'') (pth @ qry) else ([], pth @ qry)) = (pth, qry)"
    using scans(3) ok(3,5) by (cases pth) (auto simp: starts_with_def)
  have query: "(if starts_with (CHR ''?'') qry then qry else []) = qry"
    using ok(5) by (auto simp: starts_with_def)
  have "\<not> (starts_with (CHR '':'') ?p1 \<and> prt = [])" using tails(4) by auto
  then show ?thesis
    unfolding URL_new_def schema_of_text[OF assms] bind_outcome_simps Let_def cut scans(1) prod.case port path query
    by simp
qed

theorem url_roundtrip_witness:
  "URL_new ''https://db:9002/a/b?x=/1'' =
    Returns \<lparr>source = ''https://db:9002/a/b?x=/1'', schema = ''https://'', host = ''db'', port = ''9002'',
      path = ''/a/b'', query = ''?x=/1''\<rparr>"
  using url_roundtrip[of "''https://''" "''db''" "''9002''" "''/a/b''" "''?x=/1''"]
  by (simp add: url_parts_ok_def url_text_def is_digit_def)

text \<open>One source makes the constructor read behind its end.\<close>

lemma url_overread: "URL_new src = Undefined \<longleftrightarrow> src = ''https:/''"
proof
  assume "URL_new src = Undefined"
  then have "schema_length src = Undefined"
    by (cases "schema_length src") (auto simp: URL_new_def Let_def split: prod.splits if_splits)
  then have "length src = 7" and n: "src ! 0 = CHR ''h''" "src ! 1 = CHR ''t''" "src ! 2 = CHR ''t''" "src ! 3 = CHR ''p''"
    "src ! 4 = CHR ''s''" "src ! 5 = CHR '':''" "src ! 6 = CHR ''/''"
    by (auto simp: schema_length_def split: if_splits)
  then obtain a b c d e f g where "src = [a, b, c, d, e, f, g]"
    by (auto simp: length_Suc_conv eval_nat_numeral)
  with n show "src = ''https:/''" by simp
next
  assume "src = ''https:/''"
  then show "URL_new src = Undefined" by (simp add: URL_new_def schema_length_def)
qed

end
