(* ===== verification/Date.thy ===== *)
theory Date
  imports Prelude
begin

text \<open>
  Days by their Julian day number (the class \<open>Date\<close> of \<^verbatim>\<open>src/server/date.h\<close>).

  A Julian day of the class is a double that is half below an integer; it is modelled by that
  integer, \<open>J = m_julian_day + 0.5\<close>. The divisions by 36524.25, 365.25 and 30.6001 whose results
  are rounded down are written with integers. For the days of the years 1 to 9999 the double
  computation has the same results: its quotients are an integer only where the division is exact,
  and else they are further from an integer than the error of a division. \<open>unsigned int\<close>
  arithmetic is modulo 2 to the 32; the conversion of a double that does not fit is undefined.
\<close>

section \<open>Operations\<close>

definition UINT_SIZE :: int where "UINT_SIZE = 4294967296"
definition QUANTS_PER_DAY :: int where "QUANTS_PER_DAY = 24 * 4"
definition SECONDS_PER_DAY :: int where "SECONDS_PER_DAY = 24 * 60 * 60"

text \<open>\<open>UNIX_EPOCH_JULIAN_DAY + 0.5\<close>\<close>

definition UNIX_EPOCH_DAY :: int where "UNIX_EPOCH_DAY = 2440588"

definition ymd_to_julian_day :: "int \<Rightarrow> int \<Rightarrow> int \<Rightarrow> int" where
  "ymd_to_julian_day year0 month0 day =
     (let (year, month) = (if month0 = 1 \<or> month0 = 2
                           then ((year0 - 1) mod UINT_SIZE, (month0 + 12) mod UINT_SIZE) else (year0, month0));
          a = year div 100;
          b = a div 4;
          c = 2 - a + b;
          e = (1461 * ((year + 4716) mod UINT_SIZE)) div 4;
          f = (306001 * ((month + 1) mod UINT_SIZE)) div 10000
      in c + day + e + f - 1524)"

text \<open>A character as a signed number, less that of the zero.\<close>

definition char_digit :: "char \<Rightarrow> int" where
  "char_digit ch = (let n = of_char ch in if n < 128 then n else n - 256) - 48"

text \<open>Reading up to the terminating NUL is defined, further it is not.\<close>

definition yyyymmdd_to_julian_day :: "string \<Rightarrow> int outcome" where
  "yyyymmdd_to_julian_day s =
     (if length s < 7 then Undefined
      else (let t = s @ [NUL];
                year = (char_digit (t ! 0) * 1000 + char_digit (t ! 1) * 100 + char_digit (t ! 2) * 10 +
                        char_digit (t ! 3)) mod UINT_SIZE;
                month = (char_digit (t ! 4) * 10 + char_digit (t ! 5)) mod UINT_SIZE;
                day = (char_digit (t ! 6) * 10 + char_digit (t ! 7)) mod UINT_SIZE
            in Returns (ymd_to_julian_day year month day)))"

definition epoch_to_julian_day :: "int \<Rightarrow> int" where
  "epoch_to_julian_day epoch =
     (if 0 \<le> epoch then epoch div SECONDS_PER_DAY else - ((- epoch) div SECONDS_PER_DAY)) + UNIX_EPOCH_DAY"

definition add_days :: "int \<Rightarrow> int \<Rightarrow> int" where "add_days J days = J + days"
definition sub_days :: "int \<Rightarrow> int \<Rightarrow> int" where "sub_days J days = J - days"
definition next_day :: "int \<Rightarrow> int" where "next_day J = J + 1"
definition same_day :: "int \<Rightarrow> int \<Rightarrow> bool" where "same_day J K \<longleftrightarrow> J - 1 = K - 1"
definition other_day :: "int \<Rightarrow> int \<Rightarrow> bool" where "other_day J K \<longleftrightarrow> J - 1 \<noteq> K - 1"

text \<open>The constructors, from the clock and from a text, and the assignment.\<close>

definition Date_now :: "int \<Rightarrow> int" where "Date_now now = epoch_to_julian_day now"
definition Date_parse :: "string \<Rightarrow> int outcome" where "Date_parse s = yyyymmdd_to_julian_day s"
definition assign_date :: "int \<Rightarrow> int \<Rightarrow> int" where "assign_date J K = K"

text \<open>Year, month and day of a Julian day.\<close>

definition civil_of_julian :: "int \<Rightarrow> int \<times> int \<times> int" where
  "civil_of_julian J =
     (let w = (4 * J - 7468865) div 146097;
          x = w div 4;
          a = J + 1 + w - x;
          b = a + 1524;
          c = (20 * b - 2442) div 7305;
          d = (1461 * c) div 4;
          e = (10000 * (b - d)) div 306001;
          f = (306001 * e) div 10000;
          month = (if e - 1 \<le> 12 then e - 1 else e - 13)
      in (if month = 1 \<or> month = 2 then c - 4715 else c - 4716, month, b - d - f))"

definition date_text :: "int \<times> int \<times> int \<Rightarrow> string" where
  "date_text date =
     (let (year, month, day) = date
      in map (\<lambda>n. digit_char (nat (n mod 10)))
           [year div 1000, year div 100, year div 10, year, month div 10, month, day div 10, day])"

definition to_unsigned :: "int \<Rightarrow> int outcome" where
  "to_unsigned n = (if 0 \<le> n \<and> n < UINT_SIZE then Returns n else Undefined)"

definition yyyymmdd :: "int \<Rightarrow> string outcome" where
  "yyyymmdd J =
     (let (y, m, d) = civil_of_julian J
      in bind_outcome (to_unsigned d) (\<lambda>day.
         bind_outcome (to_unsigned m) (\<lambda>month.
         bind_outcome (to_unsigned y) (\<lambda>year. Returns (date_text (year, month, day))))))"

definition start_quant_id :: "int \<Rightarrow> int outcome" where
  "start_quant_id J =
     bind_outcome (to_unsigned (J - UNIX_EPOCH_DAY)) (\<lambda>n. Returns ((n * QUANTS_PER_DAY) mod UINT_SIZE))"

definition end_quant_id :: "int \<Rightarrow> int outcome" where
  "end_quant_id J =
     bind_outcome (to_unsigned (J - UNIX_EPOCH_DAY)) (\<lambda>n.
       Returns ((n * QUANTS_PER_DAY + QUANTS_PER_DAY - 1) mod UINT_SIZE))"

section \<open>The Gregorian calendar\<close>

definition leap :: "int \<Rightarrow> bool" where
  "leap y \<longleftrightarrow> y mod 4 = 0 \<and> (y mod 100 \<noteq> 0 \<or> y mod 400 = 0)"

definition month_length :: "int \<Rightarrow> int \<Rightarrow> int" where
  "month_length y m = (if m = 2 then (if leap y then 29 else 28) else if m \<in> {4, 6, 9, 11} then 30 else 31)"

definition valid_date :: "int \<Rightarrow> int \<Rightarrow> int \<Rightarrow> bool" where
  "valid_date y m d \<longleftrightarrow> 1 \<le> y \<and> y \<le> 9999 \<and> 1 \<le> m \<and> m \<le> 12 \<and> 1 \<le> d \<and> d \<le> month_length y m"

text \<open>
  Both directions work on a year that begins in March: year \<open>y\<close>, month \<open>m\<close> from 3 to 14.
  \<open>D\<close> is the day in it, with the offset that the formulas give it.
\<close>

definition march_day :: "int \<Rightarrow> int \<Rightarrow> int" where
  "march_day m d = d + (306001 * (m + 1)) div 10000"

lemma div_between: "0 < (b :: int) \<Longrightarrow> q * b \<le> a \<Longrightarrow> a < (q + 1) * b \<Longrightarrow> a div b = q"
proof -
  assume a: "0 < b" "q * b \<le> a" "a < (q + 1) * b"
  then have "0 \<le> a - q * b" "a - q * b < b" by (simp_all add: algebra_simps)
  then have "(a - q * b) div b = 0" by (rule div_pos_pos_trivial)
  moreover have "a div b = (a - q * b) div b + q" using a(1) div_mult_self3[of b q "a - q * b"] by simp
  ultimately show "a div b = q" by simp
qed

lemma march_months:
  assumes "(3 :: int) \<le> m" "m \<le> 14"
  shows "m = 3 \<or> m = 4 \<or> m = 5 \<or> m = 6 \<or> m = 7 \<or> m = 8 \<or> m = 9 \<or> m = 10 \<or> m = 11 \<or> m = 12 \<or> m = 13 \<or> m = 14"
  using assms by presburger

lemma march_day_months:
  assumes "3 \<le> m" "m \<le> 14" "1 \<le> d" "d \<le> 31" "m \<in> {4, 6, 9, 11} \<Longrightarrow> d \<le> 30" "m = 14 \<Longrightarrow> d \<le> 29"
  shows "(10000 * march_day m d) div 306001 = m + 1"
  using march_months[OF assms(1,2)] assms(3-6)
  by (intro div_between) (auto simp: march_day_def)

lemma march_day_range:
  assumes "3 \<le> m" "m \<le> 14" "1 \<le> d" "d \<le> 31" "m = 14 \<Longrightarrow> d \<le> 28 + l" "0 \<le> l" "l \<le> 1"
  shows "123 \<le> march_day m d \<and> march_day m d \<le> 487 + l"
  using march_months[OF assms(1,2)] assms(3-7)
  by (auto simp: march_day_def)

text \<open>
  The parts of a year \<open>Y\<close> are the numbers \<open>q\<close>, \<open>s\<close>, \<open>u\<close> and \<open>v\<close> of its whole 400, 100, 4 and single
  years; the last day of the February that ends it exists when the next year is a leap year.
\<close>

definition year_parts :: "int \<Rightarrow> int \<Rightarrow> int \<Rightarrow> int \<Rightarrow> int \<Rightarrow> bool" where
  "year_parts Y q s u v \<longleftrightarrow> Y = 400 * q + 100 * s + 4 * u + v \<and> 0 \<le> s \<and> s < 4 \<and> 0 \<le> u \<and> u < 25 \<and> 0 \<le> v \<and> v < 4"

lemma year_partsI:
  assumes "Y = 100 * c + r" "c = 4 * q + s" "r = 4 * u + v" "0 \<le> r" "r < 100" "0 \<le> s" "s < 4" "0 \<le> v" "v < 4"
  shows "year_parts Y q s u v"
  using assms unfolding year_parts_def by linarith

lemma year_has_parts: "\<exists>q s u v. year_parts Y q s u v"
proof -
  have "year_parts Y (Y div 100 div 4) (Y div 100 mod 4) (Y mod 100 div 4) (Y mod 100 mod 4)"
    by (rule year_partsI[of Y "Y div 100" "Y mod 100"]) simp_all
  then show ?thesis by blast
qed

lemma year_parts_div:
  assumes "year_parts Y q s u v"
  shows "Y div 100 = 4 * q + s" "(4 * q + s) div 4 = q"
    "(1461 * (Y + 4716)) div 4 = 365 * Y + 100 * q + 25 * s + u + 1722519"
proof -
  have P: "Y = 400 * q + 100 * s + 4 * u + v" "0 \<le> s" "s < 4" "0 \<le> u" "u < 25" "0 \<le> v" "v < 4"
    using assms by (simp_all add: year_parts_def)
  show "Y div 100 = 4 * q + s" by (rule div_between) (use P in \<open>simp_all add: algebra_simps\<close>)
  show "(4 * q + s) div 4 = q" by (rule div_between) (use P in \<open>simp_all add: algebra_simps\<close>)
  show "(1461 * (Y + 4716)) div 4 = 365 * Y + 100 * q + 25 * s + u + 1722519"
    by (rule div_between) (use P in \<open>simp_all add: algebra_simps\<close>)
qed

lemma leap_next:
  assumes "year_parts Y q s u v"
  shows "leap (Y + 1) \<longleftrightarrow> v = 3 \<and> (u = 24 \<longrightarrow> s = 3)"
proof -
  have wrap: "x mod n = 0 \<longleftrightarrow> x = n" if "0 < x" "x \<le> n" for x n :: int
    using that by (cases "x = n") (auto simp: mod_pos_pos_trivial)
  have ranges: "0 \<le> s" "s < 4" "0 \<le> u" "u < 25" "0 \<le> v" "v < 4"
    and Y: "Y + 1 = (v + 1) + 4 * (100 * q + 25 * s + u)" "Y + 1 = (4 * u + v + 1) + 100 * (4 * q + s)"
      "Y + 1 = (100 * s + 4 * u + v + 1) + 400 * q"
    using assms by (simp_all add: year_parts_def)
  have 4: "(Y + 1) mod 4 = 0 \<longleftrightarrow> v = 3"
    unfolding Y(1) mod_mult_self2 by (subst wrap; use ranges in linarith)
  have 100: "(Y + 1) mod 100 = 0 \<longleftrightarrow> u = 24 \<and> v = 3"
    unfolding Y(2) mod_mult_self2 by (subst wrap; use ranges in linarith)
  have 400: "(Y + 1) mod 400 = 0 \<longleftrightarrow> s = 3 \<and> u = 24 \<and> v = 3"
    unfolding Y(3) mod_mult_self2 by (subst wrap; use ranges in linarith)
  show ?thesis unfolding leap_def 4 100 400 by blast
qed

text \<open>The year \<open>Y\<close> is found again from a Julian day of it, and then the month and the day.\<close>

definition march_julian :: "int \<Rightarrow> int \<Rightarrow> int \<Rightarrow> int" where
  "march_julian Y m d = 2 - Y div 100 + Y div 100 div 4 + march_day m d + (1461 * (Y + 4716)) div 4 - 1524"

lemma civil_of_march_julian:
  assumes "3 \<le> m" "m \<le> 14" "1 \<le> d" "d \<le> 31" "m \<in> {4, 6, 9, 11} \<Longrightarrow> d \<le> 30"
    "m = 14 \<Longrightarrow> d \<le> (if leap (Y + 1) then 29 else 28)"
  shows "civil_of_julian (march_julian Y m d) =
    (if m \<le> 12 then Y else Y + 1, if m \<le> 12 then m else m - 12, d)"
proof -
  obtain q s u v where parts: "year_parts Y q s u v" using year_has_parts by blast
  define l :: int where "l = (if leap (Y + 1) then 1 else 0)"
  define D where "D = march_day m d"
  define K where "K = (1461 * (Y + 4716)) div 4"
  have P: "Y = 400 * q + 100 * s + 4 * u + v" "0 \<le> s" "s < 4" "0 \<le> u" "u < 25" "0 \<le> v" "v < 4"
    using parts by (simp_all add: year_parts_def)
  have l: "0 \<le> l" "l \<le> 1" by (simp_all add: l_def)
  have "m = 14 \<Longrightarrow> d \<le> 28 + l" using assms(6) by (simp add: l_def split: if_splits)
  from march_day_range[OF assms(1-4) this l] have D: "123 \<le> D" "D \<le> 487 + l" by (simp_all add: D_def)
  have l1: "l = 1 \<Longrightarrow> v = 3 \<and> (u = 24 \<longrightarrow> s = 3)"
    using leap_next[OF parts] by (auto simp: l_def split: if_splits)
  have K: "K = 365 * Y + 100 * q + 25 * s + u + 1722519"
    unfolding K_def by (rule year_parts_div(3)[OF parts])
  define J where "J = march_julian Y m d"
  have J: "J = K + D - 3 * q - s - 1522"
    unfolding J_def march_julian_def D_def[symmetric] K_def[symmetric] year_parts_div(1,2)[OF parts] by simp
  have u24: "u \<noteq> 24 \<Longrightarrow> u \<le> 23" using P(5) by simp
  have "5844 * u + 1460 * v + 4 * D < 146586 + s"
  proof (cases "l = 1")
    case True
    then show ?thesis using P(2-7) D l1 u24 by (cases "u = 24") auto
  next
    case False
    then show ?thesis using P(2-7) D l by auto
  qed
  then have w: "(4 * J - 7468865) div 146097 = 4 * q + s - 4"
    using P J K D l l1 by (intro div_between) auto
  have x: "(4 * q + s - 4) div 4 = q - 1"
    using P by (intro div_between) auto
  have b: "J + 1 + (4 * q + s - 4) - (q - 1) + 1524 = K + D" using J by simp
  have "20 * D < 5 * v + 9747" using P(6) D l l1 by (cases "l = 1") auto
  then have c: "(20 * (K + D) - 2442) div 7305 = Y + 4716"
    using P K D l l1 by (intro div_between) auto
  have e: "(10000 * D) div 306001 = m + 1"
    unfolding D_def using assms by (intro march_day_months) (auto split: if_splits)
  show ?thesis
    unfolding J_def[symmetric] civil_of_julian_def Let_def w x b c K_def[symmetric] add_diff_cancel_left' e
    using assms(1,2) by (auto simp: D_def march_day_def)
qed

lemma ymd_is_march_julian:
  assumes "valid_date y m d"
  shows "ymd_to_julian_day y m d = (if m \<le> 2 then march_julian (y - 1) (m + 12) d else march_julian y m d)"
  using assms by (auto simp: ymd_to_julian_day_def march_julian_def march_day_def valid_date_def UINT_SIZE_def Let_def)

lemma civil_of_ymd:
  assumes "valid_date y m d"
  shows "civil_of_julian (ymd_to_julian_day y m d) = (y, m, d)"
proof (cases "m \<le> 2")
  case True
  then have m: "m = 1 \<or> m = 2" using assms by (auto simp: valid_date_def)
  have "civil_of_julian (march_julian (y - 1) (m + 12) d) = (y, m, d)"
    by (subst civil_of_march_julian)
      (use m assms in \<open>auto simp: valid_date_def month_length_def split: if_splits\<close>)
  then show ?thesis using True by (simp add: ymd_is_march_julian[OF assms])
next
  case False
  have "civil_of_julian (march_julian y m d) = (y, m, d)"
    by (subst civil_of_march_julian)
      (use False assms in \<open>auto simp: valid_date_def month_length_def split: if_splits\<close>)
  then show ?thesis using False by (simp add: ymd_is_march_julian[OF assms])
qed

section \<open>Reading a date\<close>

lemma char_digit_below: "k < 10 \<Longrightarrow> char_digit (digit_char k) = int k"
proof -
  assume "k < 10"
  then have "k = 0 \<or> k = 1 \<or> k = 2 \<or> k = 3 \<or> k = 4 \<or> k = 5 \<or> k = 6 \<or> k = 7 \<or> k = 8 \<or> k = 9" by presburger
  then show ?thesis by (elim disjE) (simp_all, code_simp+)
qed

lemma char_digit_digit: "char_digit (digit_char (nat (n mod 10))) = n mod 10"
  by (subst char_digit_below) simp_all

lemma digit_chain:
  "10 * a + x = y \<Longrightarrow> 10 * b + w = a \<Longrightarrow> 10 * c + v = b \<Longrightarrow> c * 1000 + v * 100 + w * 10 + x = (y :: int)"
  by simp

lemma four_digits:
  assumes "0 \<le> (y :: int)" "y < 10000"
  shows "y div 1000 mod 10 * 1000 + y div 100 mod 10 * 100 + y div 10 mod 10 * 10 + y mod 10 = y"
proof -
  have nested: "y div 100 = y div 10 div 10" "y div 1000 = y div 100 div 10" by (simp_all add: zdiv_zmult2_eq[symmetric])
  have "10 * (y div 10) + y mod 10 = y" "10 * (y div 100) + y div 10 mod 10 = y div 10"
       "10 * (y div 1000) + y div 100 mod 10 = y div 100"
    unfolding nested by (rule mult_div_mod_eq)+
  note chain = digit_chain[OF this]
  have top: "y div 1000 mod 10 = y div 1000" using assms by simp
  show ?thesis unfolding top by (rule chain)
qed

lemma two_digits: "0 \<le> (n :: int) \<Longrightarrow> n < 100 \<Longrightarrow> n div 10 mod 10 * 10 + n mod 10 = n"
  by simp

lemma date_text_parsed:
  assumes "valid_date y m d"
  shows "yyyymmdd_to_julian_day (date_text (y, m, d)) = Returns (ymd_to_julian_day y m d)"
proof -
  have y: "0 \<le> y" "y < 10000" and m: "0 \<le> m" "m < 100" and d: "0 \<le> d" "d < 100"
    using assms by (auto simp: valid_date_def month_length_def split: if_splits)
  have wrap: "y mod UINT_SIZE = y" "m mod UINT_SIZE = m" "d mod UINT_SIZE = d"
    using y m d by (simp_all add: UINT_SIZE_def)
  show ?thesis
    unfolding yyyymmdd_to_julian_day_def date_text_def
    by (simp add: wrap char_digit_digit Let_def four_digits[OF y] two_digits[OF m] two_digits[OF d])
qed

text \<open>C32. Every day of the years 1 to 9999 survives the way through a Julian day: its eight digits are
  read as its year, month and day, and the Julian day they give is written as the same digits.
\<close>

theorem date_roundtrip:
  assumes "valid_date y m d"
  shows "yyyymmdd_to_julian_day (date_text (y, m, d)) = Returns (ymd_to_julian_day y m d) \<and>
    yyyymmdd (ymd_to_julian_day y m d) = Returns (date_text (y, m, d))"
proof -
  have "to_unsigned y = Returns y" "to_unsigned m = Returns m" "to_unsigned d = Returns d"
    using assms by (auto simp: valid_date_def month_length_def to_unsigned_def UINT_SIZE_def split: if_splits)
  then show ?thesis using assms by (simp add: date_text_parsed yyyymmdd_def civil_of_ymd)
qed

theorem date_roundtrip_witness:
  "yyyymmdd_to_julian_day ''20120229'' = Returns 2455987 \<and> yyyymmdd 2455987 = Returns ''20120229''"
proof -
  have "date_text (2012, 2, 29) = ''20120229''" "ymd_to_julian_day 2012 2 29 = 2455987" by code_simp+
  moreover have "valid_date 2012 2 29" by code_simp
  ultimately show ?thesis using date_roundtrip[of 2012 2 29] by simp
qed

section \<open>The next day\<close>

text \<open>The calendar's successor of a day.\<close>

definition calendar_next :: "int \<times> int \<times> int \<Rightarrow> int \<times> int \<times> int" where
  "calendar_next date =
     (let (y, m, d) = date
      in if d < month_length y m then (y, m, d + 1) else if m < 12 then (y, m + 1, 1) else (y + 1, 1, 1))"

lemma div_step:
  assumes "0 < (n :: int)"
  shows "(Y + 1) div n = Y div n + (if (Y + 1) mod n = 0 then 1 else 0)"
proof -
  define k r where "k = (Y + 1) div n" and "r = (Y + 1) mod n"
  have Y: "Y + 1 = n * k + r" and r: "0 \<le> r" "r < n" using assms by (simp_all add: k_def r_def)
  have "Y div n = k - (if r = 0 then 1 else 0)"
    by (rule div_between) (use Y r assms in \<open>auto simp: algebra_simps\<close>)
  then show ?thesis by (simp add: k_def r_def)
qed

lemma march_julian_sum: "march_julian Y m d = 365 * Y + Y div 4 - Y div 100 + Y div 100 div 4 + march_day m d + 1720997"
proof -
  have "(1461 * (Y + 4716)) div 4 = 365 * Y + 1722519 + Y div 4"
    using div_mult_self2[of 4 "Y" "365 * Y + 1722519"] by simp
  then show ?thesis by (simp add: march_julian_def)
qed

text \<open>A year of the March calendar has as many days as the February that ends it says.\<close>

lemma year_days:
  assumes "y4' = y4 + (if a then 1 else 0)" "y100' = y100 + (if b then 1 else 0)"
    "y400' = y400 + (if c then 1 else 0)" "b \<Longrightarrow> a" "c \<Longrightarrow> b"
  shows "365 * (Y + 1) + y4' - y100' + y400' + 123 + 1720997 =
    365 * Y + y4 - y100 + y400 + ((if a \<and> (\<not> b \<or> c) then 29 else 28) + 459) + 1720997 + (1 :: int)"
  using assms by (cases a; cases b; cases c) simp_all

lemma march_year_length: "march_julian (Y + 1) 3 1 = march_julian Y 14 (if leap (Y + 1) then 29 else 28) + 1"
proof -
  have nested: "(Y + 1) mod 100 mod 4 = (Y + 1) mod 4" "(Y + 1) mod 400 mod 100 = (Y + 1) mod 100"
    by (simp_all add: mod_mod_cancel)
  have step400: "(Y + 1) div 100 div 4 = Y div 100 div 4 + (if (Y + 1) mod 400 = 0 then 1 else 0)"
    using div_step[of 400 Y] by (simp add: zdiv_zmult2_eq[symmetric])
  have ends: "march_day 3 1 = 123" "march_day 14 d = d + 459" for d by (simp_all add: march_day_def)
  show ?thesis
    unfolding march_julian_sum ends leap_def
    by (rule year_days[OF div_step[of 4] div_step[of 100] step400]) (simp_all add: nested[symmetric])
qed

lemma march_month_length:
  assumes "3 \<le> m" "m \<le> 13"
  shows "march_day (m + 1) 1 = march_day m (if m = 13 \<or> m \<notin> {4, 6, 9, 11} then 31 else 30) + 1"
  using march_months[of m] assms by (auto simp: march_day_def)

lemma march_julian_next: "march_julian Y m (d + 1) = march_julian Y m d + 1"
  by (simp add: march_julian_def march_day_def)

lemma march_julian_month:
  assumes "3 \<le> m" "m \<le> 13"
  shows "march_julian Y (m + 1) 1 = march_julian Y m (if m = 13 \<or> m \<notin> {4, 6, 9, 11} then 31 else 30) + 1"
  unfolding march_julian_def march_month_length[OF assms] by simp

lemma march_julian_succ:
  assumes "3 \<le> m" "m \<le> 14" "1 \<le> d"
    "len = (if m = 14 then if leap (Y + 1) then 29 else 28 else if m = 13 \<or> m \<notin> {4, 6, 9, 11} then 31 else 30)"
    "d \<le> len"
  shows "march_julian Y m d + 1 =
    (if d < len then march_julian Y m (d + 1)
     else if m < 14 then march_julian Y (m + 1) 1 else march_julian (Y + 1) 3 1)"
proof (cases "d < len")
  case True
  then show ?thesis by (simp add: march_julian_next)
next
  case False
  then have d: "d = len" using assms by simp
  show ?thesis
  proof (cases "m = 14")
    case True
    then show ?thesis using d march_year_length[of Y] by (simp add: assms(4))
  next
    case False
    then show ?thesis using d assms(1,2) march_julian_month[of m Y] by (simp add: assms(4))
  qed
qed

lemma calendar_next_valid:
  "valid_date y m d \<Longrightarrow> (y, m, d) \<noteq> (9999, 12, 31) \<Longrightarrow>
   (case calendar_next (y, m, d) of (y', m', d') \<Rightarrow> valid_date y' m' d')"
  by (auto simp: calendar_next_def valid_date_def month_length_def)

lemma calendar_next_julian:
  assumes "valid_date y m d" "(y, m, d) \<noteq> (9999, 12, 31)"
  shows "(case calendar_next (y, m, d) of (y', m', d') \<Rightarrow> ymd_to_julian_day y' m' d') = ymd_to_julian_day y m d + 1"
proof (cases "m \<le> 2")
  case True
  then have m: "m = 1 \<or> m = 2" using assms by (auto simp: valid_date_def)
  then show ?thesis
    using calendar_next_valid[OF assms] march_julian_succ[where m = "m + 12" and d = d and Y = "y - 1", OF _ _ _ refl] assms(1)
    by (elim disjE) (auto simp: calendar_next_def ymd_is_march_julian month_length_def valid_date_def)
next
  case False
  then show ?thesis
    using calendar_next_valid[OF assms] march_julian_succ[where m = m and d = d and Y = y, OF _ _ _ refl] assms(1)
    by (auto simp: calendar_next_def ymd_is_march_julian month_length_def valid_date_def)
qed

text \<open>C33. Incrementing a date is the calendar's next day: from any day of the years 1 to 9999 but the
  last, the day that \<open>operator++\<close> leaves has the year, month and day that follow, over the ends
  of the months, of the years and of the Februaries of leap years.
\<close>

theorem next_day_is_calendar_next:
  assumes "valid_date y m d" "(y, m, d) \<noteq> (9999, 12, 31)"
  shows "civil_of_julian (next_day (ymd_to_julian_day y m d)) = calendar_next (y, m, d)"
proof -
  obtain a b c where n: "calendar_next (y, m, d) = (a, b, c)" by (cases "calendar_next (y, m, d)")
  then have "ymd_to_julian_day a b c = next_day (ymd_to_julian_day y m d)" "valid_date a b c"
    using calendar_next_julian[OF assms] calendar_next_valid[OF assms] by (simp_all add: next_day_def)
  then show ?thesis using civil_of_ymd[of a b c] n by simp
qed

theorem next_day_witness:
  "civil_of_julian (next_day (ymd_to_julian_day 2012 2 28)) = (2012, 2, 29) \<and>
   civil_of_julian (next_day (ymd_to_julian_day 1999 12 31)) = (2000, 1, 1)"
proof -
  have v: "valid_date 2012 2 28" "valid_date 1999 12 31" by code_simp+
  have n: "calendar_next (2012, 2, 28) = (2012, 2, 29)" "calendar_next (1999, 12, 31) = (2000, 1, 1)" by code_simp+
  show ?thesis
    using next_day_is_calendar_next[OF v(1)] next_day_is_calendar_next[OF v(2)] n by simp
qed

section \<open>Quanta\<close>

text \<open>The quarters of an hour of a day follow those of the day before, from the epoch on.\<close>

lemma quants_of_a_day:
  assumes "UNIX_EPOCH_DAY \<le> J" "(J + 1 - UNIX_EPOCH_DAY) * QUANTS_PER_DAY < UINT_SIZE"
  shows "\<exists>q. start_quant_id J = Returns q \<and> end_quant_id J = Returns (q + QUANTS_PER_DAY - 1) \<and>
    start_quant_id (next_day J) = Returns (q + QUANTS_PER_DAY)"
proof -
  define n where "n = J - UNIX_EPOCH_DAY"
  have n: "0 \<le> n" "(n + 1) * 96 < 4294967296" and J: "next_day J - UNIX_EPOCH_DAY = n + 1"
    using assms by (simp_all add: n_def QUANTS_PER_DAY_def UINT_SIZE_def next_day_def algebra_simps)
  then have "n * 96 mod 4294967296 = n * 96" "(n * 96 + 95) mod 4294967296 = n * 96 + 95"
    "(n + 1) * 96 mod 4294967296 = (n + 1) * 96"
    by (simp_all add: mod_pos_pos_trivial)
  then show ?thesis
    using n unfolding start_quant_id_def end_quant_id_def J n_def[symmetric]
    by (simp add: QUANTS_PER_DAY_def UINT_SIZE_def to_unsigned_def)
qed

text \<open>The first quarter of the day on which a date is made, counted from the epoch, is the quarter of
  its midnight: until its number wraps, it is not after the clock and less than a day before it.\<close>

lemma quants_of_today:
  assumes "0 \<le> now" "now div 900 < UINT_SIZE"
  shows "\<exists>q. start_quant_id (Date_now now) = Returns q \<and> q * 900 \<le> now \<and> now < (q + QUANTS_PER_DAY) * 900"
proof -
  define n where "n = now div 86400"
  have n: "0 \<le> n" "n * 86400 \<le> now" "now < (n + 1) * 86400" using assms(1) by (simp_all add: n_def)
  then have "n * 96 < 4294967296" using assms(2) by (simp add: UINT_SIZE_def)
  then have "start_quant_id (Date_now now) = Returns (n * 96)"
    using assms(1) n(1) unfolding start_quant_id_def Date_now_def epoch_to_julian_day_def SECONDS_PER_DAY_def
    by (simp add: n_def to_unsigned_def UINT_SIZE_def QUANTS_PER_DAY_def)
  then show ?thesis using n by (simp add: QUANTS_PER_DAY_def algebra_simps)
qed

lemma other_day_iff: "other_day J K \<longleftrightarrow> \<not> same_day J K"
  by (simp add: other_day_def same_day_def)

end
