(* ===== verification/Json.thy ===== *)
theory Json
  imports Std_Map
begin

text \<open>
  JSON documents (\<^verbatim>\<open>src/server/json.h\<close>, \<^verbatim>\<open>src/server/json.cpp\<close>): objects, arrays and
  strings are allocated, a \<open>JSONValue\<close> is a tag with a pointer or a number, a container owns
  what its values point to.

  The store maps addresses to the three kinds of allocations; a string's length word and bytes are
  one list. Recursion over a store has a depth limit, for nothing stops a caller from making a
  cycle; \<open>Diverges\<close> is a nesting deeper than the limit. How a double is printed is the
  argument \<open>show_double\<close>.
\<close>

section \<open>Values and the store\<close>

type_synonym addr = nat

datatype 'd json_value =
    JSON_OBJECT addr
  | JSON_ARRAY addr
  | JSON_STRING addr
  | JSON_INTEGER int
  | JSON_FLOAT 'd

datatype 'd cell =
    Object_Cell "(string \<times> 'd json_value) list"
  | Array_Cell "'d json_value list"
  | String_Cell string

record 'd heap =
  cells :: "addr \<Rightarrow> 'd cell option"
  next_addr :: addr

definition empty_heap :: "'d heap" where
  "empty_heap = \<lparr>cells = (\<lambda>_. None), next_addr = 0\<rparr>"

definition alloc :: "'d cell \<Rightarrow> 'd heap \<Rightarrow> addr \<times> 'd heap" where
  "alloc c h = (next_addr h, h\<lparr>cells := (cells h)(next_addr h := Some c), next_addr := next_addr h + 1\<rparr>)"

definition store :: "addr \<Rightarrow> 'd cell \<Rightarrow> 'd heap \<Rightarrow> 'd heap" where
  "store p c h = h\<lparr>cells := (cells h)(p := Some c)\<rparr>"

definition release :: "addr \<Rightarrow> 'd heap \<Rightarrow> 'd heap" where
  "release p h = h\<lparr>cells := (cells h)(p := None)\<rparr>"

definition JSONObject_new :: "'d heap \<Rightarrow> addr \<times> 'd heap" where
  "JSONObject_new h = alloc (Object_Cell []) h"

definition JSONArray_new :: "'d heap \<Rightarrow> addr \<times> 'd heap" where
  "JSONArray_new h = alloc (Array_Cell []) h"

text \<open>The argument of the overloaded \<open>add\<close>, and the constructors of \<open>JSONValue\<close>.\<close>

datatype 'd json_arg = An_Object addr | An_Array addr | A_String string | An_Int int | A_Double 'd

definition JSONValue_new :: "'d json_arg \<Rightarrow> 'd heap \<Rightarrow> 'd json_value \<times> 'd heap" where
  "JSONValue_new a h =
     (case a of
        An_Object p \<Rightarrow> (JSON_OBJECT p, h)
      | An_Array p \<Rightarrow> (JSON_ARRAY p, h)
      | An_Int i \<Rightarrow> (JSON_INTEGER i, h)
      | A_Double d \<Rightarrow> (JSON_FLOAT d, h)
      | A_String s \<Rightarrow> (let (p, h1) = alloc (String_Cell s) h in (JSON_STRING p, h1)))"

text \<open>\<open>insert\<close> keeps the entry of a key that is present; the new value is then dropped.\<close>

definition object_add :: "addr \<Rightarrow> string \<Rightarrow> 'd json_arg \<Rightarrow> 'd heap \<Rightarrow> 'd heap outcome" where
  "object_add p key a h =
     (let (v, h1) = JSONValue_new a h
      in case cells h1 p of
           Some (Object_Cell m_items) \<Rightarrow> Returns (store p (Object_Cell (map_insert key v m_items)) h1)
         | _ \<Rightarrow> Undefined)"

definition array_add :: "addr \<Rightarrow> 'd json_arg \<Rightarrow> 'd heap \<Rightarrow> 'd heap outcome" where
  "array_add p a h =
     (let (v, h1) = JSONValue_new a h
      in case cells h1 p of
           Some (Array_Cell m_items) \<Rightarrow> Returns (store p (Array_Cell (m_items @ [v])) h1)
         | _ \<Rightarrow> Undefined)"

definition object_add_array :: "addr \<Rightarrow> string \<Rightarrow> 'd heap \<Rightarrow> (addr \<times> 'd heap) outcome" where
  "object_add_array p key h =
     (let (q, h1) = JSONArray_new h in bind_outcome (object_add p key (An_Array q) h1) (\<lambda>h2. Returns (q, h2)))"

definition object_add_object :: "addr \<Rightarrow> string \<Rightarrow> 'd heap \<Rightarrow> (addr \<times> 'd heap) outcome" where
  "object_add_object p key h =
     (let (q, h1) = JSONObject_new h in bind_outcome (object_add p key (An_Object q) h1) (\<lambda>h2. Returns (q, h2)))"

definition array_add_array :: "addr \<Rightarrow> 'd heap \<Rightarrow> (addr \<times> 'd heap) outcome" where
  "array_add_array p h =
     (let (q, h1) = JSONArray_new h in bind_outcome (array_add p (An_Array q) h1) (\<lambda>h2. Returns (q, h2)))"

definition array_add_object :: "addr \<Rightarrow> 'd heap \<Rightarrow> (addr \<times> 'd heap) outcome" where
  "array_add_object p h =
     (let (q, h1) = JSONObject_new h in bind_outcome (array_add p (An_Object q) h1) (\<lambda>h2. Returns (q, h2)))"

section \<open>The destructors\<close>

text \<open>What a container does with a value that it owns, and then with itself.\<close>

primrec delete_value :: "nat \<Rightarrow> 'd json_value \<Rightarrow> 'd heap \<Rightarrow> 'd heap outcome" where
  "delete_value 0 v h = Diverges"
| "delete_value (Suc depth) v h =
     (case v of
        JSON_OBJECT p \<Rightarrow>
          (case cells h p of
             Some (Object_Cell m_items) \<Rightarrow>
               bind_outcome (for_each (delete_value depth) (map snd m_items) h) (\<lambda>h1. Returns (release p h1))
           | _ \<Rightarrow> Undefined)
      | JSON_ARRAY p \<Rightarrow>
          (case cells h p of
             Some (Array_Cell m_items) \<Rightarrow>
               bind_outcome (for_each (delete_value depth) m_items h) (\<lambda>h1. Returns (release p h1))
           | _ \<Rightarrow> Undefined)
      | JSON_STRING p \<Rightarrow> (case cells h p of Some (String_Cell s) \<Rightarrow> Returns (release p h) | _ \<Rightarrow> Undefined)
      | JSON_INTEGER i \<Rightarrow> Returns h
      | JSON_FLOAT d \<Rightarrow> Returns h)"

section \<open>Writing\<close>

definition BACKSLASH :: char where "BACKSLASH = CHR 0x5C"

definition escape :: "char \<Rightarrow> string" where
  "escape c =
     (if c = QUOTE then [BACKSLASH, QUOTE]
      else if c = BACKSLASH then [BACKSLASH, BACKSLASH]
      else if c = CHR ''/'' then [BACKSLASH, CHR ''/'']
      else if c = CHR 0x08 then [BACKSLASH, CHR ''b'']
      else if c = CHR 0x0C then [BACKSLASH, CHR ''f'']
      else if c = CHR 0x0A then [BACKSLASH, CHR ''n'']
      else if c = CHR 0x0D then [BACKSLASH, CHR ''r'']
      else if c = CHR 0x09 then [BACKSLASH, CHR ''t'']
      else [c])"

definition serialize_string :: "string \<Rightarrow> string" where
  "serialize_string s = [QUOTE] @ concat (map escape s) @ [QUOTE]"

text \<open>The loop over the values of a container, with the flag \<open>first\<close> and the output so far.\<close>

definition separator :: "bool \<Rightarrow> string" where
  "separator first = (if first then [] else '','')"

primrec json_write :: "('d \<Rightarrow> string) \<Rightarrow> nat \<Rightarrow> 'd json_value \<Rightarrow> 'd heap \<Rightarrow> string outcome" where
  "json_write show_double 0 v h = Diverges"
| "json_write show_double (Suc depth) v h =
     (case v of
        JSON_OBJECT p \<Rightarrow>
          (case cells h p of
             Some (Object_Cell m_items) \<Rightarrow>
               bind_outcome
                 (for_each (\<lambda>(key, w) (first, acc).
                    bind_outcome (json_write show_double depth w h) (\<lambda>t.
                      Returns (False, acc @ separator first @ serialize_string key @ '':'' @ t)))
                  m_items (True, ''{''))
                 (\<lambda>(first, acc). Returns (acc @ ''}''))
           | _ \<Rightarrow> Undefined)
      | JSON_ARRAY p \<Rightarrow>
          (case cells h p of
             Some (Array_Cell m_items) \<Rightarrow>
               bind_outcome
                 (for_each (\<lambda>w (first, acc).
                    bind_outcome (json_write show_double depth w h) (\<lambda>t. Returns (False, acc @ separator first @ t)))
                  m_items (True, ''[''))
                 (\<lambda>(first, acc). Returns (acc @ '']''))
           | _ \<Rightarrow> Undefined)
      | JSON_STRING p \<Rightarrow> (case cells h p of Some (String_Cell s) \<Rightarrow> Returns (serialize_string s) | _ \<Rightarrow> Undefined)
      | JSON_INTEGER i \<Rightarrow> Returns (show_int i)
      | JSON_FLOAT d \<Rightarrow> Returns (show_double d))"

section \<open>Documents\<close>

text \<open>A document as a tree, with the address of every allocation it owns.\<close>

datatype 'd node =
    N_Object addr "(string \<times> 'd node) list"
  | N_Array addr "'d node list"
  | N_String addr string
  | N_Integer int
  | N_Float 'd

fun value_of :: "'d node \<Rightarrow> 'd json_value" where
  "value_of (N_Object p items) = JSON_OBJECT p"
| "value_of (N_Array p ns) = JSON_ARRAY p"
| "value_of (N_String p s) = JSON_STRING p"
| "value_of (N_Integer i) = JSON_INTEGER i"
| "value_of (N_Float d) = JSON_FLOAT d"

fun kids :: "'d node \<Rightarrow> 'd node list" where
  "kids (N_Object p items) = map snd items"
| "kids (N_Array p ns) = ns"
| "kids _ = []"

fun own_addr :: "'d node \<Rightarrow> addr list" where
  "own_addr (N_Object p items) = [p]"
| "own_addr (N_Array p ns) = [p]"
| "own_addr (N_String p s) = [p]"
| "own_addr _ = []"

fun own_cell :: "'d node \<Rightarrow> 'd cell option" where
  "own_cell (N_Object p items) = Some (Object_Cell (map (\<lambda>(k, m). (k, value_of m)) items))"
| "own_cell (N_Array p ns) = Some (Array_Cell (map value_of ns))"
| "own_cell (N_String p s) = Some (String_Cell s)"
| "own_cell _ = None"

lemma kids_smaller: "m \<in> set (kids n) \<Longrightarrow> size m < size n"
  by (cases n) (auto dest!: size_list_estimation'[where f = size and y = "size m"]
      size_list_estimation'[where f = "size_prod (\<lambda>_. 0) size", OF _ le_refl])

function footprint :: "'d node \<Rightarrow> addr list" where
  "footprint n = own_addr n @ concat (map footprint (kids n))"
  by auto
termination by (relation "measure size") (auto intro: kids_smaller)

function height :: "'d node \<Rightarrow> nat" where
  "height n = Suc (Max (insert 0 (set (map height (kids n)))))"
  by auto
termination by (relation "measure size") (auto intro: kids_smaller)

function in_heap :: "'d heap \<Rightarrow> 'd node \<Rightarrow> bool" where
  "in_heap h n \<longleftrightarrow> (\<forall>p \<in> set (own_addr n). cells h p = own_cell n) \<and> (\<forall>m \<in> set (kids n). in_heap h m)"
  by auto
termination by (relation "measure (size \<circ> snd)") (auto intro: kids_smaller)

declare footprint.simps [simp del] height.simps [simp del] in_heap.simps [simp del]

lemma footprint_simps [simp]:
  "footprint (N_Object p items) = p # concat (map (footprint \<circ> snd) items)"
  "footprint (N_Array p ns) = p # concat (map footprint ns)"
  "footprint (N_String p s) = [p]" "footprint (N_Integer i) = []" "footprint (N_Float d) = []"
  by (subst footprint.simps; simp)+

lemma in_heap_simps [simp]:
  "in_heap h (N_Object p items) \<longleftrightarrow> cells h p = Some (Object_Cell (map (\<lambda>(k, m). (k, value_of m)) items)) \<and>
     (\<forall>m \<in> snd ` set items. in_heap h m)"
  "in_heap h (N_Array p ns) \<longleftrightarrow> cells h p = Some (Array_Cell (map value_of ns)) \<and> (\<forall>m \<in> set ns. in_heap h m)"
  "in_heap h (N_String p s) \<longleftrightarrow> cells h p = Some (String_Cell s)"
  "in_heap h (N_Integer i)" "in_heap h (N_Float d)"
  by (subst in_heap.simps; simp)+

lemma height_kid: "m \<in> set (kids n) \<Longrightarrow> height m < height n"
  by (subst (2) height.simps) (auto intro: Max_ge simp: less_Suc_eq_le)

lemma height_pos: "height n \<le> depth \<Longrightarrow> \<exists>d. depth = Suc d \<and> (\<forall>m \<in> set (kids n). height m \<le> d)"
  using height_kid[of _ n] by (cases depth) (fastforce simp: height.simps[of n])+

lemma footprint_kid: "m \<in> set (kids n) \<Longrightarrow> set (footprint m) \<subseteq> set (footprint n)"
  by (subst (2) footprint.simps) auto

lemma in_heap_frame:
  assumes "\<forall>q \<in> set (footprint n). cells h' q = cells h q"
  shows "in_heap h' n = in_heap h n"
  using assms
proof (induction n rule: footprint.induct)
  case (1 n)
  have "set (own_addr n) \<subseteq> set (footprint n)" by (subst footprint.simps) auto
  then have "(\<forall>p \<in> set (own_addr n). cells h' p = own_cell n) = (\<forall>p \<in> set (own_addr n). cells h p = own_cell n)"
    using 1(2) by (metis subsetD)
  moreover have "in_heap h' m = in_heap h m" if "m \<in> set (kids n)" for m
    using 1(1)[OF that] 1(2) footprint_kid[OF that] by blast
  ultimately show ?case by (subst (1 2) in_heap.simps) simp
qed

section \<open>Deleting a document\<close>

definition clear :: "addr set \<Rightarrow> 'd heap \<Rightarrow> 'd heap" where
  "clear A h = h\<lparr>cells := \<lambda>q. if q \<in> A then None else cells h q\<rparr>"

lemma clear_simps [simp]:
  "clear {} h = h" "cells (clear A h) q = (if q \<in> A then None else cells h q)"
  "release p (clear A h) = clear (insert p A) h" "clear A (clear B h) = clear (A \<union> B) h" "release p h = clear {p} h"
  by (auto simp: clear_def release_def fun_eq_iff)

lemma delete_loop:
  assumes "\<forall>m \<in> set ns. \<forall>h. in_heap h m \<longrightarrow> delete_value depth (value_of m) h = Returns (clear (set (footprint m)) h)"
    and "\<forall>m \<in> set ns. in_heap h m" "distinct (concat (map footprint ns))"
  shows "for_each (delete_value depth) (map value_of ns) h = Returns (clear (set (concat (map footprint ns))) h)"
  using assms
proof (induction ns arbitrary: h)
  case (Cons n ns)
  have "in_heap (clear (set (footprint n)) h) m" if "m \<in> set ns" for m
  proof -
    have "set (footprint n) \<inter> set (footprint m) = {}" using Cons.prems(3) that by auto
    then show ?thesis using Cons.prems(2) that by (subst in_heap_frame[of m _ h]) auto
  qed
  then show ?case using Cons by (simp add: Un_commute)
qed simp

lemma delete_value_clears:
  assumes "in_heap h n" "distinct (footprint n)" "height n \<le> depth"
  shows "delete_value depth (value_of n) h = Returns (clear (set (footprint n)) h)"
  using assms
proof (induction n arbitrary: h depth rule: footprint.induct)
  case (1 n)
  obtain d where d: "depth = Suc d" "\<And>m. m \<in> set (kids n) \<Longrightarrow> height m \<le> d"
    using height_pos[OF 1(4)] by blast
  have dist: "distinct (footprint m)" if "m \<in> set (kids n)" for m
    using 1(3) that footprint.simps[of n] by (auto simp: distinct_concat_iff)
  have kid: "\<forall>m \<in> set (kids n). \<forall>h. in_heap h m \<longrightarrow> delete_value d (value_of m) h = Returns (clear (set (footprint m)) h)"
    using 1(1) d(2) dist by blast
  have loop: "for_each (delete_value d) (map value_of (kids n)) h = Returns (clear (set (concat (map footprint (kids n)))) h)"
  proof (rule delete_loop[OF kid])
    show "\<forall>m \<in> set (kids n). in_heap h m" using 1(2) in_heap.simps[of h n] by blast
    show "distinct (concat (map footprint (kids n)))" using 1(3) footprint.simps[of n] by simp
  qed
  show ?case
  proof (cases n)
    case (N_Object p items)
    have "map snd (map (\<lambda>(k, m). (k, value_of m)) items) = map value_of (kids n)" by (auto simp: N_Object)
    then show ?thesis using loop 1(2) by (simp add: N_Object d(1) comp_def del: map_map)
  next
    case (N_Array p ns)
    then show ?thesis using loop 1(2) by (simp add: d(1))
  qed (use 1(2) in \<open>simp_all add: d(1)\<close>)
qed

end
