(* ===== verification/Json_Text.thy ===== *)
theory Json_Text
  imports Json
begin

text \<open>
  The text of a JSON document and a reader of the JSON grammar: what the operators \<open><<\<close> of
  \<^verbatim>\<open>src/server/json.cpp\<close> write is \<open>json_text\<close> of the tree, and can be read back.
\<close>

section \<open>The text of a document\<close>

fun join :: "string list \<Rightarrow> string" where
  "join [] = []"
| "join (x # xs) = (if xs = [] then x else x @ '','' @ join xs)"

function json_text :: "('d \<Rightarrow> string) \<Rightarrow> 'd node \<Rightarrow> string" where
  "json_text show_double (N_Object p items) =
     ''{'' @ join (map (\<lambda>(k, m). serialize_string k @ '':'' @ json_text show_double m) items) @ ''}''"
| "json_text show_double (N_Array p ns) = ''['' @ join (map (json_text show_double) ns) @ '']''"
| "json_text show_double (N_String p s) = serialize_string s"
| "json_text show_double (N_Integer i) = show_int i"
| "json_text show_double (N_Float d) = show_double d"
  by pat_completeness auto
termination
proof (relation "measure (size \<circ> snd)", goal_cases)
  case (2 sd p items e k m)
  then show ?case using kids_smaller[of m "N_Object p items"] by (force simp: image_iff)
next
  case (3 sd p ns m)
  then show ?case using kids_smaller[of m "N_Array p ns"] by simp
qed simp

lemma separator_simps [simp]: "separator True = []" "separator False = '',''"
  by (simp_all add: separator_def)

lemma object_loop:
  assumes "\<forall>m \<in> snd ` set items. json_write show_double depth (value_of m) h = Returns (json_text show_double m)"
  shows "for_each (\<lambda>(key, w) (first, acc). bind_outcome (json_write show_double depth w h) (\<lambda>t.
       Returns (False, acc @ separator first @ serialize_string key @ CHR '':'' # t)))
     (map (\<lambda>(k, m). (k, value_of m)) items) (first, acc) =
   Returns (first \<and> items = [], acc @ (if items = [] then [] else separator first @
     join (map (\<lambda>(k, m). serialize_string k @ '':'' @ json_text show_double m) items)))"
  using assms by (induction items arbitrary: first acc) auto

lemma array_loop:
  assumes "\<forall>m \<in> set ns. json_write show_double depth (value_of m) h = Returns (json_text show_double m)"
  shows "for_each (\<lambda>w (first, acc). bind_outcome (json_write show_double depth w h) (\<lambda>t.
       Returns (False, acc @ separator first @ t))) (map value_of ns) (first, acc) =
   Returns (first \<and> ns = [], acc @ (if ns = [] then [] else separator first @ join (map (json_text show_double) ns)))"
  using assms by (induction ns arbitrary: first acc) auto

lemma json_write_text:
  assumes "in_heap h n" "height n \<le> depth"
  shows "json_write show_double depth (value_of n) h = Returns (json_text show_double n)"
  using assms
proof (induction n arbitrary: depth rule: footprint.induct)
  case (1 n)
  obtain d where d: "depth = Suc d" "\<And>m. m \<in> set (kids n) \<Longrightarrow> height m \<le> d"
    using height_pos[OF 1(3)] by blast
  have kid: "\<forall>m \<in> set (kids n). json_write show_double d (value_of m) h = Returns (json_text show_double m)"
    using 1(1,2) d(2) in_heap.simps[of h n] by blast
  show ?case
  proof (cases n)
    case (N_Object p items)
    then show ?thesis using kid 1(2) by (simp add: d(1) object_loop)
  next
    case (N_Array p ns)
    then show ?thesis using kid 1(2) by (simp add: d(1) array_loop)
  qed (use 1(2) in \<open>simp_all add: d(1)\<close>)
qed

section \<open>A reference reader\<close>

text \<open>
  A reader of the JSON grammar, with numbers as their text. A control character inside a string is
  refused, as the grammar says.
\<close>

datatype json =
    JObject "(string \<times> json) list"
  | JArray "json list"
  | JString string
  | JNumber string

definition control :: "char \<Rightarrow> bool" where
  "control c \<longleftrightarrow> (of_char c :: nat) < 32"

definition unescape :: "char \<Rightarrow> char option" where
  "unescape c = map_of [(QUOTE, QUOTE), (BACKSLASH, BACKSLASH), (CHR ''/'', CHR ''/''), (CHR ''b'', CHR 0x08),
     (CHR ''f'', CHR 0x0C), (CHR ''n'', CHR 0x0A), (CHR ''r'', CHR 0x0D), (CHR ''t'', CHR 0x09)] c"

fun read_string :: "string \<Rightarrow> (string \<times> string) option" where
  "read_string [] = None"
| "read_string (c # cs) =
     (if c = QUOTE then Some ([], cs)
      else if c = BACKSLASH then
        (case cs of [] \<Rightarrow> None
         | e # ds \<Rightarrow> (case unescape e of None \<Rightarrow> None | Some x \<Rightarrow> map_option (apfst (Cons x)) (read_string ds)))
      else if control c then None
      else map_option (apfst (Cons c)) (read_string cs))"

definition number_char :: "char \<Rightarrow> bool" where
  "number_char c \<longleftrightarrow> is_digit c \<or> c \<in> set ''+-.eE''"

definition digits1 :: "string \<Rightarrow> bool" where
  "digits1 s \<longleftrightarrow> s \<noteq> [] \<and> list_all is_digit s"

definition int_part :: "string \<Rightarrow> bool" where
  "int_part s \<longleftrightarrow> digits1 s \<and> (hd s = CHR ''0'' \<longrightarrow> length s = 1)"

definition exp_part :: "string \<Rightarrow> bool" where
  "exp_part s \<longleftrightarrow> (case s of [] \<Rightarrow> True | e # t \<Rightarrow> (e = CHR ''e'' \<or> e = CHR ''E'') \<and>
     digits1 (if t \<noteq> [] \<and> (hd t = CHR ''+'' \<or> hd t = CHR ''-'') then tl t else t))"

text \<open>An optional sign, digits without leading zeros, a fraction and an exponent.\<close>

definition json_number :: "string \<Rightarrow> bool" where
  "json_number s =
     (let t = (if s \<noteq> [] \<and> hd s = CHR ''-'' then tl s else s);
          n = takeWhile is_digit t; r = dropWhile is_digit t
      in int_part n \<and>
         (if r \<noteq> [] \<and> hd r = CHR ''.'' then digits1 (takeWhile is_digit (tl r)) \<and> exp_part (dropWhile is_digit (tl r))
          else exp_part r))"

fun read_value :: "nat \<Rightarrow> string \<Rightarrow> (json \<times> string) option"
  and read_members :: "nat \<Rightarrow> string \<Rightarrow> ((string \<times> json) list \<times> string) option"
  and read_elements :: "nat \<Rightarrow> string \<Rightarrow> (json list \<times> string) option" where
  "read_value 0 s = None"
| "read_value (Suc k) s =
     (case s of
        [] \<Rightarrow> None
      | c # r \<Rightarrow>
          if c = CHR ''{'' then
            (if r \<noteq> [] \<and> hd r = CHR ''}'' then Some (JObject [], tl r)
             else map_option (apfst JObject) (read_members k r))
          else if c = CHR ''['' then
            (if r \<noteq> [] \<and> hd r = CHR '']'' then Some (JArray [], tl r)
             else map_option (apfst JArray) (read_elements k r))
          else if c = QUOTE then map_option (apfst JString) (read_string r)
          else (let n = takeWhile number_char s
                in if json_number n then Some (JNumber n, dropWhile number_char s) else None))"
| "read_members 0 s = None"
| "read_members (Suc k) s =
     (if s \<noteq> [] \<and> hd s = QUOTE then
        (case read_string (tl s) of
           Some (key, c # r) \<Rightarrow>
             if c = CHR '':'' then
               (case read_value k r of
                  Some (v, d # r') \<Rightarrow>
                    if d = CHR '','' then map_option (apfst (Cons (key, v))) (read_members k r')
                    else if d = CHR ''}'' then Some ([(key, v)], r') else None
                | _ \<Rightarrow> None)
             else None
         | _ \<Rightarrow> None)
      else None)"
| "read_elements 0 s = None"
| "read_elements (Suc k) s =
     (case read_value k s of
        Some (v, d # r) \<Rightarrow>
          if d = CHR '','' then map_option (apfst (Cons v)) (read_elements k r)
          else if d = CHR '']'' then Some ([v], r) else None
      | _ \<Rightarrow> None)"

definition read_json :: "string \<Rightarrow> json option" where
  "read_json s = (case read_value (Suc (length s)) s of Some (v, []) \<Rightarrow> Some v | _ \<Rightarrow> None)"

section \<open>What is written can be read\<close>

definition clean_char :: "char \<Rightarrow> bool" where
  "clean_char c \<longleftrightarrow> control c \<longrightarrow> c \<in> {CHR 0x08, CHR 0x0C, CHR 0x0A, CHR 0x0D, CHR 0x09}"

definition special_char :: "char \<Rightarrow> bool" where
  "special_char c \<longleftrightarrow> c \<in> {QUOTE, BACKSLASH, CHR ''/'', CHR 0x08, CHR 0x0C, CHR 0x0A, CHR 0x0D, CHR 0x09}"

lemma escape_special:
  assumes "special_char c"
  shows "\<exists>e. escape c = [BACKSLASH, e] \<and> unescape e = Some c"
proof -
  have "c = QUOTE \<or> c = BACKSLASH \<or> c = CHR ''/'' \<or> c = CHR 0x08 \<or> c = CHR 0x0C \<or> c = CHR 0x0A \<or> c = CHR 0x0D \<or> c = CHR 0x09"
    using assms by (simp add: special_char_def)
  then show ?thesis
    by (elim disjE) (simp_all add: escape_def unescape_def BACKSLASH_def)
qed

lemma escape_plain: "\<not> special_char c \<Longrightarrow> escape c = [c] \<and> c \<noteq> QUOTE \<and> c \<noteq> BACKSLASH"
  by (simp add: special_char_def escape_def)

lemma BACKSLASH_not_QUOTE [simp]: "BACKSLASH \<noteq> QUOTE"
  by (simp add: BACKSLASH_def)

lemma special_or_control: "\<not> special_char c \<Longrightarrow> clean_char c \<longleftrightarrow> \<not> control c"
  by (auto simp: special_char_def clean_char_def)

lemma unclean_plain: "\<not> clean_char c \<Longrightarrow> \<not> special_char c"
proof
  assume "special_char c" "\<not> clean_char c"
  then have "c = QUOTE \<or> c = BACKSLASH \<or> c = CHR ''/''" "control c"
    by (auto simp: special_char_def clean_char_def)
  then show False by (elim disjE) (simp_all add: control_def BACKSLASH_def)
qed

lemma escape_read: "clean_char c \<Longrightarrow> read_string (escape c @ t) = map_option (apfst (Cons c)) (read_string t)"
  using escape_special[of c] escape_plain[of c] special_or_control[of c] by (cases "special_char c") auto

lemma raw_control_refused: "\<not> clean_char c \<Longrightarrow> read_string (escape c @ t) = None"
  using unclean_plain[of c] escape_plain[of c] special_or_control[of c] by auto

lemma read_string_written:
  "list_all clean_char s \<Longrightarrow> read_string (concat (map escape s) @ QUOTE # rest) = Some (s, rest)"
  by (induction s) (simp_all add: escape_read)

lemma read_string_refused:
  "\<not> list_all clean_char s \<Longrightarrow> read_string (concat (map escape s) @ QUOTE # rest) = None"
proof (induction s)
  case (Cons c s)
  then show ?case by (cases "clean_char c") (simp_all add: escape_read raw_control_refused)
qed simp

lemma show_nat_head: "0 < n \<Longrightarrow> hd (show_nat n) \<noteq> CHR ''0''"
proof (induction n rule: show_nat.induct)
  case (1 n)
  have "digit_char n = CHR ''0'' \<Longrightarrow> n < 10 \<Longrightarrow> n = 0"
    using digit_char_digit[of n] by (auto simp: digit_val_def)
  then show ?case
    using 1 show_nat_nonempty[of "n div 10"] by (subst show_nat.simps) auto
qed

lemma show_nat_int_part: "int_part (show_nat n)"
proof -
  have "show_nat 0 = ''0''" by (subst show_nat.simps) (simp, code_simp)
  then show ?thesis
    using show_nat_head[of n] show_nat_digits[of n] show_nat_nonempty[of n]
    by (cases "n = 0") (auto simp: int_part_def digits1_def)
qed

lemma show_int_number: "json_number (show_int i)"
proof -
  have d: "takeWhile is_digit (show_nat n) = show_nat n" "dropWhile is_digit (show_nat n) = []" for n
    using show_nat_digits[of n] by (simp_all add: list_all_iff)
  have "hd (show_nat n) \<noteq> CHR ''-''" for n
    using show_nat_digits[of n] show_nat_nonempty[of n] by (cases "show_nat n") (auto simp: is_digit_def)
  then have "json_number s" if "(if s \<noteq> [] \<and> hd s = CHR ''-'' then tl s else s) = show_nat n" for s n
    unfolding json_number_def Let_def that d by (simp add: show_nat_int_part exp_part_def)
  then show ?thesis
    using \<open>\<And>n. hd (show_nat n) \<noteq> CHR ''-''\<close> by (simp add: show_int_def)
qed

lemma digit_number_char: "is_digit c \<Longrightarrow> number_char c"
  by (simp add: number_char_def)

lemma digits_number_chars: "list_all is_digit s \<Longrightarrow> list_all number_char s"
  by (auto simp: list_all_iff digit_number_char)

lemma exp_part_chars: "exp_part s \<Longrightarrow> list_all number_char s"
proof (cases s)
  case (Cons e t)
  assume "exp_part s"
  then show ?thesis
    using Cons by (cases t) (auto simp: exp_part_def digits1_def number_char_def list_all_iff split: if_splits)
qed simp

lemma takeWhile_number_chars: "list_all number_char (takeWhile is_digit s)"
  by (auto simp: list_all_iff digit_number_char dest: set_takeWhileD)

lemma json_number_chars:
  assumes "json_number s"
  shows "list_all number_char s" "s \<noteq> []"
proof -
  define t where "t = (if s \<noteq> [] \<and> hd s = CHR ''-'' then tl s else s)"
  define r where "r = dropWhile is_digit t"
  have t: "t = takeWhile is_digit t @ r" by (simp add: r_def)
  have j: "int_part (takeWhile is_digit t)"
    "if r \<noteq> [] \<and> hd r = CHR ''.'' then digits1 (takeWhile is_digit (tl r)) \<and> exp_part (dropWhile is_digit (tl r)) else exp_part r"
    using assms by (simp_all add: json_number_def Let_def t_def r_def)
  have "list_all number_char r"
  proof (cases "r \<noteq> [] \<and> hd r = CHR ''.''")
    case True
    then have e: "exp_part (dropWhile is_digit (tl r))" using j(2) by simp
    have "list_all number_char (takeWhile is_digit (tl r) @ dropWhile is_digit (tl r))"
      using exp_part_chars[OF e] takeWhile_number_chars by (simp only: list_all_append)
    then have "list_all number_char (tl r)" by simp
    then show ?thesis using True by (cases r) (simp_all add: number_char_def)
  next
    case False
    then show ?thesis using j(2) exp_part_chars by auto
  qed
  then have "list_all number_char t"
    using t takeWhile_number_chars by (metis list_all_append)
  moreover have "t \<noteq> []" using j(1) by (auto simp: int_part_def digits1_def)
  ultimately show "list_all number_char s" "s \<noteq> []"
    by (cases s; auto simp: t_def number_char_def split: if_splits)+
qed

function content :: "('d \<Rightarrow> string) \<Rightarrow> 'd node \<Rightarrow> json" where
  "content show_double (N_Object p items) = JObject (map (\<lambda>(k, m). (k, content show_double m)) items)"
| "content show_double (N_Array p ns) = JArray (map (content show_double) ns)"
| "content show_double (N_String p s) = JString s"
| "content show_double (N_Integer i) = JNumber (show_int i)"
| "content show_double (N_Float d) = JNumber (show_double d)"
  by pat_completeness auto
termination
proof (relation "measure (size \<circ> snd)", goal_cases)
  case (2 sd p items e k m)
  then show ?case using kids_smaller[of m "N_Object p items"] by (force simp: image_iff)
next
  case (3 sd p ns m)
  then show ?case using kids_smaller[of m "N_Array p ns"] by simp
qed simp

text \<open>Strings without raw control characters, and doubles that print as numbers.\<close>

fun own_text_ok :: "('d \<Rightarrow> string) \<Rightarrow> 'd node \<Rightarrow> bool" where
  "own_text_ok show_double (N_Object p items) = list_all (\<lambda>(k, m). list_all clean_char k) items"
| "own_text_ok show_double (N_String p s) = list_all clean_char s"
| "own_text_ok show_double (N_Float d) = json_number (show_double d)"
| "own_text_ok show_double _ = True"

function text_ok :: "('d \<Rightarrow> string) \<Rightarrow> 'd node \<Rightarrow> bool" where
  "text_ok show_double n \<longleftrightarrow> own_text_ok show_double n \<and> (\<forall>m \<in> set (kids n). text_ok show_double m)"
  by auto
termination by (relation "measure (size \<circ> snd)") (auto intro: kids_smaller)

declare text_ok.simps [simp del]

lemma text_ok_simps [simp]:
  "text_ok sd (N_Object p items) \<longleftrightarrow> (\<forall>(k, m) \<in> set items. list_all clean_char k \<and> text_ok sd m)"
  "text_ok sd (N_Array p ns) \<longleftrightarrow> (\<forall>m \<in> set ns. text_ok sd m)"
  "text_ok sd (N_String p s) \<longleftrightarrow> list_all clean_char s"
  "text_ok sd (N_Integer i)" "text_ok sd (N_Float d) \<longleftrightarrow> json_number (sd d)"
  by (subst text_ok.simps; auto simp: list_all_iff)+

definition ends_value :: "string \<Rightarrow> bool" where
  "ends_value rest \<longleftrightarrow> rest = [] \<or> \<not> number_char (hd rest)"

lemma ends_value_simps [simp]:
  "ends_value []" "ends_value (CHR '','' # r)" "ends_value (CHR ''}'' # r)" "ends_value (CHR '']'' # r)"
  by (simp_all add: ends_value_def number_char_def is_digit_def)

definition reads :: "('d \<Rightarrow> string) \<Rightarrow> 'd node \<Rightarrow> bool" where
  "reads show_double n \<longleftrightarrow> (\<forall>k rest. length (json_text show_double n) \<le> k \<longrightarrow> ends_value rest \<longrightarrow>
     read_value k (json_text show_double n @ rest) = Some (content show_double n, rest))"

lemma read_number:
  assumes "json_number s" "length s \<le> k" "ends_value rest"
  shows "read_value k (s @ rest) = Some (JNumber s, rest)"
proof -
  note c = json_number_chars[OF assms(1)]
  obtain k' where k: "k = Suc k'" using c(2) assms(2) by (cases k) auto
  obtain x xs where s: "s = x # xs" using c(2) by (cases s) auto
  have x: "number_char x" using c(1) by (simp add: s)
  then have "x \<noteq> CHR ''{''" "x \<noteq> CHR ''[''" "x \<noteq> QUOTE" by (auto simp: number_char_def is_digit_def)
  moreover have "takeWhile number_char (s @ rest) = s" "dropWhile number_char (s @ rest) = rest"
    using c(1) assms(3) by (cases rest; simp add: ends_value_def list_all_iff)+
  ultimately show ?thesis using assms(1) by (simp add: k s Let_def)
qed

lemma read_key:
  "list_all clean_char s \<Longrightarrow> read_string (tl (serialize_string s @ rest)) = Some (s, rest)"
  using read_string_written[of s rest] by (simp add: serialize_string_def)

lemma serialize_string_shape: "serialize_string s \<noteq> []" "hd (serialize_string s) = QUOTE" "2 \<le> length (serialize_string s)"
  by (simp_all add: serialize_string_def)

lemma read_members_written:
  assumes "items \<noteq> []" "\<forall>(k, m) \<in> set items. list_all clean_char k \<and> reads sd m"
    "length (join (map (\<lambda>(k, m). serialize_string k @ '':'' @ json_text sd m) items)) < d"
  shows "read_members d (join (map (\<lambda>(k, m). serialize_string k @ '':'' @ json_text sd m) items) @ CHR ''}'' # rest) =
    Some (map (\<lambda>(k, m). (k, content sd m)) items, rest)"
  using assms
proof (induction items arbitrary: d)
  case (Cons e es)
  obtain key m where e: "e = (key, m)" by (cases e)
  obtain d' where d: "d = Suc d'" using Cons.prems(3) by (cases d) auto
  let ?more = "join (map (\<lambda>(k, m). serialize_string k @ '':'' @ json_text sd m) es)"
  let ?rest = "(if es = [] then [] else CHR '','' # ?more) @ CHR ''}'' # rest"
  have key: "list_all clean_char key" and m: "reads sd m" using Cons.prems(2) by (auto simp: e)
  have "read_value d' (json_text sd m @ ?rest) = Some (content sd m, ?rest)"
    using m Cons.prems(3) serialize_string_shape(3)[of key] by (auto simp: reads_def e d split: if_splits)
  moreover have "read_members d' (?more @ CHR ''}'' # rest) = Some (map (\<lambda>(k, m). (k, content sd m)) es, rest)" if "es \<noteq> []"
    using that Cons.prems(2,3) by (intro Cons.IH) (auto simp: e d split: if_splits)
  ultimately show ?case
    using read_key[OF key, of "CHR '':'' # json_text sd m @ ?rest"] serialize_string_shape[of key]
    by (auto simp: e d)
qed simp

lemma read_elements_written:
  assumes "ns \<noteq> []" "\<forall>m \<in> set ns. reads sd m" "length (join (map (json_text sd) ns)) < d"
  shows "read_elements d (join (map (json_text sd) ns) @ CHR '']'' # rest) = Some (map (content sd) ns, rest)"
  using assms
proof (induction ns arbitrary: d)
  case (Cons m ms)
  obtain d' where d: "d = Suc d'" using Cons.prems(3) by (cases d) auto
  let ?more = "join (map (json_text sd) ms)"
  let ?rest = "(if ms = [] then [] else CHR '','' # ?more) @ CHR '']'' # rest"
  have "read_value d' (json_text sd m @ ?rest) = Some (content sd m, ?rest)"
    using Cons.prems(2,3) by (auto simp: reads_def d split: if_splits)
  moreover have "read_elements d' (?more @ CHR '']'' # rest) = Some (map (content sd) ms, rest)" if "ms \<noteq> []"
    using that Cons.prems(2,3) by (intro Cons.IH) (auto simp: d split: if_splits)
  ultimately show ?case by (auto simp: d)
qed simp

lemma number_head: "json_number s \<Longrightarrow> s \<noteq> [] \<and> hd s \<noteq> CHR '']''"
  using json_number_chars[of s] by (cases s) (auto simp: number_char_def is_digit_def)

lemma json_text_head: "text_ok sd n \<Longrightarrow> json_text sd n \<noteq> [] \<and> hd (json_text sd n) \<noteq> CHR '']''"
proof -
  assume "text_ok sd n"
  then have "own_text_ok sd n" using text_ok.simps[of sd n] by blast
  then show ?thesis
    using number_head[OF show_int_number] number_head
    by (cases n) (auto simp: serialize_string_def)
qed

lemma join_head: "xs \<noteq> [] \<Longrightarrow> hd xs \<noteq> [] \<Longrightarrow> join xs \<noteq> [] \<and> hd (join xs) = hd (hd xs)"
  by (cases xs) auto

lemma readsI:
  assumes "json_text sd n \<noteq> []"
    and "\<And>d rest. length (json_text sd n) \<le> Suc d \<Longrightarrow> ends_value rest \<Longrightarrow>
      read_value (Suc d) (json_text sd n @ rest) = Some (content sd n, rest)"
  shows "reads sd n"
  unfolding reads_def
proof (intro allI impI)
  fix k rest
  assume k: "length (json_text sd n) \<le> k" "ends_value rest"
  then obtain d where "k = Suc d" using assms(1) by (cases k) auto
  then show "read_value k (json_text sd n @ rest) = Some (content sd n, rest)" using k assms(2) by simp
qed

lemma readsD:
  "reads sd n \<Longrightarrow> length (json_text sd n) \<le> k \<Longrightarrow> ends_value rest \<Longrightarrow>
   read_value k (json_text sd n @ rest) = Some (content sd n, rest)"
  by (simp add: reads_def)

lemma document_read: "text_ok sd n \<Longrightarrow> reads sd n"
proof (induction n rule: footprint.induct)
  case (1 n)
  have kid: "\<forall>m \<in> set (kids n). text_ok sd m \<and> reads sd m" and own: "own_text_ok sd n"
    using 1 text_ok.simps[of sd n] by auto
  show ?case
  proof (cases n)
    case (N_Object p items)
    let ?items = "map (\<lambda>(k, m). serialize_string k @ '':'' @ json_text sd m) items"
    have "reads sd n" if "items = []"
      using that by (intro readsI) (simp_all add: N_Object)
    moreover have "reads sd n" if ne: "items \<noteq> []"
    proof -
      have ok: "\<forall>(k, m) \<in> set items. list_all clean_char k \<and> reads sd m"
        using kid own by (fastforce simp: N_Object list_all_iff)
      have "hd ?items \<noteq> [] \<and> hd (hd ?items) = QUOTE"
        using ne by (cases items) (auto simp: serialize_string_def)
      then have "join ?items \<noteq> []" "hd (join ?items) = QUOTE" using join_head[of ?items] ne by auto
      then show ?thesis
        using read_members_written[OF ne ok]
        by (intro readsI) (simp_all add: N_Object)
    qed
    ultimately show ?thesis by blast
  next
    case (N_Array p ns)
    have "reads sd n" if "ns = []"
      using that by (intro readsI) (simp_all add: N_Array)
    moreover have "reads sd n" if ne: "ns \<noteq> []"
    proof -
      have ok: "\<forall>m \<in> set ns. reads sd m" using kid by (simp add: N_Array)
      have "json_text sd (hd ns) \<noteq> [] \<and> hd (json_text sd (hd ns)) \<noteq> CHR '']''"
        using kid ne by (intro json_text_head) (simp add: N_Array)
      then have "join (map (json_text sd) ns) \<noteq> []" "hd (join (map (json_text sd) ns)) \<noteq> CHR '']''"
        using join_head[of "map (json_text sd) ns"] ne by (auto simp: hd_map)
      then show ?thesis
        using read_elements_written[OF ne ok]
        by (intro readsI) (simp_all add: N_Array)
    qed
    ultimately show ?thesis by blast
  next
    case (N_String p s)
    then show ?thesis
      using read_string_written[of s] own by (intro readsI) (simp_all add: N_String serialize_string_def)
  next
    case (N_Integer i)
    then show ?thesis using read_number[OF show_int_number] by (simp add: reads_def)
  next
    case (N_Float d)
    then show ?thesis using read_number own by (simp add: reads_def)
  qed
qed

text \<open>C36. Whatever is in a document, its text is read back by a reader of the JSON grammar as the
  document: keys in the order of the map, strings with all their bytes, arrays in order, numbers
  by their text, provided strings hold no control characters other than those with an escape of
  their own and doubles print as numbers.
\<close>

theorem json_roundtrip:
  assumes "in_heap h n" "height n \<le> depth" "text_ok show_double n"
  shows "\<exists>s. json_write show_double depth (value_of n) h = Returns s \<and> read_json s = Some (content show_double n)"
proof -
  note readsD[OF document_read[OF assms(3)] le_SucI[OF le_refl] ends_value_simps(1)]
  then have "read_json (json_text show_double n) = Some (content show_double n)"
    by (simp only: read_json_def append_Nil2 option.case prod.case list.case)
  then show ?thesis using json_write_text[OF assms(1,2)] by blast
qed

theorem json_roundtrip_witness:
  "\<exists>s. json_write show_nat 2 (JSON_ARRAY 0)
      \<lparr>cells = (\<lambda>_. None)(0 := Some (Array_Cell [JSON_INTEGER (- 5), JSON_FLOAT 7])), next_addr = 1\<rparr> = Returns s \<and>
    read_json s = Some (JArray [JNumber ''-5'', JNumber ''7''])"
proof -
  let ?h = "\<lparr>cells = (\<lambda>_. None)(0 := Some (Array_Cell [JSON_INTEGER (- 5), JSON_FLOAT 7])), next_addr = 1\<rparr> :: nat heap"
  let ?n = "N_Array 0 [N_Integer (- 5), N_Float 7] :: nat node"
  have "digit_char 5 = CHR ''5''" "digit_char 7 = CHR ''7''" by code_simp+
  moreover have "show_nat 5 = [digit_char 5]" "show_nat 7 = [digit_char 7]"
    by (subst show_nat.simps, simp)+
  ultimately have t: "show_int (- 5) = ''-5''" "show_nat 7 = ''7''" by (simp_all add: show_int_def)
  have "json_number ''7''" by code_simp
  then have "text_ok show_nat ?n" by (simp add: t)
  then show ?thesis
    using json_roundtrip[of ?h ?n 2 show_nat] by (simp add: height.simps t)
qed

text \<open>Any other control character goes through unescaped, and the text is not JSON any more.\<close>

lemma control_character_refused:
  assumes "\<not> list_all clean_char s"
  shows "read_json (serialize_string s) = None"
  using read_string_refused[OF assms, of "[]"]
  by (simp add: read_json_def serialize_string_def)

end
