(* ===== verification/Json_Build.thy ===== *)
theory Json_Build
  imports Json_Text "HOL-Library.Multiset"
begin

text \<open>
  The documents a program can build with the constructors and the \<open>add\<close> operations of
  \<^verbatim>\<open>src/server/json.h\<close>: each addition as a change of a tree, the ownership of the
  allocations by the documents there are, what deleting one of them frees, and the types of the pointers.
\<close>

section \<open>Building a document\<close>

text \<open>The effect of an addition on the tree: \<open>graft p f\<close> changes the container at address \<open>p\<close>.\<close>

function graft :: "addr \<Rightarrow> ('d node \<Rightarrow> 'd node) \<Rightarrow> 'd node \<Rightarrow> 'd node" where
  "graft p f (N_Object q items) =
     (if q = p then f (N_Object q items) else N_Object q (map (\<lambda>(k, m). (k, graft p f m)) items))"
| "graft p f (N_Array q ns) = (if q = p then f (N_Array q ns) else N_Array q (map (graft p f) ns))"
| "graft p f (N_String q s) = N_String q s"
| "graft p f (N_Integer i) = N_Integer i"
| "graft p f (N_Float d) = N_Float d"
  by pat_completeness auto
termination
proof (relation "measure (\<lambda>(p, f, n). size n)", goal_cases)
  case (2 p f q items e k m)
  then show ?case using kids_smaller[of m "N_Object q items"] by (force simp: image_iff)
next
  case (3 p f q ns m)
  then show ?case using kids_smaller[of m "N_Array q ns"] by simp
qed simp

fun put_member :: "string \<Rightarrow> 'd node \<Rightarrow> 'd node \<Rightarrow> 'd node" where
  "put_member key m (N_Object q items) = N_Object q (map_insert key m items)"
| "put_member key m n = n"

fun put_element :: "'d node \<Rightarrow> 'd node \<Rightarrow> 'd node" where
  "put_element m (N_Array q ns) = N_Array q (ns @ [m])"
| "put_element m n = n"

definition keeps_value :: "('d node \<Rightarrow> 'd node) \<Rightarrow> bool" where
  "keeps_value f \<longleftrightarrow> (\<forall>n. value_of (f n) = value_of n)"

lemma put_keeps_value [simp]: "keeps_value (put_member key m)" "keeps_value (put_element m)"
  unfolding keeps_value_def
proof (intro allI)
  show "value_of (put_member key m n) = value_of n" for n by (cases n) simp_all
  show "\<forall>n. value_of (put_element m n) = value_of n"
  proof
    show "value_of (put_element m n) = value_of n" for n by (cases n) simp_all
  qed
qed

lemma value_of_graft: "keeps_value f \<Longrightarrow> value_of (graft p f n) = value_of n"
  by (cases n) (simp_all add: keeps_value_def)

definition fits :: "('d node \<Rightarrow> 'd node) \<Rightarrow> addr \<Rightarrow> 'd heap \<Rightarrow> 'd heap \<Rightarrow> bool" where
  "fits f p h h' \<longleftrightarrow> (\<forall>n. own_addr n = [p] \<longrightarrow> in_heap h n \<longrightarrow> (\<forall>m \<in> set (kids n). in_heap h' m) \<longrightarrow> in_heap h' (f n))"

lemma in_heap_graft:
  assumes "in_heap h n" "distinct (footprint n)" "keeps_value f" "fits f p h h'"
    "\<forall>q \<in> set (footprint n). q \<noteq> p \<longrightarrow> cells h' q = cells h q"
    "\<forall>s. cells h p \<noteq> Some (String_Cell s)"
  shows "in_heap h' (graft p f n)"
  using assms(1,2,5)
proof (induction n rule: footprint.induct)
  case (1 n)
  have kid: "in_heap h m" "distinct (footprint m)" "set (footprint m) \<subseteq> set (footprint n)" if "m \<in> set (kids n)" for m
    using 1(2,3) that footprint_kid[OF that] in_heap.simps[of h n] footprint.simps[of n]
    by (auto simp: distinct_concat_iff)
  have kid': "in_heap h' (graft p f m)" if "m \<in> set (kids n)" for m
    using 1(1)[OF that kid(1,2)[OF that]] kid(3)[OF that] 1(4) by blast
  have own: "in_heap h' (f n)" if "own_addr n = [p]"
  proof -
    have out: "p \<notin> set (footprint m)" if "m \<in> set (kids n)" for m
      using 1(3) \<open>own_addr n = [p]\<close> that footprint.simps[of n] by auto
    have "in_heap h' m" if "m \<in> set (kids n)" for m
      using in_heap_frame[of m h' h] kid[OF that] out[OF that] 1(4) by (metis subsetD)
    then show ?thesis using assms(4) that 1(2) by (simp add: fits_def)
  qed
  show ?case
  proof (cases n)
    case (N_Object q items)
    have "map ((\<lambda>(k, m). (k, value_of m)) \<circ> (\<lambda>(k, m). (k, graft p f m))) items = map (\<lambda>(k, m). (k, value_of m)) items"
      using value_of_graft[OF assms(3)] by auto
    moreover have "\<forall>(k, m) \<in> set items. in_heap h' (graft p f m)" using kid' by (force simp: N_Object)
    ultimately show ?thesis using own 1(2,4) by (auto simp: N_Object)
  next
    case (N_Array q ns)
    have "map (value_of \<circ> graft p f) ns = map value_of ns"
      using value_of_graft[OF assms(3)] by auto
    then show ?thesis using own kid' 1(2,4) by (auto simp: N_Array)
  next
    case (N_String q s)
    then have "q \<noteq> p" using 1(2) assms(6) by auto
    then show ?thesis using 1(2,4) N_String by simp
  qed simp_all
qed

text \<open>The allocations of the tree after an addition, as a multiset.\<close>

lemma footprint_kids_graft:
  assumes "\<forall>m \<in> set ns. mset (footprint (g m)) = mset (footprint m) + (if p \<in> set (footprint m) then D else {#})"
    "distinct (concat (map footprint ns))"
  shows "mset (concat (map (footprint \<circ> g) ns)) =
    mset (concat (map footprint ns)) + (if p \<in> set (concat (map footprint ns)) then D else {#})"
  using assms by (induction ns) auto

lemma footprint_graft:
  assumes "in_heap h n" "distinct (footprint n)" "\<forall>s. cells h p \<noteq> Some (String_Cell s)"
    "\<forall>n. own_addr n = [p] \<longrightarrow> own_cell n = cells h p \<longrightarrow> mset (footprint (f n)) = mset (footprint n) + D"
  shows "mset (footprint (graft p f n)) = mset (footprint n) + (if p \<in> set (footprint n) then D else {#})"
  using assms(1,2)
proof (induction n rule: footprint.induct)
  case (1 n)
  have "in_heap h m" "distinct (footprint m)" if "m \<in> set (kids n)" for m
    using 1(2,3) that in_heap.simps[of h n] footprint.simps[of n] by (auto simp: distinct_concat_iff)
  then have kid: "\<forall>m \<in> set (kids n). mset (footprint (graft p f m)) =
      mset (footprint m) + (if p \<in> set (footprint m) then D else {#})"
    using 1(1) by blast
  have loop: "mset (concat (map (footprint \<circ> graft p f) (kids n))) =
      mset (concat (map footprint (kids n))) + (if p \<in> set (concat (map footprint (kids n))) then D else {#})"
    using 1(3) footprint.simps[of n] by (intro footprint_kids_graft[OF kid]) simp
  show ?case
  proof (cases n)
    case (N_Object q items)
    have "map ((footprint \<circ> snd) \<circ> (\<lambda>(k, m). (k, graft p f m))) items = map (footprint \<circ> graft p f) (kids n)"
      by (auto simp: N_Object)
    then show ?thesis
      using loop assms(4)[rule_format, of n] 1(2,3) by (auto simp: N_Object comp_def case_prod_unfold)
  next
    case (N_Array q ns)
    then show ?thesis
      using loop assms(4)[rule_format, of n] 1(2,3) by (auto simp: comp_def)
  next
    case (N_String q s)
    then have "q \<noteq> p" using 1(2) assms(3) by auto
    then show ?thesis by (simp add: N_String)
  qed simp_all
qed

lemma mset_mmap_insert: "mset (mmap_insert k v m) = add_mset (k, v) (mset m)"
  by (induction k v m rule: mmap_insert.induct) auto

lemma map_insert_map:
  "map_insert key (f v) (map (\<lambda>(k, m). (k, f m)) items) = map (\<lambda>(k, m). (k, f m)) (map_insert key v items)"
proof -
  have "mmap_insert key (f v) (map (\<lambda>(k, m). (k, f m)) items) = map (\<lambda>(k, m). (k, f m)) (mmap_insert key v items)"
    by (induction key v items rule: mmap_insert.induct) auto
  moreover have "map_find (map (\<lambda>(k, m). (k, f m)) items) key = map_option f (map_find items key)"
    by (induction items) (auto simp: map_find_def)
  ultimately show ?thesis by (simp add: map_insert_def)
qed

lemma put_member_footprint:
  "mset (footprint (put_member key m (N_Object q items))) =
    mset (footprint (N_Object q items)) + (if key \<in> fst ` set items then {#} else mset (footprint m))"
proof -
  have "map_find items key = None \<longleftrightarrow> key \<notin> fst ` set items" by (rule map_find_None_iff)
  moreover have "mset (concat (map (footprint \<circ> snd) xs)) = (\<Sum>e\<in>#mset xs. mset (footprint (snd e)))" for xs :: "(string \<times> 'a node) list"
    by (induction xs) simp_all
  ultimately show ?thesis by (simp add: map_insert_def mset_mmap_insert)
qed

text \<open>
  The documents in the store, as a list of trees: their cells are there, each allocation is owned once or
  lost, and addresses that were not given out are free.
\<close>

abbreviation footprints :: "'d node list \<Rightarrow> addr list" where
  "footprints ns \<equiv> concat (map footprint ns)"

definition heap_ok :: "'d heap \<Rightarrow> bool" where
  "heap_ok h \<longleftrightarrow> (\<forall>p \<ge> next_addr h. cells h p = None)"

definition used :: "'d heap \<Rightarrow> addr set" where
  "used h = {p. cells h p \<noteq> None}"

definition forest :: "'d heap \<Rightarrow> 'd node list \<Rightarrow> addr set \<Rightarrow> bool" where
  "forest h ns lost \<longleftrightarrow> heap_ok h \<and> (\<forall>n \<in> set ns. in_heap h n) \<and> distinct (footprints ns) \<and>
     used h = set (footprints ns) \<union> lost \<and> set (footprints ns) \<inter> lost = {}"

lemma mset_footprints: "mset (footprints ns) = (\<Sum>n \<in># mset ns. mset (footprint n))"
  by (induction ns) simp_all

lemma forest_mset:
  assumes "mset ns = mset ms" "forest h ns lost"
  shows "forest h ms lost"
proof -
  have m: "mset (footprints ms) = mset (footprints ns)" using assms(1) by (simp only: mset_footprints)
  have "set ms = set ns" "set (footprints ms) = set (footprints ns)" "distinct (footprints ms) = distinct (footprints ns)"
    using assms(1) mset_eq_setD[of ms ns] mset_eq_setD[OF m] mset_eq_imp_distinct_iff[OF m] by simp_all
  then show ?thesis using assms(2) unfolding forest_def by simp
qed

lemma forest_take: "n \<in> set ns \<Longrightarrow> forest h ns lost \<Longrightarrow> forest h (n # remove1 n ns) lost"
  by (rule forest_mset[of ns]) simp_all

lemma forest_below:
  assumes "forest h ns lost" "p \<in> set (footprints ns)"
  shows "p < next_addr h" "p \<in> used h"
proof -
  show "p \<in> used h" using assms by (auto simp: forest_def)
  then show "p < next_addr h" using assms(1) by (auto simp: forest_def heap_ok_def used_def not_le[symmetric])
qed

text \<open>An addition in general: the tree \<open>m\<close> becomes part of the container at \<open>p\<close> of another tree.\<close>

lemma attach_forest:
  assumes "forest h (m # ns) lost" "p \<in> set (footprints ns)" "\<forall>s. cells h p \<noteq> Some (String_Cell s)"
    and "keeps_value f" "fits f p h (store p x h)"
    and "\<forall>n. own_addr n = [p] \<longrightarrow> own_cell n = cells h p \<longrightarrow> mset (footprint (f n)) = mset (footprint n) + mset (footprint m)"
  shows "forest (store p x h) (map (graft p f) ns) lost"
proof -
  let ?h = "store p x h"
  have F: "heap_ok h" "\<forall>n \<in> set ns. in_heap h n" "distinct (footprints ns)" "distinct (footprints (m # ns))"
    "used h = set (footprints (m # ns)) \<union> lost" "set (footprints (m # ns)) \<inter> lost = {}"
    using assms(1) by (auto simp: forest_def)
  have dist: "distinct (footprint n)" if "n \<in> set ns" for n
    using F(3) that by (auto simp: distinct_concat_iff)
  have same: "\<forall>q \<in> A. q \<noteq> p \<longrightarrow> cells ?h q = cells h q" for A by (simp add: store_def)
  have "in_heap ?h (graft p f n)" if "n \<in> set ns" for n
    using F(2) that by (intro in_heap_graft[OF _ dist assms(4,5) same assms(3)]) auto
  moreover have "\<forall>n \<in> set ns. mset (footprint (graft p f n)) =
      mset (footprint n) + (if p \<in> set (footprint n) then mset (footprint m) else {#})"
    using F(2) dist by (intro ballI footprint_graft[OF _ _ assms(3,6)]) auto
  note footprint_kids_graft[OF this F(3)]
  then have fp: "mset (footprints (map (graft p f) ns)) = mset (footprints (m # ns))"
    using assms(2) by (simp add: comp_def)
  have "next_addr ?h = next_addr h" by (simp add: store_def)
  then have "heap_ok ?h" using F(1) forest_below(1)[OF assms(1), of p] assms(2) by (auto simp: heap_ok_def store_def)
  moreover have "used ?h = used h"
    using forest_below(2)[OF assms(1), of p] assms(2) by (auto simp: used_def store_def)
  ultimately show ?thesis
    using F(4-6) mset_eq_setD[OF fp] mset_eq_imp_distinct_iff[OF fp] unfolding forest_def by auto
qed

lemma stored_frame: "p \<notin> set (footprint m) \<Longrightarrow> in_heap h m \<Longrightarrow> in_heap (store p x h) m"
  by (subst in_heap_frame[of _ _ h]) (auto simp: store_def)

lemma attach_member:
  assumes "forest h (m # ns) lost" "p \<in> set (footprints ns)" "cells h p = Some (Object_Cell items)" "key \<notin> fst ` set items"
  shows "forest (store p (Object_Cell (map_insert key (value_of m) items)) h) (map (graft p (put_member key m)) ns) lost"
proof (rule attach_forest[OF assms(1,2)])
  let ?h = "store p (Object_Cell (map_insert key (value_of m) items)) h"
  have m: "in_heap ?h m"
    using assms(1,2) by (intro stored_frame) (auto simp: forest_def)
  show "fits (put_member key m) p h ?h"
    unfolding fits_def
  proof (intro allI impI)
    fix n :: "'a node"
    assume n: "own_addr n = [p]" "in_heap h n" "\<forall>k \<in> set (kids n). in_heap ?h k"
    then obtain xs where xs: "n = N_Object p xs" "items = map (\<lambda>(k, m). (k, value_of m)) xs"
      using assms(3) by (cases n) auto
    have "\<forall>k \<in> snd ` set (map_insert key m xs). in_heap ?h k"
      using n(3) m by (auto simp: xs(1) map_insert_def)
    then show "in_heap ?h (put_member key m n)"
      by (simp add: xs map_insert_map) (simp add: store_def)
  qed
  show "\<forall>n. own_addr n = [p] \<longrightarrow> own_cell n = cells h p \<longrightarrow>
      mset (footprint (put_member key m n)) = mset (footprint n) + mset (footprint m)"
  proof (intro allI impI)
    fix n :: "'a node"
    assume "own_addr n = [p]" "own_cell n = cells h p"
    then obtain xs where xs: "n = N_Object p xs" "items = map (\<lambda>(k, m). (k, value_of m)) xs"
      using assms(3) by (cases n) auto
    moreover have "fst ` set (map (\<lambda>(k, m). (k, value_of m)) xs) = fst ` set xs" by force
    ultimately show "mset (footprint (put_member key m n)) = mset (footprint n) + mset (footprint m)"
      using put_member_footprint[of key m p xs] assms(4) by simp
  qed
qed (simp_all add: assms(3))

lemma attach_element:
  assumes "forest h (m # ns) lost" "p \<in> set (footprints ns)" "cells h p = Some (Array_Cell vs)"
  shows "forest (store p (Array_Cell (vs @ [value_of m])) h) (map (graft p (put_element m)) ns) lost"
proof (rule attach_forest[OF assms(1,2)])
  let ?h = "store p (Array_Cell (vs @ [value_of m])) h"
  have m: "in_heap ?h m"
    using assms(1,2) by (intro stored_frame) (auto simp: forest_def)
  show "fits (put_element m) p h ?h"
    unfolding fits_def
  proof (intro allI impI)
    fix n :: "'a node"
    assume n: "own_addr n = [p]" "in_heap h n" "\<forall>k \<in> set (kids n). in_heap ?h k"
    then obtain xs where "n = N_Array p xs" "vs = map value_of xs"
      using assms(3) by (cases n) auto
    then show "in_heap ?h (put_element m n)" using n(3) m by auto (simp add: store_def)
  qed
  show "\<forall>n. own_addr n = [p] \<longrightarrow> own_cell n = cells h p \<longrightarrow>
      mset (footprint (put_element m n)) = mset (footprint n) + mset (footprint m)"
  proof (intro allI impI)
    fix n :: "'a node"
    assume "own_addr n = [p]" "own_cell n = cells h p"
    then obtain xs where "n = N_Array p xs" using assms(3) by (cases n) auto
    then show "mset (footprint (put_element m n)) = mset (footprint n) + mset (footprint m)" by simp
  qed
qed (simp_all add: assms(3))

lemma keep_member:
  assumes "cells h p = Some (Object_Cell items)" "key \<in> fst ` set items"
  shows "store p (Object_Cell (map_insert key v items)) h = h"
proof -
  have "map_insert key v items = items"
    using assms(2) map_find_None_iff[of items key] by (auto simp: map_insert_def)
  then show ?thesis using assms(1) by (simp add: store_def fun_upd_idem)
qed

text \<open>What is added: a value without an allocation, a new string or a new empty container.\<close>

datatype 'd child = New_String string | New_Int int | New_Double 'd | New_Array | New_Object

fun child_node :: "'d child \<Rightarrow> 'd heap \<Rightarrow> 'd node" where
  "child_node (New_String s) h = N_String (next_addr h) s"
| "child_node (New_Int i) h = N_Integer i"
| "child_node (New_Double d) h = N_Float d"
| "child_node New_Array h = N_Array (next_addr h) []"
| "child_node New_Object h = N_Object (next_addr h) []"

fun put_in_object :: "addr \<Rightarrow> string \<Rightarrow> 'd child \<Rightarrow> 'd heap \<Rightarrow> 'd heap outcome" where
  "put_in_object p key (New_String s) h = object_add p key (A_String s) h"
| "put_in_object p key (New_Int i) h = object_add p key (An_Int i) h"
| "put_in_object p key (New_Double d) h = object_add p key (A_Double d) h"
| "put_in_object p key New_Array h = bind_outcome (object_add_array p key h) (\<lambda>(q, h1). Returns h1)"
| "put_in_object p key New_Object h = bind_outcome (object_add_object p key h) (\<lambda>(q, h1). Returns h1)"

fun put_in_array :: "addr \<Rightarrow> 'd child \<Rightarrow> 'd heap \<Rightarrow> 'd heap outcome" where
  "put_in_array p (New_String s) h = array_add p (A_String s) h"
| "put_in_array p (New_Int i) h = array_add p (An_Int i) h"
| "put_in_array p (New_Double d) h = array_add p (A_Double d) h"
| "put_in_array p New_Array h = bind_outcome (array_add_array p h) (\<lambda>(q, h1). Returns h1)"
| "put_in_array p New_Object h = bind_outcome (array_add_object p h) (\<lambda>(q, h1). Returns h1)"

text \<open>The store with the new allocation, before the container is changed.\<close>

definition with_child :: "'d child \<Rightarrow> 'd heap \<Rightarrow> 'd heap" where
  "with_child c h = (case own_cell (child_node c h) of None \<Rightarrow> h | Some x \<Rightarrow> snd (alloc x h))"

lemma with_child_simps:
  "with_child (New_String s) h = snd (alloc (String_Cell s) h)" "with_child (New_Int i) h = h"
  "with_child (New_Double d) h = h" "with_child New_Array h = snd (alloc (Array_Cell []) h)"
  "with_child New_Object h = snd (alloc (Object_Cell []) h)"
  by (simp_all add: with_child_def)

lemma put_in_object_eq:
  assumes "cells h p = Some (Object_Cell items)" "p < next_addr h"
  shows "put_in_object p key c h =
    Returns (store p (Object_Cell (map_insert key (value_of (child_node c h)) items)) (with_child c h))"
  using assms
  by (cases c) (simp_all add: object_add_def object_add_array_def object_add_object_def JSONValue_new_def
      JSONArray_new_def JSONObject_new_def alloc_def with_child_simps Let_def)

lemma put_in_array_eq:
  assumes "cells h p = Some (Array_Cell ns)" "p < next_addr h"
  shows "put_in_array p c h = Returns (store p (Array_Cell (ns @ [value_of (child_node c h)])) (with_child c h))"
  using assms
  by (cases c) (simp_all add: array_add_def array_add_array_def array_add_object_def JSONValue_new_def
      JSONArray_new_def JSONObject_new_def alloc_def with_child_simps Let_def)

lemma child_facts:
  assumes "heap_ok h"
  shows "set (footprint (child_node c h)) \<subseteq> {next_addr h}" "distinct (footprint (child_node c h))"
    "in_heap (with_child c h) (child_node c h)" "kids (child_node c h) = []"
    "heap_ok (with_child c h)" "next_addr h \<le> next_addr (with_child c h)"
    "q < next_addr h \<Longrightarrow> cells (with_child c h) q = cells h q"
    "used (with_child c h) = used h \<union> set (footprint (child_node c h))"
  using assms by (cases c; auto simp: heap_ok_def with_child_simps alloc_def used_def)+

lemma child_forest:
  assumes "forest h ns lost"
  shows "forest (with_child c h) (child_node c h # ns) lost"
proof -
  have ok: "heap_ok h" and F: "\<forall>n \<in> set ns. in_heap h n" "distinct (footprints ns)"
    "used h = set (footprints ns) \<union> lost" "set (footprints ns) \<inter> lost = {}"
    using assms by (auto simp: forest_def)
  note cf = child_facts[OF ok, where c = c]
  have new: "set (footprint (child_node c h)) \<inter> used h = {}"
    using cf(1) ok by (auto simp: heap_ok_def used_def)
  have "in_heap (with_child c h) n" if n: "n \<in> set ns" for n
  proof -
    have "\<forall>q \<in> set (footprint n). cells (with_child c h) q = cells h q"
      using forest_below(1)[OF assms] n cf(7) by auto
    from in_heap_frame[OF this] show ?thesis using F(1) n by simp
  qed
  then show ?thesis
    using cf(2,3,5,8) new F unfolding forest_def by auto
qed

text \<open>
  The documents a program can build. It makes objects and arrays, which are documents of their own, adds
  values and new containers to any container of a document, adds a document, by its pointer, to a
  container of another one, and deletes documents. A pointer that is added belongs to no container yet.
  What is added under a key that is present is dropped: a new container stays a document of its own, a
  string is lost. The third argument holds what is lost.
\<close>

fun points_to :: "'d json_arg \<Rightarrow> 'd node \<Rightarrow> bool" where
  "points_to (An_Object q) (N_Object r items) \<longleftrightarrow> q = r"
| "points_to (An_Array q) (N_Array r ns) \<longleftrightarrow> q = r"
| "points_to a n \<longleftrightarrow> False"

lemma points_to_value: "points_to a m \<Longrightarrow> JSONValue_new a h = (value_of m, h)"
  by (cases "(a, m)" rule: points_to.cases) (simp_all add: JSONValue_new_def)

inductive built :: "'d heap \<Rightarrow> 'd node list \<Rightarrow> addr set \<Rightarrow> bool" where
  built_nothing: "built empty_heap [] {}"
| built_object: "built h ns lost \<Longrightarrow> JSONObject_new h = (p, h') \<Longrightarrow> built h' (N_Object p [] # ns) lost"
| built_array: "built h ns lost \<Longrightarrow> JSONArray_new h = (p, h') \<Longrightarrow> built h' (N_Array p [] # ns) lost"
| built_member: "built h ns lost \<Longrightarrow> p \<in> set (footprints ns) \<Longrightarrow> cells h p = Some (Object_Cell items) \<Longrightarrow>
     key \<notin> fst ` set items \<Longrightarrow> put_in_object p key c h = Returns h' \<Longrightarrow>
     built h' (map (graft p (put_member key (child_node c h))) ns) lost"
| built_lost: "built h ns lost \<Longrightarrow> p \<in> set (footprints ns) \<Longrightarrow> cells h p = Some (Object_Cell items) \<Longrightarrow>
     key \<in> fst ` set items \<Longrightarrow> put_in_object p key c h = Returns h' \<Longrightarrow> c \<noteq> New_Array \<Longrightarrow> c \<noteq> New_Object \<Longrightarrow>
     built h' ns (lost \<union> set (footprint (child_node c h)))"
| built_dropped: "built h ns lost \<Longrightarrow> p \<in> set (footprints ns) \<Longrightarrow> cells h p = Some (Object_Cell items) \<Longrightarrow>
     key \<in> fst ` set items \<Longrightarrow> put_in_object p key c h = Returns h' \<Longrightarrow> c = New_Array \<or> c = New_Object \<Longrightarrow>
     built h' (child_node c h # ns) lost"
| built_element: "built h ns lost \<Longrightarrow> p \<in> set (footprints ns) \<Longrightarrow> cells h p = Some (Array_Cell vs) \<Longrightarrow>
     put_in_array p c h = Returns h' \<Longrightarrow> built h' (map (graft p (put_element (child_node c h))) ns) lost"
| attached_member: "built h ns lost \<Longrightarrow> m \<in> set ns \<Longrightarrow> p \<in> set (footprints (remove1 m ns)) \<Longrightarrow>
     cells h p = Some (Object_Cell items) \<Longrightarrow> key \<notin> fst ` set items \<Longrightarrow> points_to a m \<Longrightarrow>
     object_add p key a h = Returns h' \<Longrightarrow> built h' (map (graft p (put_member key m)) (remove1 m ns)) lost"
| attached_nowhere: "built h ns lost \<Longrightarrow> cells h p = Some (Object_Cell items) \<Longrightarrow> key \<in> fst ` set items \<Longrightarrow>
     a = An_Object q \<or> a = An_Array q \<Longrightarrow> object_add p key a h = Returns h' \<Longrightarrow> built h' ns lost"
| attached_element: "built h ns lost \<Longrightarrow> m \<in> set ns \<Longrightarrow> p \<in> set (footprints (remove1 m ns)) \<Longrightarrow>
     cells h p = Some (Array_Cell vs) \<Longrightarrow> points_to a m \<Longrightarrow>
     array_add p a h = Returns h' \<Longrightarrow> built h' (map (graft p (put_element m)) (remove1 m ns)) lost"
| deleted: "built h ns lost \<Longrightarrow> n \<in> set ns \<Longrightarrow> height n \<le> depth \<Longrightarrow> delete_value depth (value_of n) h = Returns h' \<Longrightarrow>
     built h' (remove1 n ns) lost"

lemma deleted_forest:
  assumes "forest h ns lost" "n \<in> set ns" "height n \<le> depth"
  shows "delete_value depth (value_of n) h = Returns (clear (set (footprint n)) h)"
    "forest (clear (set (footprint n)) h) (remove1 n ns) lost"
proof -
  let ?A = "set (footprint n)"
  have F: "forest h (n # remove1 n ns) lost" using assms(2,1) by (rule forest_take)
  then have n: "in_heap h n" "distinct (footprint n)" and apart: "?A \<inter> set (footprints (remove1 n ns)) = {}" "?A \<inter> lost = {}"
    and rest: "\<forall>m \<in> set (remove1 n ns). in_heap h m"
    by (auto simp: forest_def)
  show "delete_value depth (value_of n) h = Returns (clear ?A h)" using n assms(3) by (rule delete_value_clears)
  have "in_heap (clear ?A h) m" if m: "m \<in> set (remove1 n ns)" for m
  proof -
    have "\<forall>q \<in> set (footprint m). cells (clear ?A h) q = cells h q" using apart(1) m by auto
    from in_heap_frame[OF this] show ?thesis using rest m by simp
  qed
  moreover have "used (clear ?A h) = used h - ?A" by (auto simp: used_def)
  moreover have "heap_ok (clear ?A h)" using F by (auto simp: forest_def heap_ok_def clear_def)
  ultimately show "forest (clear ?A h) (remove1 n ns) lost"
    using F apart by (auto simp: forest_def)
qed

lemma built_forest: "built h ns lost \<Longrightarrow> forest h ns lost"
proof (induction rule: built.induct)
  case built_nothing
  then show ?case by (simp add: forest_def heap_ok_def used_def empty_heap_def)
next
  case (built_object h ns lost p h')
  then show ?case
    using child_forest[of h ns lost New_Object] by (auto simp: JSONObject_new_def alloc_def with_child_simps)
next
  case (built_array h ns lost p h')
  then show ?case
    using child_forest[of h ns lost New_Array] by (auto simp: JSONArray_new_def alloc_def with_child_simps)
next
  case (built_member h ns lost p items key c h')
  have p: "p < next_addr h" by (rule forest_below(1)[OF built_member.IH built_member.hyps(2)])
  have "cells (with_child c h) p = Some (Object_Cell items)"
    using child_facts(7)[OF _ p] built_member.IH built_member.hyps(3) by (simp add: forest_def)
  from attach_member[OF child_forest[OF built_member.IH] built_member.hyps(2) this built_member.hyps(4)]
  show ?case using built_member.hyps(5) by (simp add: put_in_object_eq[OF built_member.hyps(3) p])
next
  case (built_lost h ns lost p items key c h')
  have p: "p < next_addr h" by (rule forest_below(1)[OF built_lost.IH built_lost.hyps(2)])
  have "cells (with_child c h) p = Some (Object_Cell items)"
    using child_facts(7)[OF _ p] built_lost.IH built_lost.hyps(3) by (simp add: forest_def)
  from keep_member[OF this built_lost.hyps(4)]
  have "h' = with_child c h" using built_lost.hyps(5) by (simp add: put_in_object_eq[OF built_lost.hyps(3) p])
  then show ?case using child_forest[OF built_lost.IH, of c] by (auto simp: forest_def)
next
  case (built_dropped h ns lost p items key c h')
  have p: "p < next_addr h" by (rule forest_below(1)[OF built_dropped.IH built_dropped.hyps(2)])
  have "cells (with_child c h) p = Some (Object_Cell items)"
    using child_facts(7)[OF _ p] built_dropped.IH built_dropped.hyps(3) by (simp add: forest_def)
  from keep_member[OF this built_dropped.hyps(4)]
  have "h' = with_child c h" using built_dropped.hyps(5) by (simp add: put_in_object_eq[OF built_dropped.hyps(3) p])
  then show ?case using child_forest[OF built_dropped.IH, of c] by simp
next
  case (built_element h ns lost p vs c h')
  have p: "p < next_addr h" by (rule forest_below(1)[OF built_element.IH built_element.hyps(2)])
  have "cells (with_child c h) p = Some (Array_Cell vs)"
    using child_facts(7)[OF _ p] built_element.IH built_element.hyps(3) by (simp add: forest_def)
  from attach_element[OF child_forest[OF built_element.IH] built_element.hyps(2) this]
  show ?case using built_element.hyps(4) by (simp add: put_in_array_eq[OF built_element.hyps(3) p])
next
  case (attached_member h ns lost m p items key a h')
  from attach_member[OF forest_take[OF attached_member.hyps(2) attached_member.IH] attached_member.hyps(3-5)]
  show ?case
    using attached_member.hyps(7) by (simp add: object_add_def points_to_value[OF attached_member.hyps(6)] attached_member.hyps(4))
next
  case (attached_nowhere h ns lost p items key a q h')
  then have "h' = h" using keep_member[OF attached_nowhere.hyps(2,3)] by (auto simp: object_add_def JSONValue_new_def)
  then show ?case using attached_nowhere.IH by simp
next
  case (attached_element h ns lost m p vs a h')
  from attach_element[OF forest_take[OF attached_element.hyps(2) attached_element.IH] attached_element.hyps(3,4)]
  show ?case
    using attached_element.hyps(6) by (simp add: array_add_def points_to_value[OF attached_element.hyps(5)] attached_element.hyps(4))
next
  case (deleted h ns lost n depth h')
  then show ?case using deleted_forest[OF deleted.IH deleted.hyps(2,3)] by simp
qed

text \<open>An example: the document {"a":"x/y"}, and the same object as the element of an array.\<close>

definition sample_heap :: "nat heap" where
  "sample_heap = \<lparr>cells = (\<lambda>_. None)(0 := Some (Object_Cell [(''a'', JSON_STRING 1)]), 1 := Some (String_Cell ''x/y'')),
     next_addr = 2\<rparr>"

definition sample_document :: "nat node" where
  "sample_document = N_Object 0 [(''a'', N_String 1 ''x/y'')]"

lemma sample_built: "built sample_heap [sample_document] {}"
proof -
  let ?h = "\<lparr>cells = (\<lambda>_. None)(0 := Some (Object_Cell [])), next_addr = 1\<rparr> :: nat heap"
  have "built ?h [N_Object 0 []] {}"
    by (rule built_object[OF built_nothing]) (simp add: JSONObject_new_def alloc_def empty_heap_def)
  then have "built sample_heap (map (graft 0 (put_member ''a'' (child_node (New_String ''x/y'') ?h))) [N_Object 0 []]) {}"
    by (rule built_member[where items = "[]"]) (simp_all add: object_add_def JSONValue_new_def alloc_def store_def sample_heap_def
        map_insert_def map_find_def fun_upd_twist)
  then show ?thesis by (simp add: sample_document_def map_insert_def map_find_def)
qed

lemma sample_height: "height sample_document \<le> 2"
  by (simp add: sample_document_def height.simps)






text \<open>The condition on the pointers that are added is needed: a container that has the same object twice
  cannot be deleted, for the second time the destructor follows the pointer of a freed object.\<close>

lemma delete_value_frees:
  fixes h h' :: "'d heap"
  shows "delete_value d v h = Returns h' \<Longrightarrow> (\<forall>q. cells h q = None \<longrightarrow> cells h' q = None) \<and> (\<forall>q. v = JSON_OBJECT q \<longrightarrow> cells h' q = None)"
proof (induction d arbitrary: v h h')
  case (Suc d)
  have loop: "\<forall>q. cells h q = None \<longrightarrow> cells h' q = None" if "for_each (delete_value d) vs h = Returns h'"
    for vs and h h' :: "'d heap"
    using that
  proof (induction vs arbitrary: h)
    case (Cons v vs)
    then obtain h1 where h1: "delete_value d v h = Returns h1" "for_each (delete_value d) vs h1 = Returns h'"
      by (cases "delete_value d v h") auto
    then show ?case using Suc.IH[OF h1(1)] Cons.IH[OF h1(2)] by blast
  qed simp
  show ?case
  proof (cases v)
    case (JSON_OBJECT p)
    then obtain items where c: "cells h p = Some (Object_Cell items)"
      using Suc.prems by (auto split: option.splits cell.splits)
    from Suc.prems obtain h1 where "for_each (delete_value d) (map snd items) h = Returns h1" "release p h1 = h'"
      unfolding JSON_OBJECT delete_value.simps json_value.case c option.case cell.case unpack by blast
    then show ?thesis using loop[of "map snd items" h h1] JSON_OBJECT by (auto simp: release_def)
  next
    case (JSON_ARRAY p)
    then obtain vs where c: "cells h p = Some (Array_Cell vs)"
      using Suc.prems by (auto split: option.splits cell.splits)
    from Suc.prems obtain h1 where "for_each (delete_value d) vs h = Returns h1" "release p h1 = h'"
      unfolding JSON_ARRAY delete_value.simps json_value.case c option.case cell.case unpack by blast
    then show ?thesis using loop[of vs h h1] JSON_ARRAY by (auto simp: release_def)
  next
    case (JSON_STRING p)
    then show ?thesis using Suc.prems by (auto split: option.splits cell.splits simp: release_def)
  qed (use Suc.prems in simp_all)
qed simp

lemma delete_dangling: "cells h q = None \<Longrightarrow> delete_value d (JSON_OBJECT q) h \<noteq> Returns h'"
  by (cases d) simp_all

lemma delete_loop_once:
  "for_each (delete_value d) vs h = Returns h' \<Longrightarrow> count (mset vs) (JSON_OBJECT q) \<le> 1 \<and>
    (cells h q = None \<longrightarrow> count (mset vs) (JSON_OBJECT q) = 0)"
proof (induction vs arbitrary: h)
  case (Cons v vs)
  then obtain h1 where h1: "delete_value d v h = Returns h1" "for_each (delete_value d) vs h1 = Returns h'"
    by (cases "delete_value d v h") auto
  have rest: "count (mset vs) (JSON_OBJECT q) \<le> 1" "cells h1 q = None \<Longrightarrow> count (mset vs) (JSON_OBJECT q) = 0"
    using Cons.IH[OF h1(2)] by auto
  have "cells h1 q = None" if "cells h q = None \<or> v = JSON_OBJECT q"
    using that delete_value_frees[OF h1(1)] by blast
  moreover have "cells h q = None \<Longrightarrow> v \<noteq> JSON_OBJECT q" using delete_dangling h1(1) by blast
  ultimately show ?case using rest by (cases "v = JSON_OBJECT q") auto
qed simp

theorem shared_object_deleted_twice:
  assumes "cells h p = Some (Object_Cell items)" "key1 \<notin> fst ` set items" "key2 \<notin> fst ` set items" "key1 \<noteq> key2"
    and "object_add p key1 (An_Object q) h = Returns h1" "object_add p key2 (An_Object q) h1 = Returns h2"
  shows "delete_value depth (JSON_OBJECT p) h2 \<noteq> Returns h3"
proof
  assume del: "delete_value depth (JSON_OBJECT p) h2 = Returns h3"
  let ?items1 = "mmap_insert key1 (JSON_OBJECT q) items" and ?items2 = "mmap_insert key2 (JSON_OBJECT q) (mmap_insert key1 (JSON_OBJECT q) items)"
  have i: "map_insert key1 (JSON_OBJECT q) items = ?items1" "map_insert key2 (JSON_OBJECT q) ?items1 = ?items2"
    using assms(2-4) map_find_None_iff[of items key1] map_find_None_iff[of ?items1 key2] by (auto simp: map_insert_def)
  have "h1 = store p (Object_Cell ?items1) h"
    using assms(1,5) by (simp add: object_add_def JSONValue_new_def i)
  then have "cells h2 p = Some (Object_Cell ?items2)"
    using assms(6) by (auto simp: object_add_def JSONValue_new_def store_def i)
  then obtain d h4 where "for_each (delete_value d) (map snd ?items2) h2 = Returns h4"
    using del by (cases depth) (auto split: outcome.splits simp: bind_outcome_def)
  then have "count (mset (map snd ?items2)) (JSON_OBJECT q) \<le> 1" using delete_loop_once by blast
  then show False by (simp add: mset_mmap_insert)
qed

text \<open>A string or a container added under a key that is present is not part of the document: the document
  and its text are what they were, but the new allocation is in the store and stays there when the
  document is deleted. Nothing owns it; of a container the caller has the pointer, of a string nobody.
\<close>

theorem duplicate_key_leaks:
  assumes "built h ns lost" "n \<in> set ns" "p \<in> set (footprint n)" "cells h p = Some (Object_Cell items)"
    and "key \<in> fst ` set items" "own_addr (child_node c h) \<noteq> []" "height n \<le> depth"
  shows "\<exists>h' h''. put_in_object p key c h = Returns h' \<and>
    json_write show_double depth (value_of n) h' = json_write show_double depth (value_of n) h \<and>
    next_addr h \<in> used h' \<and> delete_value depth (value_of n) h' = Returns h'' \<and> next_addr h \<in> used h''"
proof -
  have F: "forest h ns lost" by (rule built_forest[OF assms(1)])
  have p: "p \<in> set (footprints ns)" using assms(2,3) by auto
  let ?h = "with_child c h" and ?m = "child_node c h"
  have F1: "forest ?h (?m # ns) lost" by (rule child_forest[OF F])
  have below: "p < next_addr h" by (rule forest_below(1)[OF F p])
  have "cells ?h p = Some (Object_Cell items)"
    using child_facts(7)[OF _ below] F assms(4) by (simp add: forest_def)
  then have put: "put_in_object p key c h = Returns ?h"
    using put_in_object_eq[OF assms(4) below] keep_member assms(5) by metis
  have n: "in_heap h n" "in_heap ?h n" using F F1 assms(2) by (simp_all add: forest_def)
  then have same: "json_write show_double depth (value_of n) ?h = json_write show_double depth (value_of n) h"
    using assms(7) by (simp add: json_write_text)
  have new: "next_addr h \<in> set (footprint ?m)" using assms(6) by (cases c) simp_all
  then have out: "next_addr h \<notin> set (footprint n)" "next_addr h \<in> used ?h"
    using F1 assms(2) by (auto simp: forest_def)
  have "delete_value depth (value_of n) ?h = Returns (clear (set (footprint n)) ?h)"
    using assms(2,7) by (intro deleted_forest(1)[OF F1]) simp_all
  then show ?thesis using put same out by (auto simp: used_def)
qed

theorem duplicate_key_leaks_witness:
  "\<exists>h' h''. put_in_object 0 ''a'' New_Array sample_heap = Returns h' \<and> delete_value 2 (JSON_OBJECT 0) h' = Returns h'' \<and>
     2 \<in> used h''"
proof -
  have "sample_document \<in> set [sample_document]" "0 \<in> set (footprint sample_document)"
    "cells sample_heap 0 = Some (Object_Cell [(''a'', JSON_STRING 1)])"
    "''a'' \<in> fst ` set [(''a'', JSON_STRING 1)]" "own_addr (child_node New_Array sample_heap) \<noteq> []"
    by (simp_all add: sample_document_def sample_heap_def)
  from duplicate_key_leaks[OF sample_built this sample_height]
  obtain h' h'' where "put_in_object 0 ''a'' New_Array sample_heap = Returns h'"
    "delete_value 2 (value_of sample_document) h' = Returns h''" "next_addr sample_heap \<in> used h''" by blast
  moreover have "value_of sample_document = JSON_OBJECT 0" "next_addr sample_heap = 2"
    by (simp_all add: sample_document_def sample_heap_def)
  ultimately show ?thesis by auto
qed

section \<open>Types\<close>

text \<open>Every pointer leads to an allocation of its tag's kind, and objects are maps.\<close>

fun typed_value :: "'d heap \<Rightarrow> 'd json_value \<Rightarrow> bool" where
  "typed_value h (JSON_OBJECT p) = (case cells h p of Some (Object_Cell items) \<Rightarrow> True | _ \<Rightarrow> False)"
| "typed_value h (JSON_ARRAY p) = (case cells h p of Some (Array_Cell vs) \<Rightarrow> True | _ \<Rightarrow> False)"
| "typed_value h (JSON_STRING p) = (case cells h p of Some (String_Cell s) \<Rightarrow> True | _ \<Rightarrow> False)"
| "typed_value h _ = True"

fun typed_cell :: "'d heap \<Rightarrow> 'd cell \<Rightarrow> bool" where
  "typed_cell h (Object_Cell items) \<longleftrightarrow> map_wf items \<and> (\<forall>v \<in> snd ` set items. typed_value h v)"
| "typed_cell h (Array_Cell vs) \<longleftrightarrow> (\<forall>v \<in> set vs. typed_value h v)"
| "typed_cell h (String_Cell s) \<longleftrightarrow> True"

definition typed_heap :: "'d heap \<Rightarrow> bool" where
  "typed_heap h \<longleftrightarrow> heap_ok h \<and> (\<forall>p x. cells h p = Some x \<longrightarrow> typed_cell h x)"

text \<open>
  All that a program can make of documents while it deletes none: pointers of containers can be added
  anywhere and any number of times, even into themselves. C++ gives an \<open>add\<close> only pointers of the
  right type.
\<close>

fun arg_typed :: "'d heap \<Rightarrow> 'd json_arg \<Rightarrow> bool" where
  "arg_typed h (An_Object q) = typed_value h (JSON_OBJECT q)"
| "arg_typed h (An_Array q) = typed_value h (JSON_ARRAY q)"
| "arg_typed h a = True"

inductive made :: "'d heap \<Rightarrow> bool" where
  made_nothing: "made empty_heap"
| made_object: "made h \<Longrightarrow> JSONObject_new h = (p, h') \<Longrightarrow> made h'"
| made_array: "made h \<Longrightarrow> JSONArray_new h = (p, h') \<Longrightarrow> made h'"
| made_member: "made h \<Longrightarrow> arg_typed h a \<Longrightarrow> object_add p key a h = Returns h' \<Longrightarrow> made h'"
| made_element: "made h \<Longrightarrow> arg_typed h a \<Longrightarrow> array_add p a h = Returns h' \<Longrightarrow> made h'"
| made_member_array: "made h \<Longrightarrow> object_add_array p key h = Returns (q, h') \<Longrightarrow> made h'"
| made_member_object: "made h \<Longrightarrow> object_add_object p key h = Returns (q, h') \<Longrightarrow> made h'"
| made_element_array: "made h \<Longrightarrow> array_add_array p h = Returns (q, h') \<Longrightarrow> made h'"
| made_element_object: "made h \<Longrightarrow> array_add_object p h = Returns (q, h') \<Longrightarrow> made h'"

lemma map_wf_Nil [simp]: "map_wf []"
  by (simp add: map_wf_def)

text \<open>The kind of an allocation never changes.\<close>

definition same_kinds :: "'d heap \<Rightarrow> 'd heap \<Rightarrow> bool" where
  "same_kinds h h' \<longleftrightarrow> (\<forall>v. typed_value h v \<longrightarrow> typed_value h' v)"

lemma same_kinds_cell: "same_kinds h h' \<Longrightarrow> typed_cell h x \<Longrightarrow> typed_cell h' x"
  by (cases x) (auto simp: same_kinds_def)

lemma alloc_typed:
  assumes "typed_heap h" "typed_cell h x" "alloc x h = (p, h')"
  shows "typed_heap h'" "same_kinds h h'" "cells h' p = Some x"
proof -
  have h': "h' = h\<lparr>cells := (cells h)(next_addr h := Some x), next_addr := next_addr h + 1\<rparr>" "p = next_addr h"
    using assms(3) by (auto simp: alloc_def)
  have free: "cells h (next_addr h) = None" using assms(1) by (simp add: typed_heap_def heap_ok_def)
  have "typed_value h' v" if "typed_value h v" for v
    using that free by (cases v) (auto simp: h' split: option.splits)
  then show k: "same_kinds h h'" by (simp add: same_kinds_def)
  show "typed_heap h'"
    using assms(1,2) same_kinds_cell[OF k] by (auto simp: typed_heap_def heap_ok_def h' split: if_splits)
  show "cells h' p = Some x" by (simp add: h')
qed

lemma store_typed:
  assumes "typed_heap h" "typed_cell h x" "cells h p = Some y" "\<And>v. v \<in> {JSON_OBJECT p, JSON_ARRAY p, JSON_STRING p} \<Longrightarrow>
    typed_value h v \<Longrightarrow> typed_value (store p x h) v"
  shows "typed_heap (store p x h)"
proof -
  have "typed_value (store p x h) v" if "typed_value h v" for v
    using that assms(4)[of v] by (cases v) (auto simp: store_def split: if_splits)
  then have k: "same_kinds h (store p x h)" by (simp add: same_kinds_def)
  have "p < next_addr h" using assms(1,3) by (metis heap_ok_def not_le option.distinct(1) typed_heap_def)
  then show ?thesis
    using assms(1,2) same_kinds_cell[OF k] by (auto simp: typed_heap_def heap_ok_def store_def split: if_splits)
qed

lemma value_new_typed:
  assumes "typed_heap h" "arg_typed h a" "JSONValue_new a h = (v, h')"
  shows "typed_heap h' \<and> typed_value h' v"
proof (cases a)
  case (A_String s)
  then have "alloc (String_Cell s) h = (next_addr h, h')" "v = JSON_STRING (next_addr h)"
    using assms(3) by (auto simp: JSONValue_new_def alloc_def)
  then show ?thesis using alloc_typed[OF assms(1), of "String_Cell s"] by simp
qed (use assms in \<open>auto simp: JSONValue_new_def\<close>)

lemma set_map_insert_value: "snd ` set (map_insert k v m) \<subseteq> insert v (snd ` set m)"
  by (auto simp: map_insert_def)

lemma object_add_typed:
  assumes "typed_heap h" "arg_typed h a" "object_add p key a h = Returns h'"
  shows "typed_heap h'"
proof -
  obtain v h1 where v: "JSONValue_new a h = (v, h1)" by (cases "JSONValue_new a h")
  have t: "typed_heap h1" "typed_value h1 v" using value_new_typed[OF assms(1,2) v] by auto
  obtain items where i: "cells h1 p = Some (Object_Cell items)" "h' = store p (Object_Cell (map_insert key v items)) h1"
    using assms(3) v by (auto simp: object_add_def split: option.splits cell.splits)
  have "typed_cell h1 (Object_Cell items)" using t(1) i(1) by (auto simp: typed_heap_def simp del: typed_cell.simps)
  then have "map_wf items" "\<forall>w \<in> insert v (snd ` set items). typed_value h1 w" using t(2) by simp_all
  then have "map_wf (map_insert key v items)" "\<forall>w \<in> snd ` set (map_insert key v items). typed_value h1 w"
    using std.ok_ins[of items key v] set_map_insert_value[of key v items] by blast+
  then have "typed_cell h1 (Object_Cell (map_insert key v items))" by simp
  then show ?thesis unfolding i(2) using i(1) by (intro store_typed[OF t(1)]) (auto simp: store_def)
qed

lemma array_add_typed:
  assumes "typed_heap h" "arg_typed h a" "array_add p a h = Returns h'"
  shows "typed_heap h'"
proof -
  obtain v h1 where v: "JSONValue_new a h = (v, h1)" by (cases "JSONValue_new a h")
  have t: "typed_heap h1" "typed_value h1 v" using value_new_typed[OF assms(1,2) v] by auto
  obtain vs where i: "cells h1 p = Some (Array_Cell vs)" "h' = store p (Array_Cell (vs @ [v])) h1"
    using assms(3) v by (auto simp: array_add_def split: option.splits cell.splits)
  have "typed_cell h1 (Array_Cell vs)" using t(1) i(1) by (auto simp: typed_heap_def simp del: typed_cell.simps)
  then have "typed_cell h1 (Array_Cell (vs @ [v]))" using t(2) by auto
  then show ?thesis unfolding i(2) using i(1) by (intro store_typed[OF t(1)]) (auto simp: store_def)
qed

lemma new_typed:
  assumes "typed_heap h"
  shows "JSONObject_new h = (p, h') \<Longrightarrow> typed_heap h' \<and> typed_value h' (JSON_OBJECT p)"
    "JSONArray_new h = (p, h') \<Longrightarrow> typed_heap h' \<and> typed_value h' (JSON_ARRAY p)"
  using alloc_typed[OF assms, of "Object_Cell []"] alloc_typed[OF assms, of "Array_Cell []"]
  by (auto simp: JSONObject_new_def JSONArray_new_def)

lemma made_typed: "made h \<Longrightarrow> typed_heap h"
proof (induction rule: made.induct)
  case made_nothing
  then show ?case by (simp add: typed_heap_def heap_ok_def empty_heap_def)
next
  case (made_member_array h p key q h')
  obtain r h1 where r: "JSONArray_new h = (r, h1)" by (cases "JSONArray_new h")
  then have "object_add p key (An_Array r) h1 = Returns h'"
    using made_member_array.hyps(2) by (auto simp: object_add_array_def unpack)
  then show ?case using new_typed(2)[OF made_member_array.IH r] object_add_typed[of h1 "An_Array r" p key h'] by simp
next
  case (made_member_object h p key q h')
  obtain r h1 where r: "JSONObject_new h = (r, h1)" by (cases "JSONObject_new h")
  then have "object_add p key (An_Object r) h1 = Returns h'"
    using made_member_object.hyps(2) by (auto simp: object_add_object_def unpack)
  then show ?case using new_typed(1)[OF made_member_object.IH r] object_add_typed[of h1 "An_Object r" p key h'] by simp
next
  case (made_element_array h p q h')
  obtain r h1 where r: "JSONArray_new h = (r, h1)" by (cases "JSONArray_new h")
  then have "array_add p (An_Array r) h1 = Returns h'"
    using made_element_array.hyps(2) by (auto simp: array_add_array_def unpack)
  then show ?case using new_typed(2)[OF made_element_array.IH r] array_add_typed[of h1 "An_Array r" p h'] by simp
next
  case (made_element_object h p q h')
  obtain r h1 where r: "JSONObject_new h = (r, h1)" by (cases "JSONObject_new h")
  then have "array_add p (An_Object r) h1 = Returns h'"
    using made_element_object.hyps(2) by (auto simp: array_add_object_def unpack)
  then show ?case using new_typed(1)[OF made_element_object.IH r] array_add_typed[of h1 "An_Object r" p h'] by simp
qed (blast intro: object_add_typed array_add_typed dest: new_typed)+

lemma for_each_ends:
  assumes "\<And>x a. x \<in> set xs \<Longrightarrow> f x a = Diverges \<or> (\<exists>b. f x a = Returns b)"
  shows "for_each f xs a = Diverges \<or> (\<exists>b. for_each f xs a = Returns b)"
  using assms
proof (induction xs arbitrary: a)
  case (Cons x xs)
  have "f x a = Diverges \<or> (\<exists>b. f x a = Returns b)" by (rule Cons.prems) simp
  moreover have "for_each f xs b = Diverges \<or> (\<exists>c. for_each f xs b = Returns c)" for b
    using Cons.prems by (intro Cons.IH) simp
  ultimately show ?case by (elim disjE exE) simp_all
qed simp

text \<open>Writing a value of a well-typed store finds what every tag says.\<close>

lemma json_write_typed:
  assumes "typed_heap h" "typed_value h v"
  shows "json_write show_double depth v h = Diverges \<or> (\<exists>s. json_write show_double depth v h = Returns s)"
  using assms(2)
proof (induction depth arbitrary: v)
  case (Suc depth)
  have step: "bind_outcome r (\<lambda>t. Returns (g t)) = Diverges \<or> (\<exists>b. bind_outcome r (\<lambda>t. Returns (g t)) = Returns b)"
    if "r = Diverges \<or> (\<exists>s. r = Returns s)" for r :: "'x outcome" and g :: "'x \<Rightarrow> 'y"
    using that by auto
  show ?case
  proof (cases v)
    case (JSON_OBJECT p)
    then obtain items where i: "cells h p = Some (Object_Cell items)"
      using Suc.prems by (auto split: option.splits cell.splits)
    then have t: "\<forall>e \<in> set items. typed_value h (snd e)" using assms(1) by (fastforce simp: typed_heap_def)
    show ?thesis
      unfolding JSON_OBJECT json_write.simps json_value.case i option.case cell.case case_prod_beta
      by (intro step for_each_ends Suc.IH) (use t in auto)
  next
    case (JSON_ARRAY p)
    then obtain vs where i: "cells h p = Some (Array_Cell vs)"
      using Suc.prems by (auto split: option.splits cell.splits)
    then have t: "\<forall>v \<in> set vs. typed_value h v" using assms(1) by (fastforce simp: typed_heap_def)
    show ?thesis
      unfolding JSON_ARRAY json_write.simps json_value.case i option.case cell.case case_prod_beta
      by (intro step for_each_ends Suc.IH) (use t in auto)
  next
    case (JSON_STRING p)
    then show ?thesis using Suc.prems by (auto split: option.splits cell.splits)
  qed simp_all
qed simp

text \<open>C38. Whatever a program makes with the constructors and the additions while it deletes nothing is well
  typed, with arrays or objects at the root, and with pointers of containers added anywhere and any
  number of times: each pointer leads to a living allocation of the kind its tag says, and the
  members of every object have distinct keys in order. So writing such a value, to whatever depth,
  never follows a pointer to the wrong kind: it gives a text, or goes on beyond that depth.
\<close>

theorem built_document_typed:
  assumes "made h"
  shows "(\<forall>p x. cells h p = Some x \<longrightarrow> typed_cell h x) \<and>
    (typed_value h v \<longrightarrow> json_write show_double depth v h = Diverges \<or> (\<exists>s. json_write show_double depth v h = Returns s))"
  using made_typed[OF assms] json_write_typed[of h v show_double depth] unfolding typed_heap_def by blast

text \<open>An array that is its own element.\<close>

definition cycle_heap :: "nat heap" where
  "cycle_heap = \<lparr>cells = (\<lambda>_. None)(0 := Some (Array_Cell [JSON_ARRAY 0])), next_addr = 1\<rparr>"

lemma cycle_made: "made cycle_heap"
proof -
  let ?h = "\<lparr>cells = (\<lambda>_. None)(0 := Some (Array_Cell [])), next_addr = 1\<rparr> :: nat heap"
  have "made ?h" by (rule made_array[OF made_nothing]) (simp add: JSONArray_new_def alloc_def empty_heap_def)
  then show ?thesis
    by (rule made_element[where a = "An_Array 0" and p = 0])
      (simp_all add: array_add_def JSONValue_new_def store_def cycle_heap_def)
qed

theorem built_document_typed_witness:
  "typed_cell cycle_heap (Array_Cell [JSON_ARRAY 0]) \<and> (json_write show_nat 5 (JSON_ARRAY 0) cycle_heap = Diverges
     \<or> (\<exists>s. json_write show_nat 5 (JSON_ARRAY 0) cycle_heap = Returns s))"
proof -
  have "cells cycle_heap 0 = Some (Array_Cell [JSON_ARRAY 0])" by (simp add: cycle_heap_def)
  moreover have "typed_value cycle_heap (JSON_ARRAY 0)" by (simp add: cycle_heap_def)
  ultimately show ?thesis using built_document_typed[OF cycle_made, of "JSON_ARRAY 0" show_nat 5] by blast
qed

end
