(* ===== verification/Stmt_Memory.thy ===== *)
theory Stmt_Memory
  imports Db_Stmt Deallocation
begin

text \<open>
  The memory of the result columns of a prepared statement: the constructor, \<open>fetch\<close> and the
  destructor of \<open>DBStmt\<close> (\<^verbatim>\<open>src/db/db_pool.h\<close>) as far as they allocate and free the
  columns' buffers. A column has two pointers to its buffer, in \<open>m_column_data\<close> and in
  \<open>m_bind_out\<close>; only \<open>fetch\<close> of a BLOB column changes them.

  An address is never given out twice here, so a pointer to freed memory never looks alive again.
\<close>

section \<open>Operations\<close>

record column =
  is_blob :: bool
  data_buffer :: "nat option"
  bind_buffer :: "nat option"

record memory =
  live_buffers :: "nat set"
  next_buffer :: nat

definition new_buffer :: "memory \<Rightarrow> nat \<times> memory" where
  "new_buffer m = (next_buffer m, m\<lparr>live_buffers := insert (next_buffer m) (live_buffers m),
     next_buffer := next_buffer m + 1\<rparr>)"

text \<open>\<open>delete []\<close>: of NULL it does nothing, of a buffer that is not alive it is undefined.\<close>

definition delete_buffer :: "nat option \<Rightarrow> memory \<Rightarrow> memory outcome" where
  "delete_buffer p m =
     (case p of
        None \<Rightarrow> Returns m
      | Some a \<Rightarrow> if a \<in> live_buffers m then Returns (m\<lparr>live_buffers := live_buffers m - {a}\<rparr>) else Undefined)"

fun new_columns :: "field_type list \<Rightarrow> memory \<Rightarrow> column list \<times> memory" where
  "new_columns [] m = ([], m)"
| "new_columns (ty # tys) m =
     (if ty \<noteq> MYSQL_TYPE_BLOB then
        (let (a, m1) = new_buffer m; (cols, m2) = new_columns tys m1
         in (\<lparr>is_blob = False, data_buffer = Some a, bind_buffer = Some a\<rparr> # cols, m2))
      else
        (let (cols, m2) = new_columns tys m
         in (\<lparr>is_blob = True, data_buffer = None, bind_buffer = None\<rparr> # cols, m2)))"

text \<open>One column of a fetched row, with the length of its value.\<close>

definition fetch_buffer :: "nat \<Rightarrow> column \<Rightarrow> memory \<Rightarrow> (column \<times> memory) outcome" where
  "fetch_buffer actual_length col m =
     (if is_blob col then
        bind_outcome (delete_buffer (data_buffer col) m) (\<lambda>m1.
          if actual_length \<noteq> 0 then
            (let (a, m2) = new_buffer m1 in Returns (col\<lparr>data_buffer := Some a, bind_buffer := Some a\<rparr>, m2))
          else Returns (col\<lparr>data_buffer := None\<rparr>, m1))
      else Returns (col, m))"

fun fetch_buffers :: "nat list \<Rightarrow> column list \<Rightarrow> memory \<Rightarrow> (column list \<times> memory) outcome" where
  "fetch_buffers (l # ls) (col # cols) m =
     bind_outcome (fetch_buffer l col m) (\<lambda>(col', m1).
       bind_outcome (fetch_buffers ls cols m1) (\<lambda>(cols', m2). Returns (col' # cols', m2)))"
| "fetch_buffers ls cols m = Returns (cols, m)"

fun fetch_all :: "nat list list \<Rightarrow> column list \<Rightarrow> memory \<Rightarrow> (column list \<times> memory) outcome" where
  "fetch_all [] cols m = Returns (cols, m)"
| "fetch_all (row # rows) cols m =
     bind_outcome (fetch_buffers row cols m) (\<lambda>(cols', m1). fetch_all rows cols' m1)"

text \<open>The loop of the destructor goes over \<open>m_bind_out\<close>.\<close>

fun delete_columns :: "column list \<Rightarrow> memory \<Rightarrow> memory outcome" where
  "delete_columns [] m = Returns m"
| "delete_columns (col # cols) m = bind_outcome (delete_buffer (bind_buffer col) m) (delete_columns cols)"

text \<open>A statement with the lengths of the rows that are fetched from it, to its end.\<close>

definition statement_life :: "field_type list \<Rightarrow> nat list list \<Rightarrow> nat set outcome" where
  "statement_life types rows =
     (let (cols, m) = new_columns types \<lparr>live_buffers = {}, next_buffer = 0\<rparr>
      in bind_outcome (fetch_all rows cols m) (\<lambda>(cols', m1).
         bind_outcome (delete_columns cols' m1) (\<lambda>m2. Returns (live_buffers m2))))"

section \<open>Which buffers are alive\<close>

definition owned_buffers :: "column list \<Rightarrow> nat list" where
  "owned_buffers cols = List.map_filter data_buffer cols"

text \<open>The binding of a column points to its buffer, or to one that has been freed.\<close>

definition dangling :: "column \<Rightarrow> bool" where
  "dangling col \<longleftrightarrow> data_buffer col = None \<and> bind_buffer col \<noteq> None"

definition column_ok :: "memory \<Rightarrow> column \<Rightarrow> bool" where
  "column_ok m col \<longleftrightarrow> (case bind_buffer col of
       None \<Rightarrow> data_buffer col = None
     | Some a \<Rightarrow> a < next_buffer m \<and> (data_buffer col = Some a \<or> data_buffer col = None \<and> a \<notin> live_buffers m))"

definition memory_ok :: "column list \<Rightarrow> memory \<Rightarrow> bool" where
  "memory_ok cols m \<longleftrightarrow> distinct (owned_buffers cols) \<and> live_buffers m = set (owned_buffers cols) \<and>
     (\<forall>col \<in> set cols. column_ok m col)"

lemma owned_buffers_simps [simp]:
  "owned_buffers [] = []" "owned_buffers (xs @ ys) = owned_buffers xs @ owned_buffers ys"
  "owned_buffers (col # cols) = (case data_buffer col of None \<Rightarrow> owned_buffers cols | Some a \<Rightarrow> a # owned_buffers cols)"
  by (simp_all add: owned_buffers_def map_filter_def split: option.splits)

lemma owned_buffers_below: "\<forall>col \<in> set cols. column_ok m col \<Longrightarrow> a \<in> set (owned_buffers cols) \<Longrightarrow> a < next_buffer m"
  by (induction cols) (auto simp: column_ok_def split: option.splits)

definition pointers_after :: "nat \<Rightarrow> column \<Rightarrow> column \<Rightarrow> bool" where
  "pointers_after l col col' \<longleftrightarrow> is_blob col' = is_blob col \<and>
     (if \<not> is_blob col then col' = col
      else if l = 0 then data_buffer col' = None \<and> (bind_buffer col' = None \<longleftrightarrow> bind_buffer col = None)
      else data_buffer col' \<noteq> None \<and> bind_buffer col' \<noteq> None)"

lemma fetch_buffer_ok:
  assumes "memory_ok (xs @ col # ys) m"
  shows "\<exists>col' m'. fetch_buffer l col m = Returns (col', m') \<and> memory_ok (xs @ col' # ys) m' \<and> pointers_after l col col'"
proof (cases "is_blob col")
  case False
  then show ?thesis using assms by (simp add: fetch_buffer_def pointers_after_def)
next
  case True
  have ok: "column_ok m col" "\<forall>c \<in> set xs \<union> set ys. column_ok m c"
    and live: "live_buffers m = set (owned_buffers (xs @ col # ys))" "distinct (owned_buffers (xs @ col # ys))"
    using assms by (auto simp: memory_ok_def)
  define m1 where "m1 = m\<lparr>live_buffers := set (owned_buffers (xs @ ys))\<rparr>"
  have del: "delete_buffer (data_buffer col) m = Returns m1"
    using live by (cases "data_buffer col") (auto simp: delete_buffer_def m1_def)
  have dist: "distinct (owned_buffers (xs @ ys))" using live(2) by (auto split: option.splits)
  have ok1: "\<forall>c \<in> set xs \<union> set ys. column_ok m1 c"
    using ok(2) live(1) by (fastforce simp: column_ok_def m1_def split: option.splits)
  show ?thesis
  proof (cases "l = 0")
    case True
    let ?col = "col\<lparr>data_buffer := None\<rparr>"
    have "column_ok m1 ?col"
      using ok(1) live by (auto simp: column_ok_def m1_def split: option.splits)
    then have "memory_ok (xs @ ?col # ys) m1" using ok1 dist by (auto simp: memory_ok_def m1_def)
    then show ?thesis using True \<open>is_blob col\<close> del by (simp add: fetch_buffer_def pointers_after_def)
  next
    case False
    let ?a = "next_buffer m"
    let ?col = "col\<lparr>data_buffer := Some ?a, bind_buffer := Some ?a\<rparr>"
    define m2 where "m2 = m1\<lparr>live_buffers := insert ?a (live_buffers m1), next_buffer := ?a + 1\<rparr>"
    have new: "?a \<notin> set (owned_buffers (xs @ ys))" using owned_buffers_below[of "xs @ ys" m ?a] ok(2) by auto
    have "column_ok m2 c" if "c \<in> set xs \<union> set ys" for c
    proof -
      have "column_ok m1 c" using ok1 that by blast
      then show ?thesis by (auto simp: column_ok_def m2_def m1_def split: option.splits)
    qed
    moreover have "column_ok m2 ?col" by (simp add: column_ok_def m2_def)
    ultimately have "memory_ok (xs @ ?col # ys) m2" using dist new by (auto simp: memory_ok_def m2_def m1_def)
    then show ?thesis
      using False \<open>is_blob col\<close> del by (simp add: fetch_buffer_def pointers_after_def new_buffer_def m2_def m1_def)
  qed
qed

lemma fetch_buffers_ok:
  assumes "memory_ok (xs @ cols) m" "length ls = length cols"
  shows "\<exists>cols' m'. fetch_buffers ls cols m = Returns (cols', m') \<and> memory_ok (xs @ cols') m' \<and>
    length cols' = length cols \<and> (\<forall>i < length cols. pointers_after (ls ! i) (cols ! i) (cols' ! i))"
  using assms
proof (induction cols arbitrary: ls m xs)
  case (Cons col cols)
  obtain l ls' where ls: "ls = l # ls'" "length ls' = length cols" using Cons.prems(2) by (cases ls) auto
  obtain col' m1 where 1: "fetch_buffer l col m = Returns (col', m1)" "memory_ok (xs @ col' # cols) m1" "pointers_after l col col'"
    using fetch_buffer_ok[OF Cons.prems(1)] by blast
  then have "memory_ok ((xs @ [col']) @ cols) m1" by simp
  from Cons.IH[OF this ls(2)] obtain cols' m2 where 2: "fetch_buffers ls' cols m1 = Returns (cols', m2)"
    "memory_ok ((xs @ [col']) @ cols') m2" "length cols' = length cols"
    "\<forall>i < length cols. pointers_after (ls' ! i) (cols ! i) (cols' ! i)" by blast
  have "\<forall>i < length (col # cols). pointers_after (ls ! i) ((col # cols) ! i) ((col' # cols') ! i)"
    using 1(3) 2(4) by (auto simp: less_Suc_eq_0_disj ls(1))
  then show ?case using 1(1) 2 by (simp add: ls(1))
qed simp

text \<open>What the pointers of a column say after a list of rows.\<close>

definition pointers_after_all :: "nat list \<Rightarrow> column \<Rightarrow> column \<Rightarrow> bool" where
  "pointers_after_all ls col col' \<longleftrightarrow> is_blob col' = is_blob col \<and>
     (if \<not> is_blob col \<or> ls = [] then col' = col
      else (data_buffer col' = None \<longleftrightarrow> last ls = 0) \<and>
        (bind_buffer col' = None \<longleftrightarrow> bind_buffer col = None \<and> (\<forall>l \<in> set ls. l = 0)))"

lemma pointers_after_all_Cons:
  "pointers_after l col col1 \<Longrightarrow> pointers_after_all ls col1 col' \<Longrightarrow> pointers_after_all (l # ls) col col'"
  by (auto simp: pointers_after_def pointers_after_all_def split: if_splits)

lemma fetch_all_ok:
  assumes "memory_ok cols m" "\<forall>row \<in> set rows. length row = length cols"
  shows "\<exists>cols' m'. fetch_all rows cols m = Returns (cols', m') \<and> memory_ok cols' m' \<and> length cols' = length cols \<and>
    (\<forall>i < length cols. pointers_after_all (map (\<lambda>row. row ! i) rows) (cols ! i) (cols' ! i))"
  using assms
proof (induction rows arbitrary: cols m)
  case Nil
  then show ?case by (simp add: pointers_after_all_def)
next
  case (Cons row rows)
  obtain cols1 m1 where 1: "fetch_buffers row cols m = Returns (cols1, m1)" "memory_ok cols1 m1"
    "length cols1 = length cols" "\<forall>i < length cols. pointers_after (row ! i) (cols ! i) (cols1 ! i)"
    using fetch_buffers_ok[of "[]" cols m row] Cons.prems by auto
  obtain cols' m' where 2: "fetch_all rows cols1 m1 = Returns (cols', m')" "memory_ok cols' m'" "length cols' = length cols1"
    "\<forall>i < length cols1. pointers_after_all (map (\<lambda>row. row ! i) rows) (cols1 ! i) (cols' ! i)"
    using Cons.IH[OF 1(2)] Cons.prems(2) 1(3) by auto
  have "pointers_after_all (map (\<lambda>row. row ! i) (row # rows)) (cols ! i) (cols' ! i)" if "i < length cols" for i
    using pointers_after_all_Cons[of "row ! i" "cols ! i" "cols1 ! i"] 1(3,4) 2(4) that by simp
  then show ?case using 1 2 by simp
qed

interpretation buffers: deallocation live_buffers "\<lambda>a. delete_buffer (Some a)"
  by unfold_locales (auto simp: delete_buffer_def)

definition bound_buffers :: "column list \<Rightarrow> nat list" where
  "bound_buffers cols = List.map_filter bind_buffer cols"

lemma bound_buffers_simps [simp]:
  "bound_buffers [] = []"
  "bound_buffers (col # cols) = (case bind_buffer col of None \<Rightarrow> bound_buffers cols | Some a \<Rightarrow> a # bound_buffers cols)"
  by (simp_all add: bound_buffers_def map_filter_def split: option.splits)

lemma delete_columns_loop: "delete_columns cols m = for_each (\<lambda>a. delete_buffer (Some a)) (bound_buffers cols) m"
  by (induction cols arbitrary: m)
    (auto simp: delete_buffer_def bind_outcome_def split: option.splits outcome.splits)

lemma bound_is_owned: "\<forall>col \<in> set cols. column_ok m col \<and> \<not> dangling col \<Longrightarrow> bound_buffers cols = owned_buffers cols"
  by (induction cols) (auto simp: column_ok_def dangling_def split: option.splits)

lemma dangling_not_live:
  assumes "\<forall>col \<in> set cols. column_ok m col" "col \<in> set cols" "dangling col"
  shows "\<not> set (bound_buffers cols) \<subseteq> live_buffers m"
proof -
  obtain a where a: "bind_buffer col = Some a" "a \<notin> live_buffers m"
    using assms by (fastforce simp: dangling_def column_ok_def split: option.splits)
  then have "a \<in> set (bound_buffers cols)" using assms(2) by (induction cols) (auto split: option.splits)
  then show ?thesis using a(2) by blast
qed

lemma delete_columns_ok:
  assumes "memory_ok cols m"
  shows "if \<exists>col \<in> set cols. dangling col then delete_columns cols m = Undefined
    else \<exists>m'. delete_columns cols m = Returns m' \<and> live_buffers m' = {}"
proof (cases "\<exists>col \<in> set cols. dangling col")
  case True
  then show ?thesis
    using assms dangling_not_live[of cols m] buffers.delete_fails[of "bound_buffers cols" m]
    by (auto simp: memory_ok_def delete_columns_loop)
next
  case False
  then have "bound_buffers cols = owned_buffers cols" using assms by (intro bound_is_owned) (auto simp: memory_ok_def)
  then show ?thesis
    using False assms buffers.delete_each_once[of "bound_buffers cols" m] by (auto simp: memory_ok_def delete_columns_loop)
qed

lemma new_columns_ok:
  assumes "memory_ok xs m" "new_columns types m = (cols, m')"
  shows "memory_ok (xs @ cols) m' \<and> length cols = length types \<and>
    (\<forall>i < length types. is_blob (cols ! i) = (types ! i = MYSQL_TYPE_BLOB) \<and> \<not> dangling (cols ! i) \<and>
       (is_blob (cols ! i) \<longrightarrow> bind_buffer (cols ! i) = None))"
  using assms
proof (induction types arbitrary: xs m cols)
  case (Cons ty tys)
  define col m1 where "col = (if ty = MYSQL_TYPE_BLOB then \<lparr>is_blob = True, data_buffer = None, bind_buffer = None\<rparr>
      else \<lparr>is_blob = False, data_buffer = Some (next_buffer m), bind_buffer = Some (next_buffer m)\<rparr>)"
    and "m1 = (if ty = MYSQL_TYPE_BLOB then m else snd (new_buffer m))"
  obtain cols1 where cols: "new_columns tys m1 = (cols1, m')" "cols = col # cols1"
    using Cons.prems(2) by (auto simp: col_def m1_def new_buffer_def split: prod.splits if_splits)
  have old: "\<forall>c \<in> set xs. column_ok m c" using Cons.prems(1) by (simp add: memory_ok_def)
  have "memory_ok (xs @ [col]) m1"
  proof (cases "ty = MYSQL_TYPE_BLOB")
    case True
    then show ?thesis using Cons.prems(1) by (simp add: col_def m1_def memory_ok_def column_ok_def)
  next
    case False
    have "column_ok (snd (new_buffer m)) c" if "c \<in> set xs" for c
    proof -
      have "column_ok m c" using old that by blast
      then show ?thesis by (auto simp: column_ok_def new_buffer_def split: option.splits)
    qed
    then have "\<forall>c \<in> set xs. column_ok m1 c" using False by (simp add: m1_def)
    moreover have "column_ok m1 col" using False by (simp add: m1_def col_def column_ok_def new_buffer_def)
    moreover have "next_buffer m \<notin> set (owned_buffers xs)" using owned_buffers_below[OF old] by blast
    ultimately show ?thesis
      using False Cons.prems(1) by (auto simp: col_def m1_def memory_ok_def new_buffer_def)
  qed
  from Cons.IH[OF this cols(1)] show ?case
    by (auto simp: cols(2) less_Suc_eq_0_disj col_def dangling_def)
qed (simp add: memory_ok_def)

text \<open>C39. The destructor of a statement frees one buffer twice exactly when a BLOB column had a value in
  some row and an empty one in the last row that was fetched: \<open>fetch\<close> frees the old buffer and
  clears \<open>m_column_data\<close>, but leaves the pointer in \<open>m_bind_out\<close>. In all other cases every
  buffer is freed once and none is left.
\<close>

theorem empty_blob_freed_twice:
  assumes "\<forall>row \<in> set rows. length row = length types"
  shows "statement_life types rows =
    (if \<exists>i < length types. types ! i = MYSQL_TYPE_BLOB \<and> rows \<noteq> [] \<and> last rows ! i = 0 \<and> (\<exists>row \<in> set rows. row ! i \<noteq> 0)
     then Undefined else Returns {})"
proof -
  obtain cols m where new: "new_columns types \<lparr>live_buffers = {}, next_buffer = 0\<rparr> = (cols, m)" by fastforce
  have "memory_ok [] \<lparr>live_buffers = {}, next_buffer = 0\<rparr>" by (simp add: memory_ok_def)
  note c = new_columns_ok[OF this new]
  obtain cols' m' where f: "fetch_all rows cols m = Returns (cols', m')" "memory_ok cols' m'" "length cols' = length cols"
    "\<forall>i < length cols. pointers_after_all (map (\<lambda>row. row ! i) rows) (cols ! i) (cols' ! i)"
    using fetch_all_ok[of cols m rows] c assms by auto
  have status: "dangling (cols' ! i) \<longleftrightarrow> types ! i = MYSQL_TYPE_BLOB \<and> rows \<noteq> [] \<and> last rows ! i = 0 \<and> (\<exists>row \<in> set rows. row ! i \<noteq> 0)"
    if "i < length types" for i
  proof -
    have "pointers_after_all (map (\<lambda>row. row ! i) rows) (cols ! i) (cols' ! i)" using f(4) c that by simp
    moreover have "\<not> dangling (cols ! i)" "is_blob (cols ! i) = (types ! i = MYSQL_TYPE_BLOB)"
      "is_blob (cols ! i) \<Longrightarrow> bind_buffer (cols ! i) = None" using c that by auto
    ultimately show ?thesis
      by (cases "rows = []") (auto simp: pointers_after_all_def dangling_def last_map split: if_splits)
  qed
  have "(\<exists>col \<in> set cols'. dangling col) \<longleftrightarrow> (\<exists>i < length types. dangling (cols' ! i))"
    using f(3) c by (metis in_set_conv_nth)
  also have "\<dots> \<longleftrightarrow>
      (\<exists>i < length types. types ! i = MYSQL_TYPE_BLOB \<and> rows \<noteq> [] \<and> last rows ! i = 0 \<and> (\<exists>row \<in> set rows. row ! i \<noteq> 0))"
    using status by (simp cong: conj_cong)
  finally have d: "(\<exists>col \<in> set cols'. dangling col) \<longleftrightarrow>
      (\<exists>i < length types. types ! i = MYSQL_TYPE_BLOB \<and> rows \<noteq> [] \<and> last rows ! i = 0 \<and> (\<exists>row \<in> set rows. row ! i \<noteq> 0))" .
  have "statement_life types rows = (if \<exists>col \<in> set cols'. dangling col then Undefined else Returns {})"
    using delete_columns_ok[OF f(2)] by (auto simp: statement_life_def new f(1))
  then show ?thesis unfolding d .
qed

theorem empty_blob_freed_twice_witness:
  "statement_life [MYSQL_TYPE_LONG, MYSQL_TYPE_BLOB] [[4, 12], [4, 0]] = Undefined \<and>
   statement_life [MYSQL_TYPE_LONG, MYSQL_TYPE_BLOB] [[4, 0], [4, 12]] = Returns {}"
  using empty_blob_freed_twice[of "[[4, 12], [4, 0]]" "[MYSQL_TYPE_LONG, MYSQL_TYPE_BLOB]"]
    empty_blob_freed_twice[of "[[4, 0], [4, 12]]" "[MYSQL_TYPE_LONG, MYSQL_TYPE_BLOB]"]
  by (auto simp: less_Suc_eq numeral_2_eq_2 nth_Cons')

end
