(* ===== verification/Adapters.thy ===== *)
theory Adapters
  imports Prelude
begin

text \<open>
  The wrappers of two C libraries: regular expressions (\<^verbatim>\<open>src/server/regex.h\<close>) and the
  Gearman job queue (\<^verbatim>\<open>src/server/gearman_client.h\<close>, \<^verbatim>\<open>src/server/gearman_worker.h\<close>).
  The libraries are parameters; the wrappers turn their return codes into exceptions.
\<close>

section \<open>Regular expressions\<close>

text \<open>
  \<open>re_compile_pattern\<close> gives a pattern or fails; \<open>re_search\<close> gives the position of the first match,
  \<open>-1\<close> for none or less for a failure, and the bounds of the match.
\<close>

record 'p regex_lib =
  re_compile :: "string \<Rightarrow> 'p option"
  re_search :: "'p \<Rightarrow> string \<Rightarrow> int \<times> int \<times> int"

definition Regex_new :: "'p regex_lib \<Rightarrow> string \<Rightarrow> 'p result" where
  "Regex_new lib source =
     (case re_compile lib source of
        None \<Rightarrow> Inl (Runtime_Error ''error compiling regex'')
      | Some pat_buff \<Rightarrow> Inr pat_buff)"

text \<open>The second result is the reference argument, which keeps its value when nothing matches.\<close>

definition regex_search :: "'p regex_lib \<Rightarrow> 'p \<Rightarrow> string \<Rightarrow> string \<Rightarrow> (bool \<times> string) result" where
  "regex_search lib pat_buff haystack needle =
     (let (rc, start, stop) = re_search lib pat_buff haystack
      in if rc < - 1 then Inl (Runtime_Error ''regex failure'')
         else if rc = - 1 then Inr (False, needle)
         else bind_result (std_substr haystack (nat start) (nat (stop - start))) (\<lambda>s. Inr (True, s)))"

definition regex_match :: "'p regex_lib \<Rightarrow> 'p \<Rightarrow> string \<Rightarrow> nat \<Rightarrow> (bool \<times> nat) result" where
  "regex_match lib pat_buff haystack needle =
     (let (rc, start, stop) = re_search lib pat_buff haystack
      in if rc < - 1 then Inl (Runtime_Error ''regex failure'')
         else if rc = - 1 then Inr (False, needle)
         else Inr (True, nat rc))"

text \<open>What the library documents: a match lies in the text, and its position is its start.\<close>

definition matches_inside :: "'p regex_lib \<Rightarrow> bool" where
  "matches_inside lib \<longleftrightarrow> (\<forall>pat s. case re_search lib pat s of (rc, start, stop) \<Rightarrow>
     0 \<le> rc \<longrightarrow> start = rc \<and> start \<le> stop \<and> stop \<le> int (length s))"

lemma search_and_match_agree:
  assumes "matches_inside lib" "regex_match lib pat s k = Inr (True, i)"
  shows "\<exists>w. regex_search lib pat s old = Inr (True, w) \<and> prefix w (drop i s)"
proof -
  obtain rc start stop where r: "re_search lib pat s = (rc, start, stop)" using prod_cases3 by blast
  then have rc: "0 \<le> rc" "i = nat rc" using assms(2) by (auto simp: regex_match_def split: if_splits)
  from assms(1)[unfolded matches_inside_def] have "\<forall>s. case re_search lib pat s of (rc, start, stop) \<Rightarrow>
      0 \<le> rc \<longrightarrow> start = rc \<and> start \<le> stop \<and> stop \<le> int (length s)" by (rule spec)
  then have "case re_search lib pat s of (rc, start, stop) \<Rightarrow>
      0 \<le> rc \<longrightarrow> start = rc \<and> start \<le> stop \<and> stop \<le> int (length s)" by (rule spec)
  then have "start = rc" "start \<le> stop" "stop \<le> int (length s)" using r rc by simp_all
  then have "i \<le> length s" using rc by simp
  then have "regex_search lib pat s old = Inr (True, take (nat (stop - start)) (drop i s))"
    using r rc \<open>start = rc\<close> by (simp add: regex_search_def std_substr_def)
  then show ?thesis by (metis take_is_prefix)
qed

section \<open>The job queue\<close>

text \<open>
  The calls a wrapper makes, in order. The library's answers are functions of the call: an error
  text, or none (or a job's handle). The exception class holds a text.
\<close>

datatype gearman_call =
    Gm_Create
  | Gm_Add_Server string int
  | Gm_Set_Timeout int
  | Gm_Background bool string string
  | Gm_Add_Function string
  | Gm_Work
  | Gm_Free

record gearman_lib =
  gm_create :: bool
  gm_error :: "gearman_call \<Rightarrow> string option"
  gm_handle :: "gearman_call \<Rightarrow> string"

type_synonym 'a gearman_result = "gearman_call list \<times> (string + 'a)"

definition CREATE_FAILED :: string where
  "CREATE_FAILED = ''Memory allocation failure on ''"

definition GearmanClient_new :: "gearman_lib \<Rightarrow> string \<Rightarrow> int \<Rightarrow> int \<Rightarrow> unit gearman_result" where
  "GearmanClient_new lib host port timeout =
     (if \<not> gm_create lib then ([Gm_Create], Inl (CREATE_FAILED @ ''client creation''))
      else (let add = Gm_Add_Server (c_str host) port
            in case gm_error lib add of
                 Some e \<Rightarrow> ([Gm_Create, add], Inl e)
               | None \<Rightarrow> (Gm_Create # add # (if 0 \<le> timeout then [Gm_Set_Timeout timeout] else []), Inr ())))"

definition GearmanClient_delete :: "gearman_call list" where
  "GearmanClient_delete = [Gm_Free]"

text \<open>The function's name ends at a NUL byte, the workload is handed over with its size.\<close>

definition run_job :: "gearman_lib \<Rightarrow> bool \<Rightarrow> string \<Rightarrow> string \<Rightarrow> string gearman_result" where
  "run_job lib high function workload =
     (let call = Gm_Background high (c_str function) workload
      in ([call], case gm_error lib call of Some e \<Rightarrow> Inl e | None \<Rightarrow> Inr (c_str (gm_handle lib call))))"

definition run_bg :: "gearman_lib \<Rightarrow> string \<Rightarrow> string \<Rightarrow> string gearman_result" where
  "run_bg lib function workload = run_job lib False function workload"

definition run_bg_high :: "gearman_lib \<Rightarrow> string \<Rightarrow> string \<Rightarrow> string gearman_result" where
  "run_bg_high lib function workload = run_job lib True function workload"

text \<open>The worker's constructor does not use its timeout.\<close>

definition GearmanWorker_new :: "gearman_lib \<Rightarrow> string \<Rightarrow> int \<Rightarrow> int \<Rightarrow> unit gearman_result" where
  "GearmanWorker_new lib host port timeout =
     (if \<not> gm_create lib then ([Gm_Create], Inl (CREATE_FAILED @ ''worker creation''))
      else (let add = Gm_Add_Server (c_str host) port
            in ([Gm_Create, add], case gm_error lib add of Some e \<Rightarrow> Inl e | None \<Rightarrow> Inr ())))"

definition GearmanWorker_delete :: "gearman_call list" where
  "GearmanWorker_delete = [Gm_Free]"

definition worker_add_function :: "gearman_lib \<Rightarrow> string \<Rightarrow> unit gearman_result" where
  "worker_add_function lib name =
     (let call = Gm_Add_Function (c_str name)
      in ([call], case gm_error lib call of Some e \<Rightarrow> Inl e | None \<Rightarrow> Inr ()))"

text \<open>Any failure of the work is reported as one of the creation.\<close>

definition work :: "gearman_lib \<Rightarrow> unit gearman_result" where
  "work lib =
     ([Gm_Work], case gm_error lib Gm_Work of Some e \<Rightarrow> Inl (CREATE_FAILED @ ''worker creation'') | None \<Rightarrow> Inr ())"

text \<open>
  A constructor that throws is not followed by the destructor: when the server cannot be added, what
  was created is never freed.
\<close>

lemma failed_client_not_freed:
  assumes "gm_create lib" "gm_error lib (Gm_Add_Server (c_str host) port) = Some e"
  shows "\<exists>calls. GearmanClient_new lib host port timeout = (calls, Inl e) \<and> Gm_Create \<in> set calls \<and> Gm_Free \<notin> set calls"
  using assms by (simp add: GearmanClient_new_def Let_def)

lemma work_error_is_lost:
  assumes "gm_error lib Gm_Work = Some e"
  shows "snd (work lib) = Inl ''Memory allocation failure on worker creation''"
  using assms by (simp add: work_def CREATE_FAILED_def)

end
