(* ===== verification/Scopes.thy ===== *)
theory Scopes
  imports Prelude
begin

text \<open>
  Programs with objects that live in a scope: functions of a state that return, throw, get stuck in
  undefined behaviour, never end, or are terminated. \<open>scope\<close> constructs an object, runs the code
  of the scope and destroys the object on the way out, also when an exception passes through;
  a destructor that throws while one passes ends the program (\<open>std::terminate\<close>). The
  sources are C++98, in which a destructor may throw.

  \<open>corr\<close> says that such a program does what a plain outcome says, starting in a state with
  the view \<open>l\<close>, and what the view is after it returned or threw. The contract of a class whose
  objects live in scopes is \<open>scoped_class\<close>.
\<close>

named_theorems corr_intros \<open>rules that follow the structure of a program\<close>
named_theorems run \<open>how programs run from a state\<close>

section \<open>Programs\<close>

datatype 'a exit = Done 'a | Raised exn | Stuck | Endless | Terminated

type_synonym ('w, 'a) prog = "'w \<Rightarrow> 'a exit \<times> 'w"

definition ret :: "'a \<Rightarrow> ('w, 'a) prog" where
  "ret a w = (Done a, w)"

definition raise :: "exn \<Rightarrow> ('w, 'a) prog" where
  "raise e w = (Raised e, w)"

definition bnd :: "('w, 'a) prog \<Rightarrow> ('a \<Rightarrow> ('w, 'b) prog) \<Rightarrow> ('w, 'b) prog" where
  "bnd m k w =
     (case m w of
        (Done a, w1) \<Rightarrow> k a w1
      | (Raised e, w1) \<Rightarrow> (Raised e, w1)
      | (Stuck, w1) \<Rightarrow> (Stuck, w1)
      | (Endless, w1) \<Rightarrow> (Endless, w1)
      | (Terminated, w1) \<Rightarrow> (Terminated, w1))"

definition of_outcome :: "'a outcome \<Rightarrow> ('w, 'a) prog" where
  "of_outcome r w =
     (case r of Returns a \<Rightarrow> (Done a, w) | Throws e \<Rightarrow> (Raised e, w) | Undefined \<Rightarrow> (Stuck, w) | Diverges \<Rightarrow> (Endless, w))"

definition scope :: "('w, 'o) prog \<Rightarrow> ('o \<Rightarrow> ('w, unit) prog) \<Rightarrow> ('o \<Rightarrow> ('w, 'a) prog) \<Rightarrow> ('w, 'a) prog" where
  "scope ctor dtor body =
     bnd ctor (\<lambda>x w.
       (case body x w of
          (Done a, w1) \<Rightarrow> bnd (dtor x) (\<lambda>_. ret a) w1
        | (Raised e, w1) \<Rightarrow>
            (case dtor x w1 of
               (Raised _, w2) \<Rightarrow> (Terminated, w2)
             | (r, w2) \<Rightarrow> bnd (\<lambda>_. (r, w2)) (\<lambda>_. raise e) w1)
        | r \<Rightarrow> r))"

text \<open>\<open>try \<dots> catch(const db_exception &e)\<close>, the handler getting \<open>e.what()\<close>.\<close>

definition try_db :: "('w, 'a) prog \<Rightarrow> (string \<Rightarrow> ('w, 'a) prog) \<Rightarrow> ('w, 'a) prog" where
  "try_db m h w =
     (case m w of
        (Raised e, w1) \<Rightarrow> (case e of Db_Exception msg stage \<Rightarrow> h (c_str msg) w1 | _ \<Rightarrow> (Raised e, w1))
      | r \<Rightarrow> r)"

fun each :: "('x \<Rightarrow> ('w, unit) prog) \<Rightarrow> 'x list \<Rightarrow> ('w, unit) prog" where
  "each f [] = ret ()"
| "each f (x # xs) = bnd (f x) (\<lambda>_. each f xs)"

lemma ret_apply [run]: "ret a w = (Done a, w)"
  by (simp add: ret_def)

lemma raise_apply [run]: "raise e w = (Raised e, w)"
  by (simp add: raise_def)

lemma bnd_Done [run]: "m w = (Done a, w1) \<Longrightarrow> bnd m k w = k a w1"
  by (simp add: bnd_def)

lemma bnd_Raised [run]: "m w = (Raised e, w1) \<Longrightarrow> bnd m k w = (Raised e, w1)"
  by (simp add: bnd_def)

lemma of_outcome_simps [run]:
  "of_outcome (Returns a) w = (Done a, w)" "of_outcome (Throws e) w = (Raised e, w)"
  "of_outcome Undefined w = (Stuck, w)" "of_outcome Diverges w = (Endless, w)"
  by (simp_all add: of_outcome_def)

section \<open>Correspondence with an outcome\<close>

definition ends_as ::
  "('l \<Rightarrow> 'w \<Rightarrow> bool) \<Rightarrow> ('a \<Rightarrow> 'b \<Rightarrow> 'l \<Rightarrow> bool) \<Rightarrow> (exn \<Rightarrow> 'l \<Rightarrow> bool) \<Rightarrow> 'b outcome \<Rightarrow> 'a exit \<times> 'w \<Rightarrow> bool" where
  "ends_as view Q E r end_state \<longleftrightarrow>
     (case r of
        Returns b \<Rightarrow> \<exists>a w' l'. end_state = (Done a, w') \<and> view l' w' \<and> Q a b l'
      | Throws e \<Rightarrow> \<exists>w' l'. end_state = (Raised e, w') \<and> view l' w' \<and> E e l'
      | Undefined \<Rightarrow> fst end_state = Stuck
      | Diverges \<Rightarrow> fst end_state = Endless)"

definition corr ::
  "('l \<Rightarrow> 'w \<Rightarrow> bool) \<Rightarrow> 'l \<Rightarrow> ('w, 'a) prog \<Rightarrow> 'b outcome \<Rightarrow> ('a \<Rightarrow> 'b \<Rightarrow> 'l \<Rightarrow> bool) \<Rightarrow> (exn \<Rightarrow> 'l \<Rightarrow> bool) \<Rightarrow> bool" where
  "corr view l m r Q E \<longleftrightarrow> (\<forall>w. view l w \<longrightarrow> ends_as view Q E r (m w))"

lemma corrI: "(\<And>w. view l w \<Longrightarrow> ends_as view Q E r (m w)) \<Longrightarrow> corr view l m r Q E"
  by (simp add: corr_def)

lemma corrD: "corr view l m r Q E \<Longrightarrow> view l w \<Longrightarrow> ends_as view Q E r (m w)"
  by (simp add: corr_def)

lemma ends_as_simps [simp]:
  "ends_as view Q E (Returns b) z \<longleftrightarrow> (\<exists>a w' l'. z = (Done a, w') \<and> view l' w' \<and> Q a b l')"
  "ends_as view Q E (Throws e) z \<longleftrightarrow> (\<exists>w' l'. z = (Raised e, w') \<and> view l' w' \<and> E e l')"
  "ends_as view Q E Undefined z \<longleftrightarrow> fst z = Stuck"
  "ends_as view Q E Diverges z \<longleftrightarrow> fst z = Endless"
  by (simp_all add: ends_as_def)

lemma corr_ReturnsI:
  "(\<And>w. view l w \<Longrightarrow> \<exists>a w' l'. m w = (Done a, w') \<and> view l' w' \<and> Q a b l') \<Longrightarrow> corr view l m (Returns b) Q E"
  by (simp add: corr_def)

lemma corr_conseq:
  "corr view l m r Q E \<Longrightarrow> (\<And>a b l'. Q a b l' \<Longrightarrow> Q' a b l') \<Longrightarrow> (\<And>e l'. E e l' \<Longrightarrow> E' e l') \<Longrightarrow> corr view l m r Q' E'"
  by (rule corrI, drule (1) corrD, cases r) (auto 0 4)

lemma corr_ret [corr_intros]: "Q a b l \<Longrightarrow> corr view l (ret a) (Returns b) Q E"
  by (auto simp: corr_def run)

lemma corr_raise: "E e l \<Longrightarrow> corr view l (raise e) (Throws e) Q E"
  by (auto simp: corr_def run)

lemma corr_outcome [corr_intros]:
  "(\<And>e. r = Throws e \<Longrightarrow> E e l) \<Longrightarrow> (\<And>a. Q a a l) \<Longrightarrow> corr view l (of_outcome r) r Q E"
  by (cases r) (auto simp: corr_def run)

lemma corr_bind:
  assumes "corr view l m r Q' E" "\<And>a b l'. r = Returns b \<Longrightarrow> Q' a b l' \<Longrightarrow> corr view l' (k a) (f b) Q E"
  shows "corr view l (bnd m k) (bind_outcome r f) Q E"
proof (rule corrI)
  fix w assume "view l w"
  note m = corrD[OF assms(1) this]
  show "ends_as view Q E (bind_outcome r f) (bnd m k w)"
  proof (cases r)
    case (Returns b)
    then obtain a w1 l1 where "m w = (Done a, w1)" "view l1 w1" "Q' a b l1" using m by auto
    then show ?thesis using corrD[OF assms(2)[OF Returns]] Returns by (simp add: bnd_Done)
  qed (use m in \<open>auto simp: bnd_def split: prod.splits exit.splits\<close>)
qed

lemma corr_read:
  assumes "\<And>e. r = Throws e \<Longrightarrow> E e l" "\<And>a. r = Returns a \<Longrightarrow> corr view l (k a) (f a) Q E"
  shows "corr view l (bnd (of_outcome r) k) (bind_outcome r f) Q E"
  using assms by (cases r) (auto simp: corr_def run bnd_def)

text \<open>A step the outcome does not have.\<close>

lemma corr_step:
  assumes "corr view l m (Returns x) (\<lambda>a _ l'. Q' a l') E" "\<And>a l'. Q' a l' \<Longrightarrow> corr view l' (k a) r Q E"
  shows "corr view l (bnd m k) r Q E"
  using corr_bind[of view l m "Returns x" "\<lambda>a _. Q' a" E k "\<lambda>_. r" Q] assms by simp

lemma corr_then:
  assumes "corr view l m (Returns x) (\<lambda>_ _ l'. l' = l1) E" "\<And>a. corr view l1 (k a) r Q E"
  shows "corr view l (bnd m k) r Q E"
  by (rule corr_step[OF assms(1)]) (use assms(2) in simp)

lemma corr_last:
  assumes "corr view l m (Returns x) (\<lambda>_ _ l'. l' = l1) E" "\<And>a. Q a b l1"
  shows "corr view l m (Returns b) Q E"
  using assms by (fastforce simp: corr_def)

lemma corr_map:
  assumes "corr view l m r Q' E" "\<And>a b l'. Q' a b l' \<Longrightarrow> Q a (g b) l'"
  shows "corr view l m (bind_outcome r (\<lambda>b. Returns (g b))) Q E"
  using assms by (cases r) (fastforce simp: corr_def)+

lemma bnd_of_outcome [simp]: "bnd (of_outcome (Returns a)) k = k a"
  by (rule ext) (simp add: run)

lemma bnd_ret [simp]: "bnd (ret a) k = k a"
  by (rule ext) (simp add: run)

lemma corr_end [simp]:
  "corr view l (of_outcome Undefined) Undefined Q E" "corr view l (of_outcome Diverges) Diverges Q E"
  by (simp_all add: corr_def run)

lemma corr_each:
  assumes "\<And>x b l. Inv b l \<Longrightarrow> corr view l (f x) (g x b) (\<lambda>_. Inv) E" "Inv b l"
  shows "corr view l (each f xs) (for_each g xs b) (\<lambda>_. Inv) E"
  using assms(2)
proof (induction xs arbitrary: b l)
  case Nil
  then show ?case by (auto intro: corr_intros)
next
  case (Cons x xs)
  then show ?case by (auto intro!: corr_bind[where Q' = "\<lambda>_. Inv"] assms(1))
qed

lemma corr_try_db:
  assumes "corr view l m r Q' E'" "\<And>a b l'. Q' a b l' \<Longrightarrow> Q a b l'"
    and "\<And>msg stage l'. r = Throws (Db_Exception msg stage) \<Longrightarrow> E' (Db_Exception msg stage) l' \<Longrightarrow> corr view l' (h (c_str msg)) (k (c_str msg)) Q E"
    and "\<And>e l'. E' e l' \<Longrightarrow> E e l'"
  shows "corr view l (try_db m h) (case r of Throws (Db_Exception msg stage) \<Rightarrow> k (c_str msg) | _ \<Rightarrow> r) Q E"
proof (rule corrI)
  fix w assume v: "view l w"
  note m = corrD[OF assms(1) v]
  show "ends_as view Q E (case r of Throws (Db_Exception msg stage) \<Rightarrow> k (c_str msg) | _ \<Rightarrow> r) (try_db m h w)"
  proof (cases r)
    case (Throws e)
    then obtain w1 l1 where m1: "m w = (Raised e, w1)" "view l1 w1" "E' e l1" using m by auto
    show ?thesis
    proof (cases e)
      case (Db_Exception msg stage)
      then have "try_db m h w = h (c_str msg) w1" using m1 by (simp add: try_db_def)
      then show ?thesis
        using corrD[OF assms(3)[of msg stage l1], of w1] Throws Db_Exception m1 by simp
    qed (use m1 assms(4) Throws in \<open>auto simp: try_db_def\<close>)
  qed (use m assms(2) in \<open>auto simp: try_db_def split: prod.splits exit.splits\<close>)
qed

section \<open>Classes whose objects live in scopes\<close>

text \<open>The contract of a destructor: \<open>has x l\<close> is what it needs, \<open>dropped x l\<close> what it leaves.\<close>

locale destructible =
  fixes view :: "'l \<Rightarrow> 'w \<Rightarrow> bool"
    and dtor :: "'o \<Rightarrow> ('w, unit) prog"
    and has :: "'o \<Rightarrow> 'l \<Rightarrow> bool"
    and dropped :: "'o \<Rightarrow> 'l \<Rightarrow> 'l"
  assumes destroyed: "view l w \<Longrightarrow> has x l \<Longrightarrow> \<exists>w'. dtor x w = (Done (), w') \<and> view (dropped x l) w'"
begin

lemma constructed_corr:
  assumes "corr view l (body x) r (\<lambda>a b l2. has x l2 \<and> Q a b (dropped x l2)) (\<lambda>e l2. has x l2 \<and> E e (dropped x l2))"
  shows "corr view l (scope (ret x) dtor body) r Q E"
proof (rule corrI)
  fix w assume "view l w"
  note b = corrD[OF assms this]
  show "ends_as view Q E r (scope (ret x) dtor body w)"
  proof (cases r)
    case (Returns r1)
    then obtain a w2 l2 where "body x w = (Done a, w2)" "view l2 w2" "has x l2" "Q a r1 (dropped x l2)"
      using b by auto
    then show ?thesis using destroyed[of l2 w2 x] Returns by (auto simp: scope_def run)
  next
    case (Throws e)
    then obtain w2 l2 where "body x w = (Raised e, w2)" "view l2 w2" "has x l2" "E e (dropped x l2)"
      using b by auto
    then show ?thesis using destroyed[of l2 w2 x] Throws by (auto simp: scope_def run)
  qed (use b in \<open>auto simp: scope_def run split: prod.splits exit.splits\<close>)
qed

text \<open>A constructor that may throw; then there is no object to destroy.\<close>

lemma scope_bind_corr:
  assumes "corr view l ctor r Q' E"
    and "\<And>x b l1. r = Returns b \<Longrightarrow> Q' x b l1 \<Longrightarrow>
      corr view l1 (body x) (f b) (\<lambda>a c l2. has x l2 \<and> Q a c (dropped x l2)) (\<lambda>e l2. has x l2 \<and> E e (dropped x l2))"
  shows "corr view l (scope ctor dtor body) (bind_outcome r f) Q E"
proof -
  have "scope ctor dtor body = bnd ctor (\<lambda>x. scope (ret x) dtor body)"
    by (rule ext) (simp add: scope_def bnd_def ret_def split: prod.splits exit.splits)
  moreover have "corr view l (bnd ctor (\<lambda>x. scope (ret x) dtor body)) (bind_outcome r f) Q E"
    by (rule corr_bind[OF assms(1)]) (rule constructed_corr[OF assms(2)])
  ultimately show ?thesis by simp
qed

end

text \<open>A class with a constructor that does not throw.\<close>

locale scoped_class = destructible view dtor has dropped
  for view :: "'l \<Rightarrow> 'w \<Rightarrow> bool" and dtor :: "'o \<Rightarrow> ('w, unit) prog" and has dropped +
  fixes ctor :: "('w, 'o) prog"
    and acquired :: "'o \<Rightarrow> 'l \<Rightarrow> 'l \<Rightarrow> bool"
  assumes constructed: "view l w \<Longrightarrow> \<exists>x w' l'. ctor w = (Done x, w') \<and> view l' w' \<and> acquired x l l'"
begin

lemma scope_corr:
  assumes "\<And>x l1. acquired x l l1 \<Longrightarrow>
    corr view l1 (body x) r (\<lambda>a b l2. has x l2 \<and> Q a b (dropped x l2)) (\<lambda>e l2. has x l2 \<and> E e (dropped x l2))"
  shows "corr view l (scope ctor dtor body) r Q E"
proof -
  have "corr view l ctor (Returns ()) (\<lambda>x _. acquired x l) E"
    using constructed by (intro corr_ReturnsI) blast
  then have "corr view l (scope ctor dtor body) (bind_outcome (Returns ()) (\<lambda>_. r)) Q E"
    by (rule scope_bind_corr) (rule assms)
  then show ?thesis by simp
qed

end

end
