(* ===== verification/Lib_Calls.thy ===== *)
theory Lib_Calls
  imports Scopes Db_Stmt Xml
begin

text \<open>
  The calls a request handler makes on the libraries below it, in their order, and the ledger of what
  it owns: connections of the pool, statements and result descriptions of MySQL, nodes and documents
  of libxml2 (the classes \<open>XMLText\<close>, \<open>XMLNode\<close> and \<open>XMLDoc\<close> of \<^verbatim>\<open>src/server/xml.h\<close>,
  \<open>DBConnHolder\<close> and the life of a \<open>DBStmt\<close> of \<^verbatim>\<open>src/db/db_pool.h\<close>, and
  \<^verbatim>\<open>src/logger/\<close>).

  The libraries are not modelled. \<open>ledger_step\<close> states the terms they are used on: what a call
  gives to its caller, and what it may be applied to. A node belongs to the caller until it is added
  to a parent or made the root of a document; it may be changed before, and freed, and a root may be
  given children. Every other call on a pointer is outside the terms. Pointers are numbers, 0 is
  NULL, and no call returns a pointer a second time.
\<close>

section \<open>Calls and the terms of their use\<close>

datatype priority = LOG_INFO | LOG_ERR | LOG_WARNING | LOG_DEBUG

datatype lib_call =
    Openlog string | Closelog | Syslog priority string string
  | Write string
  | Pool_Get nat | Pool_Put nat
  | Stmt_Init nat nat | Stmt_Prepare nat | Stmt_Error nat | Result_Metadata nat | Free_Result nat | Stmt_Close nat
  | New_Node nat string | New_Text nat string | New_Ns nat string | Set_Prop nat string string
  | Append_Child nat nat | Free_Node nat
  | New_Doc nat string | Set_Root nat nat | New_PI nat string string | Prepend_Sibling nat nat
  | Dump_Doc nat nat | Free_Mem nat | Free_Doc nat

record ledger =
  sent :: string
  conns :: "nat set"
  stmts :: "nat \<Rightarrow> nat option"
  metas :: "nat set"
  mems :: "nat set"
  nodes :: "nat \<Rightarrow> xml_node option"
  nss :: "nat \<Rightarrow> string option"
  pis :: "nat \<Rightarrow> (string \<times> string) option"
  versions :: "nat \<Rightarrow> string option"
  docs :: "nat \<Rightarrow> (nat \<times> xml_doc) option"
  roots :: "nat \<Rightarrow> nat option"

definition empty_ledger :: ledger where
  "empty_ledger = \<lparr>sent = [], conns = {}, stmts = Map.empty, metas = {}, mems = {}, nodes = Map.empty,
     nss = Map.empty, pis = Map.empty, versions = Map.empty, docs = Map.empty, roots = Map.empty\<rparr>"

text \<open>Nothing in the ledger is at this address.\<close>

definition fresh_in :: "ledger \<Rightarrow> nat \<Rightarrow> bool" where
  "fresh_in L n \<longleftrightarrow> n \<notin> conns L \<and> stmts L n = None \<and> n \<notin> metas L \<and> n \<notin> mems L \<and> nodes L n = None \<and>
     nss L n = None \<and> pis L n = None \<and> versions L n = None \<and> docs L n = None \<and> roots L n = None"

definition demand :: "bool \<Rightarrow> 'a option \<Rightarrow> 'a option" where
  "demand b x = (if b then x else None)"

text \<open>\<open>xmlAddChild\<close>, with a detached parent or the root of a document.\<close>

definition append_child :: "nat \<Rightarrow> nat \<Rightarrow> ledger \<Rightarrow> ledger option" where
  "append_child p c L =
     (case nodes L c of
        None \<Rightarrow> None
      | Some x \<Rightarrow> demand (nss L c = None \<and> p \<noteq> c)
          (case nodes L p of
             Some y \<Rightarrow> Some (L\<lparr>nodes := (nodes L)(c := None, p := Some (node_add x y))\<rparr>)
           | None \<Rightarrow> (case roots L p of
               None \<Rightarrow> None
             | Some d \<Rightarrow> (case docs L d of
                 None \<Rightarrow> None
               | Some (r, doc) \<Rightarrow> Some (L\<lparr>nodes := (nodes L)(c := None), docs := (docs L)(d := Some (r, doc_add x doc))\<rparr>)))))"

fun ledger_step :: "lib_call \<Rightarrow> ledger \<Rightarrow> ledger option" where
  "ledger_step (Openlog ident) L = Some L"
| "ledger_step Closelog L = Some L"
| "ledger_step (Syslog p fmt s) L = Some L"
| "ledger_step (Write s) L = Some (L\<lparr>sent := sent L @ s\<rparr>)"
| "ledger_step (Pool_Get c) L = demand (fresh_in L c) (Some (L\<lparr>conns := insert c (conns L)\<rparr>))"
| "ledger_step (Pool_Put c) L = demand (c \<in> conns L) (Some (L\<lparr>conns := conns L - {c}\<rparr>))"
| "ledger_step (Stmt_Init s c) L = demand (c \<in> conns L \<and> fresh_in L s) (Some (L\<lparr>stmts := (stmts L)(s := Some c)\<rparr>))"
| "ledger_step (Stmt_Prepare s) L = demand (stmts L s \<noteq> None) (Some L)"
| "ledger_step (Stmt_Error s) L = demand (stmts L s \<noteq> None) (Some L)"
| "ledger_step (Result_Metadata s) L = demand (stmts L s \<noteq> None) (Some (L\<lparr>metas := insert s (metas L)\<rparr>))"
| "ledger_step (Free_Result s) L = demand (s \<in> metas L) (Some (L\<lparr>metas := metas L - {s}\<rparr>))"
| "ledger_step (Stmt_Close s) L =
     (case stmts L s of
        None \<Rightarrow> None
      | Some c \<Rightarrow> demand (c \<in> conns L) (Some (L\<lparr>stmts := (stmts L)(s := None)\<rparr>)))"
| "ledger_step (New_Node n name) L = demand (fresh_in L n) (Some (L\<lparr>nodes := (nodes L)(n := Some (Elem name []))\<rparr>))"
| "ledger_step (New_Text n s) L = demand (fresh_in L n) (Some (L\<lparr>nodes := (nodes L)(n := Some (Text s))\<rparr>))"
| "ledger_step (New_Ns n href) L = demand (nodes L n \<noteq> None \<and> nss L n = None) (Some (L\<lparr>nss := (nss L)(n := Some href)\<rparr>))"
| "ledger_step (Set_Prop n name val) L =
     (case nodes L n of
        None \<Rightarrow> None
      | Some x \<Rightarrow> Some (L\<lparr>nodes := (nodes L)(n := Some (node_call_on (New_Prop name val) x))\<rparr>))"
| "ledger_step (Append_Child p c) L = append_child p c L"
| "ledger_step (Free_Node n) L =
     demand (nodes L n \<noteq> None \<or> pis L n \<noteq> None)
       (Some (L\<lparr>nodes := (nodes L)(n := None), nss := (nss L)(n := None), pis := (pis L)(n := None)\<rparr>))"
| "ledger_step (New_Doc d version) L = demand (fresh_in L d) (Some (L\<lparr>versions := (versions L)(d := Some version)\<rparr>))"
| "ledger_step (Set_Root d n) L =
     (case (versions L d, nodes L n) of
        (Some version, Some x) \<Rightarrow>
          Some (L\<lparr>versions := (versions L)(d := None), nodes := (nodes L)(n := None), nss := (nss L)(n := None),
            docs := (docs L)(d := Some (n, \<lparr>doc_version = version, doc_ns = nss L n, doc_root = x, doc_pis = []\<rparr>)),
            roots := (roots L)(n := Some d)\<rparr>)
      | _ \<Rightarrow> None)"
| "ledger_step (New_PI n name content) L = demand (fresh_in L n) (Some (L\<lparr>pis := (pis L)(n := Some (name, content))\<rparr>))"
| "ledger_step (Prepend_Sibling p n) L =
     (case (pis L n, roots L p) of
        (Some x, Some d) \<Rightarrow> (case docs L d of
            None \<Rightarrow> None
          | Some (r, doc) \<Rightarrow>
              Some (L\<lparr>pis := (pis L)(n := None), docs := (docs L)(d := Some (r, doc\<lparr>doc_pis := doc_pis doc @ [x]\<rparr>))\<rparr>))
      | _ \<Rightarrow> None)"
| "ledger_step (Dump_Doc d m) L = demand (docs L d \<noteq> None \<and> fresh_in L m) (Some (L\<lparr>mems := insert m (mems L)\<rparr>))"
| "ledger_step (Free_Mem m) L = demand (m \<in> mems L) (Some (L\<lparr>mems := mems L - {m}\<rparr>))"
| "ledger_step (Free_Doc d) L =
     (case docs L d of
        None \<Rightarrow> None
      | Some (r, doc) \<Rightarrow> Some (L\<lparr>docs := (docs L)(d := None), roots := (roots L)(r := None)\<rparr>))"

fun replay :: "lib_call list \<Rightarrow> ledger \<Rightarrow> ledger option" where
  "replay [] L = Some L"
| "replay (c # cs) L = Option.bind (ledger_step c L) (replay cs)"

lemma replay_append [simp]: "replay (cs @ ds) L = Option.bind (replay cs L) (replay ds)"
proof (induction cs arbitrary: L)
  case (Cons c cs)
  then show ?case by (cases "ledger_step c L") simp_all
qed simp

lemma replay_one [simp]: "replay [c] L = ledger_step c L"
  by (cases "ledger_step c L") simp_all

section \<open>The state of a handler\<close>

text \<open>
  The calls so far, the next pointer, and the field \<open>m_node\<close> of the objects of class
  \<open>XMLNode\<close> and \<open>XMLText\<close>; an object is named by the node it was made for.
\<close>

record world =
  trace :: "lib_call list"
  next_ptr :: nat
  m_node :: "nat \<Rightarrow> nat"

definition new_world :: world where
  "new_world = \<lparr>trace = [], next_ptr = 1, m_node = (\<lambda>_. 0)\<rparr>"

definition after :: "lib_call \<Rightarrow> world \<Rightarrow> world" where
  "after c w = w\<lparr>trace := trace w @ [c]\<rparr>"

definition call :: "lib_call \<Rightarrow> (world, unit) prog" where
  "call c w = (Done (), after c w)"

definition new_ptr :: "(world, nat) prog" where
  "new_ptr w = (Done (next_ptr w), w\<lparr>next_ptr := next_ptr w + 1\<rparr>)"

section \<open>Log messages\<close>

text \<open>The logger hands a message over as a C string, the argument of the format \<open>%s\<close>.\<close>

definition Logger_new :: "(world, unit) prog" where
  "Logger_new = call (Openlog ''wp_frontend'')"

definition Logger_delete :: "(world, unit) prog" where
  "Logger_delete = call Closelog"

definition log_info :: "string \<Rightarrow> (world, unit) prog" where
  "log_info msg = call (Syslog LOG_INFO ''%s'' (c_str msg))"

definition log_error :: "string \<Rightarrow> (world, unit) prog" where
  "log_error msg = call (Syslog LOG_ERR ''%s'' (c_str msg))"

definition log_warn :: "string \<Rightarrow> (world, unit) prog" where
  "log_warn msg = call (Syslog LOG_WARNING ''%s'' (c_str msg))"

definition log_debug :: "string \<Rightarrow> (world, unit) prog" where
  "log_debug msg = call (Syslog LOG_DEBUG ''%s'' (c_str msg))"

text \<open>With \<open>SQLDEBUG\<close>, as the server is built.\<close>

definition LogSQL :: "string \<Rightarrow> (world, unit) prog" where
  "LogSQL x = log_info (''SQL: '' @ x)"

section \<open>XML nodes\<close>

definition XMLText_make :: "string \<Rightarrow> (world, nat) prog" where
  "XMLText_make content =
     bnd new_ptr (\<lambda>n. bnd (call (New_Text n content)) (\<lambda>_ w. (Done n, w\<lparr>m_node := (m_node w)(n := n)\<rparr>)))"

text \<open>The object is gone afterwards, and its field with it.\<close>

definition XMLText_destroy :: "nat \<Rightarrow> (world, unit) prog" where
  "XMLText_destroy x w =
     (if m_node w x \<noteq> 0 then call (Free_Node (m_node w x)) (w\<lparr>m_node := (m_node w)(x := 0)\<rparr>) else (Done (), w))"

definition XMLText_get :: "nat \<Rightarrow> (world, nat) prog" where
  "XMLText_get x w = (Done (m_node w x), w)"

definition XMLText_release :: "nat \<Rightarrow> (world, nat) prog" where
  "XMLText_release x w = (Done (m_node w x), w\<lparr>m_node := (m_node w)(x := 0)\<rparr>)"

definition XMLNode_wrap :: "nat \<Rightarrow> (world, nat) prog" where
  "XMLNode_wrap n w = (Done n, w\<lparr>m_node := (m_node w)(n := n)\<rparr>)"

definition XMLNode_make :: "string \<Rightarrow> (world, nat) prog" where
  "XMLNode_make name = bnd new_ptr (\<lambda>n. bnd (call (New_Node n (c_str name))) (\<lambda>_. XMLNode_wrap n))"

definition XMLNode_destroy :: "nat \<Rightarrow> (world, unit) prog" where
  "XMLNode_destroy x w =
     (if m_node w x \<noteq> 0 then call (Free_Node (m_node w x)) (w\<lparr>m_node := (m_node w)(x := 0)\<rparr>) else (Done (), w))"

definition XMLNode_get :: "nat \<Rightarrow> (world, nat) prog" where
  "XMLNode_get x w = (Done (m_node w x), w)"

definition XMLNode_release :: "nat \<Rightarrow> (world, nat) prog" where
  "XMLNode_release x w = (Done (m_node w x), w\<lparr>m_node := (m_node w)(x := 0)\<rparr>)"

definition XMLNode_add :: "nat \<Rightarrow> nat \<Rightarrow> (world, unit) prog" where
  "XMLNode_add x child = bnd (XMLNode_get x) (\<lambda>p. call (Append_Child p child))"

definition XMLNode_add_text :: "nat \<Rightarrow> string \<Rightarrow> (world, unit) prog" where
  "XMLNode_add_text x content =
     scope (XMLText_make content) XMLText_destroy (\<lambda>t.
       bnd (XMLText_get t) (\<lambda>p.
       bnd (XMLNode_add x p) (\<lambda>_.
       bnd (XMLText_release t) (\<lambda>_. ret ()))))"

definition XMLNode_set_attr :: "nat \<Rightarrow> string \<Rightarrow> string \<Rightarrow> (world, unit) prog" where
  "XMLNode_set_attr x name val = bnd (XMLNode_get x) (\<lambda>p. call (Set_Prop p (c_str name) (c_str val)))"

definition XMLNode_set_attr_int :: "nat \<Rightarrow> string \<Rightarrow> int \<Rightarrow> (world, unit) prog" where
  "XMLNode_set_attr_int x name val = XMLNode_set_attr x name (show_int val)"

section \<open>XML documents\<close>

text \<open>An object is the pair of \<open>m_doc\<close> and \<open>m_root\<close>.\<close>

definition XMLDoc_make :: "string \<Rightarrow> string \<Rightarrow> (world, nat \<times> nat) prog" where
  "XMLDoc_make rootname version =
     bnd new_ptr (\<lambda>d.
     bnd (call (New_Doc d (c_str version))) (\<lambda>_.
       scope (XMLNode_make rootname) XMLNode_destroy (\<lambda>root.
         bnd (XMLNode_get root) (\<lambda>r.
         bnd (call (Set_Root d r)) (\<lambda>_.
         bnd (XMLNode_release root) (\<lambda>_. ret (d, r)))))))"

definition XMLDoc_make_ns :: "string \<Rightarrow> string \<Rightarrow> string \<Rightarrow> (world, nat \<times> nat) prog" where
  "XMLDoc_make_ns rootname rootns version =
     bnd new_ptr (\<lambda>d.
     bnd (call (New_Doc d (c_str version))) (\<lambda>_.
       scope (XMLNode_make rootname) XMLNode_destroy (\<lambda>root.
         bnd (XMLNode_get root) (\<lambda>n.
         bnd (call (New_Ns n (c_str rootns))) (\<lambda>_.
         bnd (XMLNode_get root) (\<lambda>r.
         bnd (call (Set_Root d r)) (\<lambda>_.
         bnd (XMLNode_release root) (\<lambda>_. ret (d, r)))))))))"

definition XMLDoc_add :: "nat \<times> nat \<Rightarrow> nat \<Rightarrow> (world, unit) prog" where
  "XMLDoc_add doc node = call (Append_Child (snd doc) node)"

definition XMLDoc_add_pi :: "nat \<times> nat \<Rightarrow> string \<Rightarrow> string \<Rightarrow> (world, unit) prog" where
  "XMLDoc_add_pi doc name content =
     scope (bnd new_ptr (\<lambda>n. bnd (call (New_PI n (c_str name) (c_str content))) (\<lambda>_. XMLNode_wrap n))) XMLNode_destroy (\<lambda>PI.
       bnd (XMLNode_get PI) (\<lambda>p.
       bnd (call (Prepend_Sibling (snd doc) p)) (\<lambda>_.
       bnd (XMLNode_release PI) (\<lambda>_. ret ()))))"

definition XMLDoc_destroy :: "nat \<times> nat \<Rightarrow> (world, unit) prog" where
  "XMLDoc_destroy doc = call (Free_Doc (fst doc))"

text \<open>\<open>operator<<\<close>: the library gives the text of the document as it then is, or NULL.\<close>

definition XMLDoc_write :: "(lib_call list \<Rightarrow> nat \<Rightarrow> string option) \<Rightarrow> nat \<times> nat \<Rightarrow> (world, unit) prog" where
  "XMLDoc_write dump_memory doc =
     bnd new_ptr (\<lambda>mem w.
       (case dump_memory (trace w) (fst doc) of
          None \<Rightarrow> raise (Runtime_Error ''cannot serialize document'') w
        | Some s \<Rightarrow>
            bnd (call (Dump_Doc (fst doc) mem)) (\<lambda>_.
            bnd (call (Write s)) (\<lambda>_. call (Free_Mem mem))) w))"

text \<open>\<open>parent.add(child.release())\<close>\<close>

definition give :: "nat \<Rightarrow> nat \<Rightarrow> (world, unit) prog" where
  "give child parent = bnd (XMLNode_release child) (XMLNode_add parent)"

definition give_doc :: "nat \<Rightarrow> nat \<times> nat \<Rightarrow> (world, unit) prog" where
  "give_doc child doc = bnd (XMLNode_release child) (XMLDoc_add doc)"

section \<open>Connections and statements\<close>

text \<open>\<open>DBConnHolder\<close>: the connection's pointer, and the connection that \<open>DBPool::get\<close> gives.\<close>

definition DBConnHolder_make :: "mysql outcome \<Rightarrow> (world, nat \<times> mysql) prog" where
  "DBConnHolder_make pool_get =
     bnd (of_outcome pool_get) (\<lambda>conn.
     bnd new_ptr (\<lambda>c.
     bnd (call (Pool_Get c)) (\<lambda>_. ret (c, conn))))"

definition DBConnHolder_destroy :: "nat \<times> mysql \<Rightarrow> (world, unit) prog" where
  "DBConnHolder_destroy holder = call (Pool_Put (fst holder))"

text \<open>
  A statement is created, logged and prepared; when that fails, the exception takes its text from the
  statement. The description of the result exists for statements with result columns.
\<close>

definition DBStmt_make :: "nat \<times> mysql \<Rightarrow> string \<Rightarrow> (world, nat \<times> db_stmt) prog" where
  "DBStmt_make holder sql =
     bnd new_ptr (\<lambda>s.
     bnd (call (Stmt_Init s (fst holder))) (\<lambda>_.
     bnd (LogSQL sql) (\<lambda>_.
     bnd (call (Stmt_Prepare s)) (\<lambda>_.
       (case DBStmt_new (snd holder) sql of
          Throws e \<Rightarrow> bnd (call (Stmt_Error s)) (\<lambda>_. raise e)
        | r \<Rightarrow> bnd (of_outcome r) (\<lambda>st.
            bnd (if m_column_data st \<noteq> [] then call (Result_Metadata s) else ret ()) (\<lambda>_. ret (s, st))))))))"

text \<open>\<open>close_error\<close> is what closing the statement of a text gives, and the text its handle then
  holds; the handle has been freed by the call.\<close>

definition DBStmt_destroy :: "(string \<Rightarrow> string option) \<Rightarrow> nat \<times> db_stmt \<Rightarrow> (world, unit) prog" where
  "DBStmt_destroy close_error stmt =
     bnd (if m_column_data (snd stmt) \<noteq> [] then call (Free_Result (fst stmt)) else ret ()) (\<lambda>_.
     bnd (call (Stmt_Close (fst stmt))) (\<lambda>_.
       (case close_error (m_stmt (snd stmt)) of
          None \<Rightarrow> ret ()
        | Some msg \<Rightarrow> bnd (call (Stmt_Error (fst stmt))) (\<lambda>_. raise (Db_Exception msg ''stmt_close'')))))"

text \<open>The loop \<open>while(stmt.fetch())\<close>.\<close>

function fetching :: "(db_stmt \<Rightarrow> (world, unit) prog) \<Rightarrow> db_stmt \<Rightarrow> (world, unit) prog" where
  "fetching body st =
     (case fetch st of
        Returns (got, st') \<Rightarrow> (if got then bnd (body st') (\<lambda>_. fetching body st') else ret ())
      | Throws e \<Rightarrow> raise e
      | Undefined \<Rightarrow> of_outcome Undefined
      | Diverges \<Rightarrow> of_outcome Diverges)"
  by pat_completeness auto
termination
  by (relation "measure (\<lambda>(_, st). length (m_rows st))") (auto dest: fetch_decreases)

declare fetching.simps [simp del]

end
