(* ===== verification/Ownership.thy ===== *)
theory Ownership
  imports Lib_Calls
begin

text \<open>
  What the objects of a handler own: the constructors and destructors of
  \<^theory_text>\<open>Lib_Calls\<close> keep to the terms of the libraries, and their effects on the ledger.
  \<open>view\<close> relates the ledger to the calls that have been made.
\<close>

section \<open>The view of a state\<close>

definition view :: "ledger \<Rightarrow> world \<Rightarrow> bool" where
  "view L w \<longleftrightarrow> replay (trace w) empty_ledger = Some L \<and>
     (\<forall>n. m_node w n = (if nodes L n \<noteq> None \<or> pis L n \<noteq> None then n else 0)) \<and>
     0 < next_ptr w \<and> fresh_in L 0 \<and> (\<forall>n. next_ptr w \<le> n \<longrightarrow> fresh_in L n)"

lemma view_new_world: "view empty_ledger new_world"
  by (simp add: view_def new_world_def empty_ledger_def fresh_in_def)

lemma call_apply [run]: "call c w = (Done (), after c w)"
  by (simp add: call_def)

lemma after_simps [simp]:
  "trace (after c w) = trace w @ [c]" "next_ptr (after c w) = next_ptr w" "m_node (after c w) = m_node w"
  "(after c w)\<lparr>m_node := f\<rparr> = after c (w\<lparr>m_node := f\<rparr>)"
  by (simp_all add: after_def)

lemma new_ptr_apply [run]: "new_ptr w = (Done (next_ptr w), w\<lparr>next_ptr := next_ptr w + 1\<rparr>)"
  by (simp add: new_ptr_def)

lemma view_next: "view L w \<Longrightarrow> fresh_in L (next_ptr w) \<and> next_ptr w \<noteq> 0"
  by (simp add: view_def)

lemma view_get: "view L w \<Longrightarrow> nodes L n \<noteq> None \<or> pis L n \<noteq> None \<Longrightarrow> m_node w n = n \<and> n \<noteq> 0"
  by (cases "n = 0") (auto simp: view_def fresh_in_def)

text \<open>A call that changes neither which nodes are detached nor what is fresh.\<close>

lemma view_call:
  assumes "view L w" "ledger_step c L = Some L'"
    and "\<And>n. nodes L' n \<noteq> None \<or> pis L' n \<noteq> None \<longleftrightarrow> nodes L n \<noteq> None \<or> pis L n \<noteq> None"
    and "\<And>n. fresh_in L n \<Longrightarrow> fresh_in L' n"
  shows "view L' (after c w)"
  using assms by (simp add: view_def)

section \<open>Objects in scope\<close>

datatype scoped = A_Node nat | A_Doc "nat \<times> nat" | A_Stmt "nat \<times> db_stmt" | A_Conn "nat \<times> mysql"

fun has :: "scoped \<Rightarrow> ledger \<Rightarrow> bool" where
  "has (A_Node n) L \<longleftrightarrow> (nodes L n = None \<and> pis L n = None \<longrightarrow> nss L n = None)"
| "has (A_Doc x) L \<longleftrightarrow> (\<exists>doc. docs L (fst x) = Some (snd x, doc))"
| "has (A_Stmt x) L \<longleftrightarrow> (\<exists>c \<in> conns L. stmts L (fst x) = Some c) \<and> (m_column_data (snd x) \<noteq> [] \<longrightarrow> fst x \<in> metas L)"
| "has (A_Conn x) L \<longleftrightarrow> fst x \<in> conns L"

fun dropped :: "scoped \<Rightarrow> ledger \<Rightarrow> ledger" where
  "dropped (A_Node n) L = L\<lparr>nodes := (nodes L)(n := None), nss := (nss L)(n := None), pis := (pis L)(n := None)\<rparr>"
| "dropped (A_Doc x) L = L\<lparr>docs := (docs L)(fst x := None), roots := (roots L)(snd x := None)\<rparr>"
| "dropped (A_Stmt x) L = L\<lparr>metas := (if m_column_data (snd x) \<noteq> [] then metas L - {fst x} else metas L),
     stmts := (stmts L)(fst x := None)\<rparr>"
| "dropped (A_Conn x) L = L\<lparr>conns := conns L - {fst x}\<rparr>"

text \<open>At a point inside the scope of an object: what follows of a condition after its destructor.\<close>

definition within :: "scoped \<Rightarrow> (ledger \<Rightarrow> bool) \<Rightarrow> ledger \<Rightarrow> bool" where
  "within x E L \<longleftrightarrow> has x L \<and> E (dropped x L)"

definition dead :: "nat \<Rightarrow> ledger \<Rightarrow> bool" where
  "dead n L \<longleftrightarrow> nodes L n = None \<and> pis L n = None \<and> nss L n = None"

lemma within_dead [simp]: "dead n L \<Longrightarrow> within (A_Node n) E L = E L"
  by (simp add: within_def dead_def fun_upd_idem)

lemma dead_update [simp]: "dead n (L\<lparr>nodes := (nodes L)(p := Some v)\<rparr>) \<longleftrightarrow> n \<noteq> p \<and> dead n L"
  "dead n (L\<lparr>docs := ds\<rparr>) \<longleftrightarrow> dead n L"
  by (simp_all add: dead_def)

lemma within_new: "fresh_in L n \<Longrightarrow> within (A_Node n) E (L\<lparr>nodes := (nodes L)(n := Some v)\<rparr>) = E L"
  by (simp add: within_def fresh_in_def fun_upd_idem)

lemma node_destroyed:
  assumes "view L w" "has (A_Node n) L"
  shows "\<exists>w'. XMLNode_destroy n w = (Done (), w') \<and> view (dropped (A_Node n) L) w'"
proof (cases "nodes L n \<noteq> None \<or> pis L n \<noteq> None")
  case True
  then have "m_node w n = n" "n \<noteq> 0" using view_get[OF assms(1)] by auto
  then show ?thesis using assms(1) True
    by (auto simp: XMLNode_destroy_def run view_def demand_def fresh_in_def)
next
  case False
  then have "dropped (A_Node n) L = L" using assms(2) by (metis dropped.simps(1) has.simps(1) fun_upd_triv ledger.surjective ledger.update_convs(6,7,8))
  moreover have "m_node w n = 0" using False assms(1) by (auto simp: view_def)
  ultimately show ?thesis using assms(1) by (simp add: XMLNode_destroy_def)
qed

lemma XMLText_is_XMLNode: "XMLText_destroy = XMLNode_destroy" "XMLText_get = XMLNode_get" "XMLText_release = XMLNode_release"
  by (intro ext, simp add: XMLText_destroy_def XMLNode_destroy_def XMLText_get_def XMLNode_get_def
      XMLText_release_def XMLNode_release_def)+

lemma doc_destroyed:
  assumes "view L w" "has (A_Doc x) L"
  shows "\<exists>w'. XMLDoc_destroy x w = (Done (), w') \<and> view (dropped (A_Doc x) L) w'"
proof -
  have "view (dropped (A_Doc x) L) (after (Free_Doc (fst x)) w)"
    by (rule view_call[OF assms(1)]) (use assms(2) in \<open>auto simp: fresh_in_def\<close>)
  then show ?thesis by (simp add: XMLDoc_destroy_def run)
qed

lemma stmt_closed:
  assumes "view L w" "stmts L s = Some c" "c \<in> conns L"
  shows "view (L\<lparr>stmts := (stmts L)(s := None)\<rparr>) (after (Stmt_Close s) w)"
  by (rule view_call[OF assms(1)]) (use assms(2,3) in \<open>auto simp: fresh_in_def demand_def\<close>)

lemma stmt_destroyed:
  assumes "close_error (m_stmt (snd x)) = None" "view L w" "has (A_Stmt x) L"
  shows "\<exists>w'. DBStmt_destroy close_error x w = (Done (), w') \<and> view (dropped (A_Stmt x) L) w'"
proof -
  obtain c where c: "stmts L (fst x) = Some c" "c \<in> conns L" using assms(3) by auto
  show ?thesis
  proof (cases "m_column_data (snd x) = []")
    case True
    then show ?thesis using stmt_closed[OF assms(2) c] assms(1) by (simp add: DBStmt_destroy_def run)
  next
    case False
    have "view (L\<lparr>metas := metas L - {fst x}\<rparr>) (after (Free_Result (fst x)) w)"
      by (rule view_call[OF assms(2)]) (use assms(3) False in \<open>auto simp: fresh_in_def demand_def\<close>)
    from stmt_closed[OF this] show ?thesis using False assms(1) c by (simp add: DBStmt_destroy_def run)
  qed
qed

lemma conn_destroyed:
  assumes "view L w" "has (A_Conn x) L"
  shows "\<exists>w'. DBConnHolder_destroy x w = (Done (), w') \<and> view (dropped (A_Conn x) L) w'"
proof -
  have "view (dropped (A_Conn x) L) (after (Pool_Put (fst x)) w)"
    by (rule view_call[OF assms(1)]) (use assms(2) in \<open>auto simp: fresh_in_def demand_def\<close>)
  then show ?thesis by (simp add: DBConnHolder_destroy_def run)
qed

section \<open>Constructors\<close>

definition new_node :: "xml_node \<Rightarrow> nat \<Rightarrow> ledger \<Rightarrow> ledger \<Rightarrow> bool" where
  "new_node v n L L' \<longleftrightarrow> fresh_in L n \<and> L' = L\<lparr>nodes := (nodes L)(n := Some v)\<rparr>"

lemma node_constructed:
  assumes "view L w"
  shows "\<exists>n w' L'. XMLNode_make name w = (Done n, w') \<and> view L' w' \<and> new_node (XMLNode_new name) n L L'"
  using assms view_next[OF assms]
  by (auto simp: XMLNode_make_def XMLNode_wrap_def run view_def demand_def fresh_in_def XMLNode_new_def new_node_def)

lemma text_constructed:
  assumes "view L w"
  shows "\<exists>n w' L'. XMLText_make content w = (Done n, w') \<and> view L' w' \<and> new_node (Text content) n L L'"
  using assms view_next[OF assms]
  by (auto simp: XMLText_make_def run view_def demand_def fresh_in_def new_node_def)

interpretation xml_node: scoped_class view XMLNode_destroy "\<lambda>n. has (A_Node n)" "\<lambda>n. dropped (A_Node n)"
  "XMLNode_make name" "new_node (XMLNode_new name)" for name
  by unfold_locales (use node_destroyed node_constructed in blast)+

interpretation xml_text: scoped_class view XMLText_destroy "\<lambda>n. has (A_Node n)" "\<lambda>n. dropped (A_Node n)"
  "XMLText_make content" "new_node (Text content)" for content
  by unfold_locales (use node_destroyed text_constructed in \<open>unfold XMLText_is_XMLNode(1), blast\<close>)+

interpretation conn_holder: destructible view DBConnHolder_destroy "\<lambda>x. has (A_Conn x)" "\<lambda>x. dropped (A_Conn x)"
  by unfold_locales (rule conn_destroyed)

section \<open>Operations\<close>

lemma corr_call:
  assumes "ledger_step c L = Some L'"
    and "\<And>n. nodes L' n \<noteq> None \<or> pis L' n \<noteq> None \<longleftrightarrow> nodes L n \<noteq> None \<or> pis L n \<noteq> None"
    and "\<And>n. fresh_in L n \<Longrightarrow> fresh_in L' n"
  shows "corr view L (call c) (Returns ()) (\<lambda>_ _ L1. L1 = L') E"
  using view_call[OF _ assms] by (auto simp: corr_def run)

lemma corr_log [corr_intros]:
  "corr view L (log_info msg) (Returns ()) (\<lambda>_ _ L1. L1 = L) E"
  "corr view L (log_error msg) (Returns ()) (\<lambda>_ _ L1. L1 = L) E"
  "corr view L (LogSQL msg) (Returns ()) (\<lambda>_ _ L1. L1 = L) E"
  unfolding log_info_def log_error_def LogSQL_def by (rule corr_call; simp)+

lemma corr_write: "corr view L (call (Write s)) (Returns ()) (\<lambda>_ _ L1. L1 = L\<lparr>sent := sent L @ s\<rparr>) E"
  by (rule corr_call) (simp_all add: fresh_in_def)

lemma corr_set_attr:
  assumes "nodes L x = Some u"
  shows "corr view L (XMLNode_set_attr x name val) (Returns ()) (\<lambda>_ _ L1. L1 = L\<lparr>nodes := (nodes L)(x := Some (set_attr name val u))\<rparr>) E"
proof (rule corrI)
  fix w assume v: "view L w"
  have "view (L\<lparr>nodes := (nodes L)(x := Some (set_attr name val u))\<rparr>) (after (Set_Prop x (c_str name) (c_str val)) w)"
    by (rule view_call[OF v]) (use assms in \<open>auto simp: set_attr_def fresh_in_def\<close>)
  then show "ends_as view (\<lambda>_ _ L1. L1 = L\<lparr>nodes := (nodes L)(x := Some (set_attr name val u))\<rparr>) E (Returns ())
      (XMLNode_set_attr x name val w)"
    using view_get[OF v, of x] assms by (simp add: XMLNode_set_attr_def XMLNode_get_def run bnd_Done)
qed

text \<open>A child that is handed over and forgotten by its object, in either order.\<close>

lemma child_given:
  assumes "view L w" "nodes L c = Some v" "nss L c = None" "pis L c = None" "nodes L x = Some u" "x \<noteq> c"
  shows "view (L\<lparr>nodes := (nodes L)(c := None, x := Some (node_add v u))\<rparr>)
    (after (Append_Child x c) (w\<lparr>m_node := (m_node w)(c := 0)\<rparr>))"
  using assms view_get[OF assms(1), of x] by (auto simp: view_def append_child_def demand_def fresh_in_def)

lemma corr_give:
  assumes "nodes L c = Some v" "nss L c = None" "pis L c = None" "nodes L x = Some u" "x \<noteq> c"
  shows "corr view L (bnd (XMLNode_release c) (XMLNode_add x)) (Returns ())
    (\<lambda>_ _ L1. L1 = L\<lparr>nodes := (nodes L)(c := None, x := Some (node_add v u))\<rparr>) E"
proof (rule corrI)
  fix w assume v: "view L w"
  show "ends_as view (\<lambda>_ _ L1. L1 = L\<lparr>nodes := (nodes L)(c := None, x := Some (node_add v u))\<rparr>) E (Returns ())
      (bnd (XMLNode_release c) (XMLNode_add x) w)"
    using child_given[OF v assms] view_get[OF v, of c] view_get[OF v, of x] assms
    by (simp add: XMLNode_release_def XMLNode_add_def XMLNode_get_def run bnd_Done)
qed

lemma corr_add_text:
  assumes "nodes L x = Some u" "pis L x = None"
  shows "corr view L (XMLNode_add_text x s) (Returns ()) (\<lambda>_ _ L1. L1 = L\<lparr>nodes := (nodes L)(x := Some (add_text s u))\<rparr>) E"
  unfolding XMLNode_add_text_def
proof (rule xml_text.scope_corr)
  fix t L1 assume "new_node (Text s) t L L1"
  then have f: "fresh_in L t" and L1: "L1 = L\<lparr>nodes := (nodes L)(t := Some (Text s))\<rparr>" by (simp_all add: new_node_def)
  then have "x \<noteq> t" using assms by (auto simp: fresh_in_def)
  show "corr view L1 (bnd (XMLText_get t) (\<lambda>p. bnd (XMLNode_add x p) (\<lambda>_. bnd (XMLText_release t) (\<lambda>_. ret ()))))
      (Returns ())
      (\<lambda>a b l2. has (A_Node t) l2 \<and> dropped (A_Node t) l2 = L\<lparr>nodes := (nodes L)(x := Some (add_text s u))\<rparr>)
      (\<lambda>e l2. has (A_Node t) l2 \<and> E e (dropped (A_Node t) l2))"
  proof (rule corrI)
    fix w assume v: "view L1 w"
    have "nodes L1 t = Some (Text s)" "nss L1 t = None" "pis L1 t = None" "nodes L1 x = Some u"
      using f assms \<open>x \<noteq> t\<close> by (simp_all add: L1 fresh_in_def)
    note child_given[OF v this \<open>x \<noteq> t\<close>] view_get[OF v, of t] view_get[OF v, of x]
    moreover have "nodes L t = None" "nss L t = None" "pis L t = None" using f by (simp_all add: fresh_in_def)
    ultimately show "ends_as view (\<lambda>a b l2. has (A_Node t) l2 \<and> dropped (A_Node t) l2 = L\<lparr>nodes := (nodes L)(x := Some (add_text s u))\<rparr>)
        (\<lambda>e l2. has (A_Node t) l2 \<and> E e (dropped (A_Node t) l2)) (Returns ())
        (bnd (XMLText_get t) (\<lambda>p. bnd (XMLNode_add x p) (\<lambda>_. bnd (XMLText_release t) (\<lambda>_. ret ()))) w)"
      using assms \<open>x \<noteq> t\<close>
      by (auto simp: XMLText_is_XMLNode XMLNode_release_def XMLNode_add_def XMLNode_get_def run bnd_Done
          L1 add_text_def fun_upd_idem fun_upd_twist intro!: exI)
  qed
qed

end
