(* ===== verification/Handler_Objects.thy ===== *)
theory Handler_Objects
  imports Ownership
begin

text \<open>
  What the constructors and the operations of documents, connections and statements do with the
  ledger, and the contracts of these classes; the loops over rows.
\<close>

section \<open>Documents\<close>

definition doc_at :: "nat \<times> nat \<Rightarrow> xml_doc \<Rightarrow> ledger \<Rightarrow> bool" where
  "doc_at x doc L \<longleftrightarrow> docs L (fst x) = Some (snd x, doc) \<and> roots L (snd x) = Some (fst x) \<and> nodes L (snd x) = None"

definition new_doc :: "xml_doc \<Rightarrow> nat \<times> nat \<Rightarrow> ledger \<Rightarrow> ledger \<Rightarrow> bool" where
  "new_doc doc x L L1 \<longleftrightarrow> fresh_in L (fst x) \<and> fresh_in L (snd x) \<and>
     L1 = L\<lparr>docs := (docs L)(fst x := Some (snd x, doc)), roots := (roots L)(snd x := Some (fst x))\<rparr>"

text \<open>A call on a pointer taken anew.\<close>

lemma corr_new:
  assumes "\<And>n. fresh_in L n \<Longrightarrow> ledger_step (c n) L = Some (F n)"
    and "\<And>n m. fresh_in L n \<Longrightarrow> nodes (F n) m \<noteq> None \<or> pis (F n) m \<noteq> None \<longleftrightarrow> nodes L m \<noteq> None \<or> pis L m \<noteq> None"
    and "\<And>n m. m \<noteq> n \<Longrightarrow> fresh_in L m \<Longrightarrow> fresh_in (F n) m"
    and "\<And>n. fresh_in L n \<Longrightarrow> corr view (F n) (k n) r Q E"
  shows "corr view L (bnd new_ptr (\<lambda>n. bnd (call (c n)) (\<lambda>_. k n))) r Q E"
proof (rule corrI)
  fix w assume v: "view L w"
  let ?n = "next_ptr w"
  have f: "fresh_in L ?n" using view_next[OF v] by simp
  have "view (F ?n) (after (c ?n) (w\<lparr>next_ptr := ?n + 1\<rparr>))"
    using v assms(1,2)[OF f] assms(3)[of _ ?n] by (simp add: view_def)
  from corrD[OF assms(4)[OF f] this]
  show "ends_as view Q E r (bnd new_ptr (\<lambda>n. bnd (call (c n)) (\<lambda>_. k n)) w)"
    by (simp add: run bnd_Done)
qed

text \<open>The root element of a new document.\<close>

definition takes_root :: "nat \<Rightarrow> nat \<Rightarrow> ledger \<Rightarrow> ledger" where
  "takes_root d n L = L\<lparr>versions := (versions L)(d := None), nodes := (nodes L)(n := None), nss := (nss L)(n := None),
     docs := (docs L)(d := Some (n, \<lparr>doc_version = the (versions L d), doc_ns = nss L n, doc_root = the (nodes L n), doc_pis = []\<rparr>)),
     roots := (roots L)(n := Some d)\<rparr>"

lemma corr_root:
  assumes "versions L d \<noteq> None" "nodes L n \<noteq> None" "pis L n = None"
  shows "corr view L (bnd (XMLNode_get n) (\<lambda>r. bnd (call (Set_Root d r)) (\<lambda>_. bnd (XMLNode_release n) (\<lambda>_. ret (d, r)))))
    (Returns ()) (\<lambda>x _ L1. x = (d, n) \<and> L1 = takes_root d n L) E"
proof (rule corrI)
  fix w assume v: "view L w"
  then have "d \<noteq> 0" using assms(1) by (cases "d = 0") (auto simp: view_def fresh_in_def)
  then have "view (takes_root d n L) (after (Set_Root d n) (w\<lparr>m_node := (m_node w)(n := 0)\<rparr>))"
    using v assms view_get[OF v, of n] by (auto simp: view_def takes_root_def fresh_in_def)
  then show "ends_as view (\<lambda>x _ L1. x = (d, n) \<and> L1 = takes_root d n L) E (Returns ())
      (bnd (XMLNode_get n) (\<lambda>r. bnd (call (Set_Root d r)) (\<lambda>_. bnd (XMLNode_release n) (\<lambda>_. ret (d, r)))) w)"
    using view_get[OF v, of n] assms(2)
    by (auto simp: XMLNode_get_def XMLNode_release_def run bnd_Done)
qed

lemma new_doc_made:
  assumes "fresh_in L d" "fresh_in L n" "d \<noteq> n" "L1 = L\<lparr>versions := (versions L)(d := Some v), nodes := (nodes L)(n := Some u)\<rparr>"
  shows "new_doc \<lparr>doc_version = v, doc_ns = None, doc_root = u, doc_pis = []\<rparr> (d, n) L (takes_root d n L1)"
    "new_doc \<lparr>doc_version = v, doc_ns = Some h, doc_root = u, doc_pis = []\<rparr> (d, n) L
       (takes_root d n (L1\<lparr>nss := (nss L1)(n := Some h)\<rparr>))"
  using assms by (auto simp: new_doc_def takes_root_def fresh_in_def fun_upd_idem fun_upd_twist)

lemma root_made:
  assumes "fresh_in L d" "new_node u n (L\<lparr>versions := (versions L)(d := Some v)\<rparr>) L1"
  shows "fresh_in L n" "d \<noteq> n" "L1 = L\<lparr>versions := (versions L)(d := Some v), nodes := (nodes L)(n := Some u)\<rparr>"
    "nodes L1 n = Some u" "pis L1 n = None" "nss L1 n = None" "versions L1 d = Some v"
  using assms by (auto simp: new_node_def fresh_in_def split: if_splits)

lemma takes_root_dropped: "pis L n = None \<Longrightarrow> has (A_Node n) (takes_root d n L) \<and> dropped (A_Node n) (takes_root d n L) = takes_root d n L"
  by (simp add: takes_root_def fun_upd_idem)

lemma corr_doc_make:
  "corr view L (XMLDoc_make rootname version) (Returns ()) (\<lambda>x _ L1. new_doc (XMLDoc_new rootname version) x L L1) E"
  unfolding XMLDoc_make_def
proof (rule corr_new[where F = "\<lambda>d. L\<lparr>versions := (versions L)(d := Some (c_str version))\<rparr>"], goal_cases)
  case (4 d)
  show ?case
  proof (rule xml_node.scope_corr)
    fix n L1 assume "new_node (XMLNode_new rootname) n (L\<lparr>versions := (versions L)(d := Some (c_str version))\<rparr>) L1"
    note n = root_made[OF 4 this]
    show "corr view L1 (bnd (XMLNode_get n) (\<lambda>r. bnd (call (Set_Root d r)) (\<lambda>_. bnd (XMLNode_release n) (\<lambda>_. ret (d, r)))))
      (Returns ()) (\<lambda>x b l2. has (A_Node n) l2 \<and> new_doc (XMLDoc_new rootname version) x L (dropped (A_Node n) l2))
      (\<lambda>e l2. has (A_Node n) l2 \<and> E e (dropped (A_Node n) l2))"
      using new_doc_made(1)[OF 4 n(1-3)] takes_root_dropped[OF n(5), of d] n(4,5,7)
      by (intro corr_conseq[OF corr_root]) (simp_all add: XMLDoc_new_def del: has.simps dropped.simps)
  qed
qed (auto simp: demand_def fresh_in_def)

lemma corr_ns:
  assumes "nodes L n = Some u" "nss L n = None"
    and "corr view (L\<lparr>nss := (nss L)(n := Some h)\<rparr>) m r Q E"
  shows "corr view L (bnd (XMLNode_get n) (\<lambda>p. bnd (call (New_Ns p h)) (\<lambda>_. m))) r Q E"
proof (rule corrI)
  fix w assume v: "view L w"
  have "view (L\<lparr>nss := (nss L)(n := Some h)\<rparr>) (after (New_Ns n h) w)"
    by (rule view_call[OF v]) (use assms(1,2) in \<open>auto simp: demand_def fresh_in_def\<close>)
  from corrD[OF assms(3) this] show "ends_as view Q E r (bnd (XMLNode_get n) (\<lambda>p. bnd (call (New_Ns p h)) (\<lambda>_. m)) w)"
    using view_get[OF v, of n] assms(1) by (simp add: XMLNode_get_def run bnd_Done)
qed

lemma corr_doc_make_ns:
  "corr view L (XMLDoc_make_ns rootname rootns version) (Returns ()) (\<lambda>x _ L1. new_doc (XMLDoc_new_ns rootname rootns version) x L L1) E"
  unfolding XMLDoc_make_ns_def
proof (rule corr_new[where F = "\<lambda>d. L\<lparr>versions := (versions L)(d := Some (c_str version))\<rparr>"], goal_cases)
  case (4 d)
  show ?case
  proof (rule xml_node.scope_corr, rule corr_ns)
    fix n L1 assume "new_node (XMLNode_new rootname) n (L\<lparr>versions := (versions L)(d := Some (c_str version))\<rparr>) L1"
    note n = root_made[OF 4 this]
    let ?L = "L1\<lparr>nss := (nss L1)(n := Some (c_str rootns))\<rparr>"
    show "nodes L1 n = Some (XMLNode_new rootname)" "nss L1 n = None" by (fact n)+
    have "nodes ?L n \<noteq> None" "pis ?L n = None" "versions ?L d \<noteq> None" using n by simp_all
    then show "corr view ?L (bnd (XMLNode_get n) (\<lambda>r. bnd (call (Set_Root d r)) (\<lambda>_. bnd (XMLNode_release n) (\<lambda>_. ret (d, r)))))
      (Returns ()) (\<lambda>x b l2. has (A_Node n) l2 \<and> new_doc (XMLDoc_new_ns rootname rootns version) x L (dropped (A_Node n) l2))
      (\<lambda>e l2. has (A_Node n) l2 \<and> E e (dropped (A_Node n) l2))"
      using new_doc_made(2)[OF 4 n(1-3), of "c_str rootns"] takes_root_dropped[of ?L n d]
      by (intro corr_conseq[OF corr_root]) (simp_all add: XMLDoc_new_ns_def del: has.simps dropped.simps)
  qed
qed (auto simp: demand_def fresh_in_def)

interpretation xml_doc: scoped_class view XMLDoc_destroy "\<lambda>x. has (A_Doc x)" "\<lambda>x. dropped (A_Doc x)"
  "XMLDoc_make rootname version" "new_doc (XMLDoc_new rootname version)" for rootname version
  using doc_destroyed corr_doc_make[of _ rootname version "\<lambda>_ _. False"] by unfold_locales (auto simp: corr_def)

interpretation xml_doc_ns: scoped_class view XMLDoc_destroy "\<lambda>x. has (A_Doc x)" "\<lambda>x. dropped (A_Doc x)"
  "XMLDoc_make_ns rootname rootns version" "new_doc (XMLDoc_new_ns rootname rootns version)" for rootname rootns version
  using doc_destroyed corr_doc_make_ns[of _ rootname rootns version "\<lambda>_ _. False"] by unfold_locales (auto simp: corr_def)

section \<open>Building and writing a document\<close>

lemma doc_given:
  assumes "view L w" "doc_at x doc L" "nodes L c = Some v" "nss L c = None" "pis L c = None"
  shows "view (L\<lparr>nodes := (nodes L)(c := None), docs := (docs L)(fst x := Some (snd x, doc_add v doc))\<rparr>)
    (after (Append_Child (snd x) c) (w\<lparr>m_node := (m_node w)(c := 0)\<rparr>))"
proof -
  have "docs L 0 = None" using assms(1) by (simp add: view_def fresh_in_def)
  then have "fst x \<noteq> 0" "snd x \<noteq> c" using assms(2,3) by (cases "fst x = 0"; auto simp: doc_at_def)+
  then show ?thesis using assms by (auto simp: view_def doc_at_def append_child_def demand_def fresh_in_def)
qed

lemma corr_doc_give:
  assumes "doc_at x doc L" "nodes L c = Some v" "nss L c = None" "pis L c = None"
  shows "corr view L (bnd (XMLNode_release c) (XMLDoc_add x)) (Returns ())
    (\<lambda>_ _ L1. L1 = L\<lparr>nodes := (nodes L)(c := None), docs := (docs L)(fst x := Some (snd x, doc_add v doc))\<rparr>) E"
proof (rule corrI)
  fix w assume v: "view L w"
  show "ends_as view (\<lambda>_ _ L1. L1 = L\<lparr>nodes := (nodes L)(c := None), docs := (docs L)(fst x := Some (snd x, doc_add v doc))\<rparr>) E
      (Returns ()) (bnd (XMLNode_release c) (XMLDoc_add x) w)"
    using doc_given[OF v assms] view_get[OF v, of c] assms(2)
    by (simp add: XMLNode_release_def XMLDoc_add_def run bnd_Done)
qed

lemma pi_given:
  assumes "view L w" "doc_at x doc L" "pis L c = Some (name, content)" "nodes L c = None"
  shows "view (L\<lparr>pis := (pis L)(c := None), docs := (docs L)(fst x := Some (snd x, doc\<lparr>doc_pis := doc_pis doc @ [(name, content)]\<rparr>))\<rparr>)
    (after (Prepend_Sibling (snd x) c) (w\<lparr>m_node := (m_node w)(c := 0)\<rparr>))"
proof -
  have "docs L 0 = None" using assms(1) by (simp add: view_def fresh_in_def)
  then have "fst x \<noteq> 0" using assms(2) by (cases "fst x = 0") (auto simp: doc_at_def)
  then show ?thesis using assms by (auto simp: view_def doc_at_def fresh_in_def)
qed

lemma pi_constructed:
  assumes "view L w"
  shows "\<exists>n w' L1. bnd new_ptr (\<lambda>n. bnd (call (New_PI n name content)) (\<lambda>_. XMLNode_wrap n)) w = (Done n, w') \<and> view L1 w' \<and>
    fresh_in L n \<and> L1 = L\<lparr>pis := (pis L)(n := Some (name, content))\<rparr>"
  using assms view_next[OF assms]
  by (auto simp: XMLNode_wrap_def run view_def demand_def fresh_in_def)

interpretation xml_pi: scoped_class view XMLNode_destroy "\<lambda>n. has (A_Node n)" "\<lambda>n. dropped (A_Node n)"
  "bnd new_ptr (\<lambda>n. bnd (call (New_PI n name content)) (\<lambda>_. XMLNode_wrap n))"
  "\<lambda>n L L1. fresh_in L n \<and> L1 = L\<lparr>pis := (pis L)(n := Some (name, content))\<rparr>" for name content
  by unfold_locales (use node_destroyed pi_constructed in blast)+

lemma corr_add_pi:
  assumes "doc_at x doc L"
  shows "corr view L (XMLDoc_add_pi x name content) (Returns ())
    (\<lambda>_ _ L1. L1 = L\<lparr>docs := (docs L)(fst x := Some (snd x, add_pi name content doc))\<rparr>) E"
  unfolding XMLDoc_add_pi_def
proof (rule xml_pi.scope_corr, elim conjE, rule corrI)
  fix n L1 w assume n: "fresh_in L n" "L1 = L\<lparr>pis := (pis L)(n := Some (c_str name, c_str content))\<rparr>" and v: "view L1 w"
  have f: "nodes L n = None" "pis L n = None" "nss L n = None" using n(1) by (simp_all add: fresh_in_def)
  have "doc_at x doc L1" "pis L1 n = Some (c_str name, c_str content)" "nodes L1 n = None" using assms f by (simp_all add: n(2) doc_at_def)
  note pi_given[OF v this] view_get[OF v, of n]
  then show "ends_as view (\<lambda>a b l2. has (A_Node n) l2 \<and> dropped (A_Node n) l2 = L\<lparr>docs := (docs L)(fst x := Some (snd x, add_pi name content doc))\<rparr>)
      (\<lambda>e l2. has (A_Node n) l2 \<and> E e (dropped (A_Node n) l2)) (Returns ())
      (bnd (XMLNode_get n) (\<lambda>p. bnd (call (Prepend_Sibling (snd x) p)) (\<lambda>_. bnd (XMLNode_release n) (\<lambda>_. ret ()))) w)"
    using f by (auto simp: XMLNode_get_def XMLNode_release_def run bnd_Done n(2) add_pi_def fun_upd_idem intro!: exI)
qed

text \<open>What the library writes is a function of the tree, as in \<^theory_text>\<open>Xml\<close>.\<close>

definition dumps_tree :: "(lib_call list \<Rightarrow> nat \<Rightarrow> string option) \<Rightarrow> (xml_doc \<Rightarrow> string option) \<Rightarrow> bool" where
  "dumps_tree dump_memory dump \<longleftrightarrow> (\<forall>cs L d r doc. replay cs empty_ledger = Some L \<longrightarrow> docs L d = Some (r, doc) \<longrightarrow> dump_memory cs d = dump doc)"

lemma corr_doc_write:
  assumes "dumps_tree dump_memory dump" "doc_at x doc L" "E (Runtime_Error ''cannot serialize document'') L"
  shows "corr view L (XMLDoc_write dump_memory x) (of_result (doc_text dump doc)) (\<lambda>_ s L1. L1 = L\<lparr>sent := sent L @ s\<rparr>) E"
proof (rule corrI)
  fix w assume v: "view L w"
  let ?m = "next_ptr w"
  have d: "docs L (fst x) = Some (snd x, doc)" using assms(2) by (simp add: doc_at_def)
  have dump: "dump_memory (trace w) (fst x) = dump doc" using v assms(1) d by (auto simp: view_def dumps_tree_def)
  show "ends_as view (\<lambda>_ s L1. L1 = L\<lparr>sent := sent L @ s\<rparr>) E (of_result (doc_text dump doc)) (XMLDoc_write dump_memory x w)"
  proof (cases "dump doc")
    case None
    have "view L (w\<lparr>next_ptr := ?m + 1\<rparr>)" using v by (simp add: view_def)
    then show ?thesis using None dump assms(3)
      by (auto simp: XMLDoc_write_def run doc_text_def of_result_def)
  next
    case (Some s)
    have "?m \<notin> mems L" using view_next[OF v] by (simp add: fresh_in_def)
    then have "view (L\<lparr>sent := sent L @ s\<rparr>) (after (Free_Mem ?m) (after (Write s) (after (Dump_Doc (fst x) ?m) (w\<lparr>next_ptr := ?m + 1\<rparr>))))"
      using v view_next[OF v] d by (simp add: view_def demand_def fresh_in_def)
    then show ?thesis using Some dump
      by (simp add: XMLDoc_write_def run bnd_Done doc_text_def of_result_def)
  qed
qed

section \<open>Connections, statements and the loop over rows\<close>

lemma corr_conn_make:
  assumes "\<And>e. pool_get = Throws e \<Longrightarrow> E e L"
  shows "corr view L (DBConnHolder_make pool_get) pool_get
     (\<lambda>x conn L1. snd x = conn \<and> fresh_in L (fst x) \<and> L1 = L\<lparr>conns := insert (fst x) (conns L)\<rparr>) E"
proof -
  let ?Q = "\<lambda>x conn L1. snd x = conn \<and> fresh_in L (fst x) \<and> L1 = L\<lparr>conns := insert (fst x) (conns L)\<rparr>"
  have new: "corr view L (bnd new_ptr (\<lambda>c. bnd (call (Pool_Get c)) (\<lambda>_. ret (c, conn)))) (Returns conn) ?Q E" for conn
    by (rule corr_new[where F = "\<lambda>c. L\<lparr>conns := insert c (conns L)\<rparr>"])
      (auto simp: demand_def fresh_in_def intro: corr_ret)
  have "corr view L (DBConnHolder_make pool_get) (bind_outcome pool_get Returns) ?Q E"
    unfolding DBConnHolder_make_def
    by (rule corr_bind[where Q' = "\<lambda>a b L1. a = b \<and> L1 = L"]) (use assms new in \<open>auto intro: corr_outcome\<close>)
  moreover have "bind_outcome pool_get Returns = pool_get" by (cases pool_get) simp_all
  ultimately show ?thesis by simp
qed

text \<open>A statement that cannot be prepared stays, for no object will close it.\<close>

definition leaked :: "nat \<times> mysql \<Rightarrow> string \<Rightarrow> ledger \<Rightarrow> ledger \<Rightarrow> bool" where
  "leaked holder sql L L1 \<longleftrightarrow> (\<exists>s msg. sql_prepare (snd holder) sql = Inl msg \<and> fresh_in L s \<and>
     L1 = L\<lparr>stmts := (stmts L)(s := Some (fst holder))\<rparr>)"

definition new_stmt :: "nat \<times> mysql \<Rightarrow> nat \<times> db_stmt \<Rightarrow> ledger \<Rightarrow> ledger \<Rightarrow> bool" where
  "new_stmt holder x L L1 \<longleftrightarrow> fresh_in L (fst x) \<and>
     L1 = L\<lparr>metas := (if m_column_data (snd x) \<noteq> [] then insert (fst x) (metas L) else metas L),
       stmts := (stmts L)(fst x := Some (fst holder))\<rparr>"

lemma corr_stmt_make:
  assumes "fst holder \<in> conns L" "\<And>msg L1. leaked holder sql L L1 \<Longrightarrow> E (Db_Exception msg ''prepare'') L1"
  shows "corr view L (DBStmt_make holder sql) (DBStmt_new (snd holder) sql)
     (\<lambda>x st L1. snd x = st \<and> new_stmt holder x L L1) E"
  unfolding DBStmt_make_def
proof (rule corr_new[where F = "\<lambda>s. L\<lparr>stmts := (stmts L)(s := Some (fst holder))\<rparr>"], goal_cases)
  case (4 s)
  let ?L = "L\<lparr>stmts := (stmts L)(s := Some (fst holder))\<rparr>"
  have prep: "corr view ?L (call c) (Returns ()) (\<lambda>_ _ L1. L1 = ?L) E" if "c \<in> {Stmt_Prepare s, Stmt_Error s}" for c
    by (rule corr_call) (use that in \<open>auto simp: demand_def\<close>)
  show ?case
  proof (rule corr_then[OF corr_log(3)], rule corr_then[OF prep], simp, cases "sql_prepare (snd holder) sql")
    case (Inl msg)
    then have "E (Db_Exception msg ''prepare'') ?L" using assms(2) 4 by (auto simp: leaked_def)
    then have "corr view ?L (bnd (call (Stmt_Error s)) (\<lambda>_. raise (Db_Exception msg ''prepare'')))
      (Throws (Db_Exception msg ''prepare'')) (\<lambda>x st L1. snd x = st \<and> new_stmt holder x L L1) E"
      by (intro corr_then[OF prep] corr_raise) simp_all
    then show "corr view ?L (case DBStmt_new (snd holder) sql of
          Throws e \<Rightarrow> bnd (call (Stmt_Error s)) (\<lambda>_. raise e)
        | r \<Rightarrow> bnd (of_outcome r) (\<lambda>st. bnd (if m_column_data st \<noteq> [] then call (Result_Metadata s) else ret ()) (\<lambda>_. ret (s, st))))
      (DBStmt_new (snd holder) sql) (\<lambda>x st L1. snd x = st \<and> new_stmt holder x L L1) E"
      by (simp add: DBStmt_new_def Inl)
  next
    case (Inr z)
    then obtain st where st: "DBStmt_new (snd holder) sql = Returns st" by (cases z) (simp add: DBStmt_new_def)
    have meta: "corr view ?L (call (Result_Metadata s)) (Returns ()) (\<lambda>_ _ L1. L1 = ?L\<lparr>metas := insert s (metas L)\<rparr>) E"
      by (rule corr_call) (use 4 in \<open>auto simp: demand_def fresh_in_def split: if_splits\<close>)
    have "corr view ?L (bnd (if m_column_data st \<noteq> [] then call (Result_Metadata s) else ret ()) (\<lambda>_. ret (s, st)))
      (Returns st) (\<lambda>x st L1. snd x = st \<and> new_stmt holder x L L1) E"
    proof (cases "m_column_data st = []")
      case True
      then show ?thesis using 4 by (simp add: new_stmt_def corr_ret)
    next
      case False
      then show ?thesis using 4 by (simp add: new_stmt_def corr_ret corr_then[OF meta])
    qed
    then show "corr view ?L (case DBStmt_new (snd holder) sql of
          Throws e \<Rightarrow> bnd (call (Stmt_Error s)) (\<lambda>_. raise e)
        | r \<Rightarrow> bnd (of_outcome r) (\<lambda>st. bnd (if m_column_data st \<noteq> [] then call (Result_Metadata s) else ret ()) (\<lambda>_. ret (s, st))))
      (DBStmt_new (snd holder) sql) (\<lambda>x st L1. snd x = st \<and> new_stmt holder x L L1) E"
      by (simp add: st)
  qed
qed (use assms(1) in \<open>auto simp: demand_def fresh_in_def\<close>)

text \<open>The loop over rows.\<close>

lemma corr_fetching:
  assumes "\<And>e st acc L. fetch st = Throws e \<Longrightarrow> Inv acc L \<Longrightarrow> E e L"
    and "\<And>st acc L. Inv acc L \<Longrightarrow> corr view L (body st) (step st acc) (\<lambda>_. Inv) E" and "Inv acc L"
  shows "corr view L (fetching body st) (while_fetch step st acc) (\<lambda>_. Inv) E"
  using assms(3)
proof (induction "length (m_rows st)" arbitrary: st acc L rule: less_induct)
  case less
  show ?case
  proof (cases "fetch st")
    case (Returns z)
    obtain got st' where z: "fetch st = Returns (got, st')" using Returns by (cases z) simp
    show ?thesis
    proof (cases got)
      case True
      have "corr view L (bnd (body st') (\<lambda>_. fetching body st')) (bind_outcome (step st' acc) (while_fetch step st')) (\<lambda>_. Inv) E"
        by (rule corr_bind[OF assms(2)[OF less.prems]], rule less.hyps[OF fetch_decreases]) (use z True in simp_all)
      then show ?thesis using z True by (simp add: fetching.simps[of _ st] while_fetch.simps[of _ st] bind_outcome_def)
    next
      case False
      then show ?thesis using z less.prems by (simp add: fetching.simps[of _ st] while_fetch.simps[of _ st] corr_ret)
    qed
  qed (use assms(1) less.prems in \<open>auto simp: fetching.simps[of _ st] while_fetch.simps[of _ st] corr_raise intro: corr_outcome\<close>)
qed

interpretation stmt: destructible view "DBStmt_destroy (\<lambda>_. None)" "\<lambda>x. has (A_Stmt x)" "\<lambda>x. dropped (A_Stmt x)"
  by unfold_locales (use stmt_destroyed[where close_error = "\<lambda>_. None"] in blast)

section \<open>Conditions inside scopes\<close>

lemmas node_scope = xml_node.scope_corr[folded within_def]
lemmas doc_scope = xml_doc.scope_corr[folded within_def]
lemmas doc_ns_scope = xml_doc_ns.scope_corr[folded within_def]
lemmas conn_scope = conn_holder.scope_bind_corr[OF corr_conn_make, folded within_def]

lemma stmt_scope:
  assumes "fst holder \<in> conns L"
    and "\<And>msg L1. leaked holder sql L L1 \<Longrightarrow> E (Db_Exception msg ''prepare'') L1"
    and "\<And>x L1. DBStmt_new (snd holder) sql = Returns (snd x) \<Longrightarrow> new_stmt holder x L L1 \<Longrightarrow>
      corr view L1 (body x) (f (snd x)) (\<lambda>a c. within (A_Stmt x) (Q a c)) (\<lambda>e. within (A_Stmt x) (E e))"
  shows "corr view L (scope (DBStmt_make holder sql) (DBStmt_destroy (\<lambda>_. None)) body)
    (bind_outcome (DBStmt_new (snd holder) sql) f) Q E"
  by (rule stmt.scope_bind_corr[folded within_def, OF corr_stmt_make]) (use assms in auto)

lemma within_doc:
  "new_doc doc0 x L L1 \<Longrightarrow> within (A_Doc x) E (L1\<lparr>docs := (docs L1)(fst x := Some (snd x, doc))\<rparr>) = E L"
  "new_doc doc0 x L L1 \<Longrightarrow> within (A_Doc x) E L1 = E L"
  by (auto simp: within_def new_doc_def fresh_in_def fun_upd_idem)

lemma within_stmt: "new_stmt holder x L L1 \<Longrightarrow> fst holder \<in> conns L \<Longrightarrow> within (A_Stmt x) E L1 = E L"
  by (auto simp: within_def new_stmt_def fresh_in_def fun_upd_idem)

lemma within_conn: "fresh_in L (fst x) \<Longrightarrow> within (A_Conn x) E (L\<lparr>conns := insert (fst x) (conns L)\<rparr>) = E L"
  by (auto simp: within_def fresh_in_def)

text \<open>What was written to the response stays.\<close>

lemma within_sent: "within x E (L\<lparr>sent := s\<rparr>) = within x (\<lambda>L. E (L\<lparr>sent := s\<rparr>)) L"
  by (cases L; cases x) (simp_all add: within_def)

lemma doc_at_new: "new_doc doc x L L1 \<Longrightarrow> doc_at x doc L1"
  by (simp add: new_doc_def doc_at_def fresh_in_def)

lemma doc_at_set: "doc_at x doc L \<Longrightarrow> doc_at x doc' (L\<lparr>docs := (docs L)(fst x := Some (snd x, doc'))\<rparr>)"
  by (simp add: doc_at_def)

lemma new_nodeD:
  assumes "new_node v n L L1"
  shows "L1 = L\<lparr>nodes := (nodes L)(n := Some v)\<rparr>" "fresh_in L n" "nodes L n = None" "pis L n = None" "nss L n = None"
    "within (A_Node n) E L1 = E L" "\<And>y. nodes L m = Some y \<Longrightarrow> m \<noteq> n"
  using assms by (auto simp: new_node_def fresh_in_def within_new)

lemma corr_set_attr_int:
  assumes "nodes L x = Some u"
  shows "corr view L (XMLNode_set_attr_int x name val) (Returns ()) (\<lambda>_ _ L1. L1 = L\<lparr>nodes := (nodes L)(x := Some (set_attr_int name val u))\<rparr>) E"
  unfolding XMLNode_set_attr_int_def set_attr_int_def by (rule corr_set_attr[OF assms])

text \<open>A child element: made, filled by \<open>build\<close>, and handed over to its parent.\<close>

lemma corr_child:
  assumes parent: "nodes L p = Some u" "pis L p = None"
    and build: "\<And>t L1. new_node (XMLNode_new name) t L L1 \<Longrightarrow>
      corr view L1 (build t) r (\<lambda>_ s L2. L2 = L\<lparr>nodes := (nodes L)(t := Some (mk s))\<rparr>) (\<lambda>e. within (A_Node t) (E e))"
    and rest: "\<And>s t. r = Returns s \<Longrightarrow> dead t L \<Longrightarrow>
      corr view (L\<lparr>nodes := (nodes L)(p := Some (node_add (mk s) u))\<rparr>) k (f s) (\<lambda>a b. within (A_Node t) (Q a b)) (\<lambda>e. within (A_Node t) (E e))"
  shows "corr view L (scope (XMLNode_make name) XMLNode_destroy (\<lambda>t. bnd (build t) (\<lambda>_. bnd (give t p) (\<lambda>_. k))))
    (bind_outcome r f) Q E"
proof (rule node_scope)
  fix t L1 assume n: "new_node (XMLNode_new name) t L L1"
  note t = new_nodeD[OF n]
  have "p \<noteq> t" using t(7) parent by blast
  show "corr view L1 (bnd (build t) (\<lambda>_. bnd (give t p) (\<lambda>_. k))) (bind_outcome r f)
    (\<lambda>a b. within (A_Node t) (Q a b)) (\<lambda>e. within (A_Node t) (E e))"
  proof (rule corr_bind[OF build[OF n]], simp only:)
    fix s assume s: "r = Returns s"
    let ?L = "L\<lparr>nodes := (nodes L)(t := Some (mk s))\<rparr>"
    have g: "corr view ?L (give t p) (Returns ()) (\<lambda>_ _ L1. L1 = L\<lparr>nodes := (nodes L)(p := Some (node_add (mk s) u))\<rparr>) (\<lambda>e. within (A_Node t) (E e))"
      using corr_give[of ?L t "mk s" p u "\<lambda>e. within (A_Node t) (E e)"] parent t(3-5) \<open>p \<noteq> t\<close>
      by (simp add: give_def fun_upd_idem)
    show "corr view ?L (bnd (give t p) (\<lambda>_. k)) (f s) (\<lambda>a b. within (A_Node t) (Q a b)) (\<lambda>e. within (A_Node t) (E e))"
      by (rule corr_then[OF g rest[OF s]]) (simp add: dead_def t(3-5))
  qed
qed

end
