(* ===== verification/Page_Scopes.thy ===== *)
theory Page_Scopes
  imports Handler_Objects Wp_Handler
begin

text \<open>
  What the request handlers with their scopes have in common: the writing of a page, the page for an
  error of the database, what is left of the ledger, and the refinement of the pages that
  \<^theory_text>\<open>Wp_Handler\<close> defines as functions.
\<close>

section \<open>Responses\<close>

definition error_page :: "string \<Rightarrow> int \<Rightarrow> string" where
  "error_page msg status = fcgi_out (return_error fcgi_response_new msg status)"

definition respond :: "(lib_call list \<Rightarrow> nat \<Rightarrow> string option) \<Rightarrow> string \<Rightarrow> nat \<times> nat \<Rightarrow> (world, unit) prog" where
  "respond dump_memory ctype doc =
     bnd (call (Write (''Status: 200'' @ CRLF @ ''Content-Type: '' @ ctype @ CRLF @ CRLF))) (\<lambda>_. XMLDoc_write dump_memory doc)"

definition on_db_error :: "string \<Rightarrow> string \<Rightarrow> (world, unit) prog" where
  "on_db_error method what =
     bnd (log_error (method @ '' DB error: '' @ what)) (\<lambda>_. call (Write (error_page what 200)))"

section \<open>Errors of the writing and all others\<close>

abbreviation dump_error :: exn where "dump_error \<equiv> Runtime_Error ''cannot serialize document''"

lemma fetch_not_dump_error: "fetch st \<noteq> Throws dump_error"
proof -
  have "fetch_columns cols cells \<noteq> Throws dump_error" for cols cells
    by (induction cols cells rule: fetch_columns.induct)
      (auto simp: fetch_column_def bind_outcome_def split: server_cell.splits outcome.splits)
  then show ?thesis by (auto simp: fetch_def bind_outcome_def split: list.splits server_row.splits outcome.splits)
qed

lemma execute_not_dump_error: "execute st \<noteq> Throws dump_error"
  by (auto simp: execute_def split: sum.splits)

lemma asString_not_dump_error: "asString st c \<noteq> Throws dump_error"
  by (auto simp: asString_def column_to_string_def split: buffer.splits)

lemma asInt_not_dump_error: "asInt st c \<noteq> Throws dump_error"
  using asString_not_dump_error[of st c] by (auto simp: asInt_def bind_outcome_def split: outcome.splits option.splits)

lemmas not_dump_error = fetch_not_dump_error execute_not_dump_error asString_not_dump_error asInt_not_dump_error

lemma bind_assoc3: "bind_outcome (bind_outcome r f) g = bind_outcome r (\<lambda>a. bind_outcome (f a) g)"
  by (cases r) simp_all

lemma not_dump_error_bind:
  "r \<noteq> Throws dump_error \<Longrightarrow> (\<And>a. f a \<noteq> Throws dump_error) \<Longrightarrow> bind_outcome r f \<noteq> Throws dump_error"
  by (cases r) auto

lemma DBStmt_new_not_dump_error: "DBStmt_new conn sql \<noteq> Throws dump_error"
  by (simp add: DBStmt_new_def split: sum.splits prod.splits)

lemma while_fetch_not_dump_error:
  assumes "\<And>st acc. body st acc \<noteq> Throws dump_error"
  shows "while_fetch body st acc \<noteq> Throws dump_error"
proof (induction "length (m_rows st)" arbitrary: st acc rule: less_induct)
  case less
  show ?case
  proof (cases "fetch st")
    case (Returns z)
    obtain got st' where z: "fetch st = Returns (got, st')" using Returns by (cases z) simp
    then show ?thesis
      using less[OF fetch_decreases] assms[of st' acc]
      by (cases "body st' acc"; cases got) (auto simp: while_fetch.simps[of _ st])
  qed (use fetch_not_dump_error[of st] in \<open>auto simp: while_fetch.simps[of _ st]\<close>)
qed

section \<open>What a handler leaves\<close>

text \<open>
  The ledger after a handler: as before, but for what was written; or with the handle of a statement
  that could not be prepared.
\<close>

definition settled :: "mysql outcome \<Rightarrow> ledger \<Rightarrow> ledger \<Rightarrow> bool" where
  "settled pool_get L L1 \<longleftrightarrow> (\<exists>s. L1 = L\<lparr>sent := s\<rparr>) \<or>
     (\<exists>conn sql msg p c s. pool_get = Returns conn \<and> sql_prepare conn sql = Inl msg \<and> stmts L p = None \<and>
        L1 = L\<lparr>stmts := (stmts L)(p := Some c), sent := s\<rparr>)"

definition wrote :: "mysql outcome \<Rightarrow> ledger \<Rightarrow> string \<Rightarrow> ledger \<Rightarrow> bool" where
  "wrote pool_get L s L1 \<longleftrightarrow> settled pool_get L L1 \<and> sent L1 = sent L @ s"

definition page_header :: "string \<Rightarrow> string" where
  "page_header ctype = ''Status: 200'' @ CRLF @ ''Content-Type: '' @ ctype @ CRLF @ CRLF"

text \<open>An exception finds nothing written, unless it comes from the writing of the document.\<close>

definition threw :: "mysql outcome \<Rightarrow> string \<Rightarrow> ledger \<Rightarrow> exn \<Rightarrow> ledger \<Rightarrow> bool" where
  "threw pool_get ctype L e L1 \<longleftrightarrow> wrote pool_get L (if e = dump_error then page_header ctype else []) L1"

lemma wrote_self [simp]: "wrote pool_get L [] L" "wrote pool_get L s (L\<lparr>sent := sent L @ s\<rparr>)"
proof -
  show "wrote pool_get L s (L\<lparr>sent := sent L @ s\<rparr>)" by (auto simp: wrote_def settled_def)
  have "\<exists>s. L = L\<lparr>sent := s\<rparr>" by (rule exI[of _ "sent L"]) simp
  then show "wrote pool_get L [] L" by (simp add: wrote_def settled_def)
qed

lemma settled_sent: "settled pool_get L L1 \<Longrightarrow> settled pool_get L (L1\<lparr>sent := z\<rparr>)"
  unfolding settled_def by (elim disjE exE conjE; simp) (blast, metis ledger.update_convs(1) ledger.surjective)

lemma wrote_more: "wrote pool_get L s L1 \<Longrightarrow> wrote pool_get L (s @ t) (L1\<lparr>sent := sent L1 @ t\<rparr>)"
  by (simp add: wrote_def settled_sent)

lemma threw_self: "e \<noteq> dump_error \<Longrightarrow> threw pool_get ctype L e L"
  by (simp add: threw_def)

section \<open>Pages as texts\<close>

text \<open>A page as the outcome of its text; \<open>as_handled\<close> is the response it makes.\<close>

definition as_handled :: "string \<Rightarrow> fcgi_response \<Rightarrow> string outcome \<Rightarrow> handled" where
  "as_handled ctype rs r =
     (case r of
        Returns s \<Rightarrow> Returns (None, out s rs)
      | Throws e \<Rightarrow> Returns (Some e, out (if e = dump_error then page_header ctype else []) rs)
      | Undefined \<Rightarrow> Undefined
      | Diverges \<Rightarrow> Diverges)"

definition caught :: "'a outcome \<Rightarrow> (string \<Rightarrow> 'a outcome) \<Rightarrow> 'a outcome" where
  "caught r k = (case r of Throws (Db_Exception msg stage) \<Rightarrow> k (c_str msg) | _ \<Rightarrow> r)"

definition document_text :: "(xml_doc \<Rightarrow> string option) \<Rightarrow> string \<Rightarrow> xml_doc \<Rightarrow> string outcome" where
  "document_text dump ctype doc = bind_outcome (of_result (doc_text dump doc)) (\<lambda>s. Returns (page_header ctype @ s))"

lemma out_twice [simp]: "out t (out s rs) = out (s @ t) rs" "out [] rs = rs"
  by (simp_all add: out_def)

lemma as_handled_Returns [simp]: "as_handled ctype rs (Returns s) = Returns (None, out s rs)"
  by (simp add: as_handled_def)

lemma return_error_out: "return_error rs msg status = out (error_page msg status) rs"
  by (simp add: return_error_def error_page_def out_def fcgi_response_new_def)

lemma document_written: "as_handled ctype rs (document_text dump ctype doc) = Returns (write_page dump ctype doc rs)"
  by (simp add: as_handled_def document_text_def write_page_def doc_text_def page_header_def[symmetric] of_result_def
      split: option.splits)
    (simp add: page_header_def)

text \<open>Text and response agree on the errors of the database.\<close>

lemma catch_db_as_handled:
  assumes "r \<noteq> Throws dump_error"
    and "\<And>a. r = Returns a \<Longrightarrow> k a = as_handled ctype rs (t a)" "\<And>a msg stage. t a \<noteq> Throws (Db_Exception msg stage)"
  shows "catch_db rs r k = as_handled ctype rs (caught (bind_outcome r t) (\<lambda>msg. Returns (error_page msg 200)))"
proof (cases r)
  case (Returns a)
  have "caught (t a) (\<lambda>msg. Returns (error_page msg 200)) = t a"
    using assms(3)[of a] by (auto simp: caught_def split: outcome.splits exn.splits)
  then show ?thesis using assms(2)[OF Returns] Returns by simp
next
  case (Throws e)
  then show ?thesis using assms(1)
    by (cases e) (auto simp: catch_db_def caught_def as_handled_def return_error_out)
qed (simp_all add: catch_db_def caught_def as_handled_def)

lemma document_text_not_db: "document_text dump ctype doc \<noteq> Throws (Db_Exception msg stage)"
  by (auto simp: document_text_def doc_text_def of_result_def split: option.splits)

section \<open>A page in its scopes\<close>

text \<open>\<open>U\<close> stands for the destructors of the objects around a document, which undo all but the writing.\<close>

definition undoes :: "ledger \<Rightarrow> ((ledger \<Rightarrow> bool) \<Rightarrow> ledger \<Rightarrow> bool) \<Rightarrow> ledger \<Rightarrow> bool" where
  "undoes L U L1 \<longleftrightarrow> sent L1 = sent L \<and> (\<forall>P z. U P (L1\<lparr>sent := z\<rparr>) = P (L\<lparr>sent := z\<rparr>))"

lemma undoesD: "undoes L U L1 \<Longrightarrow> U P L1 = P L" "undoes L U L1 \<Longrightarrow> U P (L1\<lparr>sent := z\<rparr>) = P (L\<lparr>sent := z\<rparr>)"
    "undoes L U L1 \<Longrightarrow> sent L1 = sent L"
proof -
  assume u: "undoes L U L1"
  then have "U P (L1\<lparr>sent := sent L1\<rparr>) = P (L\<lparr>sent := sent L\<rparr>)" by (simp add: undoes_def)
  then show "U P L1 = P L" by simp
qed (simp_all add: undoes_def)

lemma undoes_doc:
  assumes "undoes L U L1" "new_doc doc0 x L1 L2"
  shows "undoes L (\<lambda>P. within (A_Doc x) (U P)) (L2\<lparr>docs := (docs L2)(fst x := Some (snd x, doc))\<rparr>)"
proof -
  let ?L = "L2\<lparr>docs := (docs L2)(fst x := Some (snd x, doc))\<rparr>"
  have "sent ?L = sent L" using assms by (simp add: undoes_def new_doc_def)
  moreover have "within (A_Doc x) (U P) (?L\<lparr>sent := z\<rparr>) = P (L\<lparr>sent := z\<rparr>)" for P z
    using within_doc(1)[OF assms(2)] undoesD(2)[OF assms(1)] by (simp only: within_sent)
  ultimately show ?thesis by (simp add: undoes_def)
qed

lemma undoes_stmt:
  assumes "fresh_in L (fst h)" "new_stmt h x (L\<lparr>conns := insert (fst h) (conns L)\<rparr>) L1"
  shows "undoes L (\<lambda>P. within (A_Stmt x) (within (A_Conn h) P)) L1"
proof -
  let ?L = "L\<lparr>conns := insert (fst h) (conns L)\<rparr>"
  have "within (A_Stmt x) (within (A_Conn h) P) (L1\<lparr>sent := z\<rparr>) = P (L\<lparr>sent := z\<rparr>)" for P z
    using within_stmt[OF assms(2)] within_conn[OF assms(1)] by (simp add: within_sent)
  then show ?thesis using assms(2) by (simp add: undoes_def new_stmt_def)
qed

lemma leaked_threw:
  assumes "pool_get = Returns (snd h)" "fresh_in L (fst h)" "leaked h sql (L\<lparr>conns := insert (fst h) (conns L)\<rparr>) M"
  shows "within (A_Conn h) (threw pool_get ctype L (Db_Exception msg ''prepare'')) M"
proof -
  let ?L = "L\<lparr>conns := insert (fst h) (conns L)\<rparr>"
  obtain p msg' where p: "sql_prepare (snd h) sql = Inl msg'" "fresh_in ?L p" "M = ?L\<lparr>stmts := (stmts ?L)(p := Some (fst h))\<rparr>"
    using assms(3) by (auto simp: leaked_def)
  have "dropped (A_Conn h) M = L\<lparr>stmts := (stmts L)(p := Some (fst h)), sent := sent L\<rparr>" "stmts L p = None"
    using p(2,3) assms(2) by (cases L, simp_all add: fresh_in_def)
  then have "settled pool_get L (dropped (A_Conn h) M)" "sent (dropped (A_Conn h) M) = sent L"
    using assms(1) p(1) unfolding settled_def by (metis, simp)
  then show ?thesis by (simp add: within_def threw_def wrote_def p(3))
qed

text \<open>A handler that runs one statement.\<close>

lemma corr_query:
  assumes "pool_get \<noteq> Throws dump_error"
    and "\<And>x U L1. undoes L U L1 \<Longrightarrow> corr view L1 (body x) (f (snd x)) (\<lambda>a b. U (Q a b)) (\<lambda>e. U (threw pool_get ctype L e))"
  shows "corr view L (scope (DBConnHolder_make pool_get) DBConnHolder_destroy (\<lambda>h.
      scope (DBStmt_make h sql) (DBStmt_destroy (\<lambda>_. None)) body))
    (bind_outcome pool_get (\<lambda>conn. bind_outcome (DBStmt_new conn sql) f)) Q (threw pool_get ctype L)"
proof (rule conn_scope)
  show "threw pool_get ctype L e L" if "pool_get = Throws e" for e
    using that assms(1) by (auto intro: threw_self)
next
  fix h conn L1
  assume r: "pool_get = Returns conn"
    and "snd h = conn \<and> fresh_in L (fst h) \<and> L1 = L\<lparr>conns := insert (fst h) (conns L)\<rparr>"
  then have h: "conn = snd h" "fresh_in L (fst h)" and L1: "L1 = L\<lparr>conns := insert (fst h) (conns L)\<rparr>" by simp_all
  have "fst h \<in> conns L1" by (simp add: L1)
  then show "corr view L1 (scope (DBStmt_make h sql) (DBStmt_destroy (\<lambda>_. None)) body)
      (bind_outcome (DBStmt_new conn sql) f)
      (\<lambda>a c. within (A_Conn h) (Q a c)) (\<lambda>e. within (A_Conn h) (threw pool_get ctype L e))"
    unfolding h(1)
  proof (rule stmt_scope)
    show "within (A_Conn h) (threw pool_get ctype L (Db_Exception msg ''prepare'')) L2" if "leaked h sql L1 L2" for msg L2
      using leaked_threw[of pool_get h L sql L2] r h that L1 by simp
  qed (use assms(2) undoes_stmt h(2) L1 in blast)
qed

lemma corr_respond:
  assumes "dumps_tree dump_memory dump" "doc_at x doc L1" "undoes L U L1"
  shows "corr view L1 (respond dump_memory ctype x) (document_text dump ctype doc)
    (\<lambda>_ b. U (wrote pool_get L b)) (\<lambda>e. U (threw pool_get ctype L e))"
proof -
  let ?L = "L1\<lparr>sent := sent L1 @ page_header ctype\<rparr>"
  have u: "U P (L1\<lparr>sent := sent L1 @ z\<rparr>) = P (L\<lparr>sent := sent L @ z\<rparr>)" for P z
    using undoesD(2,3)[OF assms(3)] by simp
  have "corr view ?L (XMLDoc_write dump_memory x) (bind_outcome (of_result (doc_text dump doc)) (\<lambda>s. Returns (page_header ctype @ s)))
      (\<lambda>_ b. U (wrote pool_get L b)) (\<lambda>e. U (threw pool_get ctype L e))"
  proof (rule corr_map, rule corr_conseq[OF corr_doc_write[OF assms(1)], where E = "\<lambda>e M. e = dump_error \<and> M = ?L"])
    show "doc_at x doc ?L" using assms(2) by (simp add: doc_at_def)
    show "U (wrote pool_get L (page_header ctype @ s)) M" if "M = ?L\<lparr>sent := sent ?L @ s\<rparr>" for s M
      using u[of "wrote pool_get L (page_header ctype @ s)" "page_header ctype @ s"] that by simp
    show "U (threw pool_get ctype L e) M" if "e = dump_error \<and> M = ?L" for e M
      using u[of "threw pool_get ctype L e" "page_header ctype"] that by (simp add: threw_def)
  qed simp_all
  then show ?thesis
    unfolding respond_def document_text_def by (intro corr_then[OF corr_write]) (simp add: page_header_def)
qed

text \<open>What is left after an element has been handed to the document.\<close>

lemma undoes_dead:
  assumes "\<And>doc. undoes L V (L1\<lparr>docs := (docs L1)(fst x := Some (snd x, doc))\<rparr>)" "dead n L1"
  shows "undoes L (\<lambda>P. within (A_Node n) (V P)) (L1\<lparr>docs := (docs L1)(fst x := Some (snd x, doc))\<rparr>)"
  using assms(1)[of doc] assms(2) by (simp add: undoes_def dead_def)

lemma corr_give_doc:
  assumes "doc_at x doc L" "fresh_in L n"
  shows "corr view (L\<lparr>nodes := (nodes L)(n := Some v)\<rparr>) (give_doc n x) (Returns ())
    (\<lambda>_ _ M. M = L\<lparr>docs := (docs L)(fst x := Some (snd x, doc_add v doc))\<rparr>) E"
proof -
  have "snd x \<noteq> n" "nodes L n = None" "nss L n = None" "pis L n = None" using assms by (auto simp: doc_at_def fresh_in_def)
  then show ?thesis
    using corr_doc_give[of x doc "L\<lparr>nodes := (nodes L)(n := Some v)\<rparr>" n v E] assms(1)
    by (simp add: give_doc_def doc_at_def fun_upd_idem)
qed

section \<open>Handlers that make a page\<close>

lemma corr_on_db_error:
  "wrote pool_get L s L1 \<Longrightarrow> corr view L1 (on_db_error method what) (Returns (s @ error_page what 200)) (\<lambda>_ b. wrote pool_get L b) E"
  unfolding on_db_error_def by (rule corr_then[OF corr_log(2)], rule corr_last[OF corr_write]) (rule wrote_more)

lemma corr_guarded:
  assumes "corr view L m r (\<lambda>_ b. wrote pool_get L b) (threw pool_get ctype L)"
  shows "corr view L (try_db m (on_db_error method)) (caught r (\<lambda>msg. Returns (error_page msg 200)))
    (\<lambda>_ b. wrote pool_get L b) (threw pool_get ctype L)"
  unfolding caught_def
proof (rule corr_try_db[OF assms])
  show "corr view L1 (on_db_error method (c_str msg)) (Returns (error_page (c_str msg) 200)) (\<lambda>_ b. wrote pool_get L b) (threw pool_get ctype L)"
    if "threw pool_get ctype L (Db_Exception msg stage) L1" for msg stage L1
    using corr_on_db_error[of pool_get L "[]" L1] that by (simp add: threw_def)
qed

text \<open>A handler and the page it makes.\<close>

definition makes :: "mysql outcome \<Rightarrow> string \<Rightarrow> ledger \<Rightarrow> (world, unit) prog \<Rightarrow> fcgi_response \<Rightarrow> handled \<Rightarrow> bool" where
  "makes pool_get ctype L m rs h \<longleftrightarrow> (\<exists>r. h = as_handled ctype rs r \<and>
     corr view L m r (\<lambda>_ b. wrote pool_get L b) (threw pool_get ctype L))"

lemma makes_logged:
  "makes pool_get ctype L m rs h \<Longrightarrow> makes pool_get ctype L (bnd (log_info msg) (\<lambda>_. m)) rs h"
  by (auto simp: makes_def intro!: corr_then[OF corr_log(1)])

text \<open>A handler that starts with nothing, as the response and the ledger it ends with.\<close>

definition serves :: "(world, unit) prog \<Rightarrow> fcgi_response \<Rightarrow> handled \<Rightarrow> bool" where
  "serves m rs h \<longleftrightarrow>
     (case h of
        Returns (thrown, rs') \<Rightarrow> \<exists>w L.
          m new_world = ((case thrown of None \<Rightarrow> Done () | Some e \<Rightarrow> Raised e), w) \<and>
          replay (trace w) empty_ledger = Some L \<and> rs' = out (sent L) rs
      | Throws e \<Rightarrow> False
      | Undefined \<Rightarrow> fst (m new_world) = Stuck
      | Diverges \<Rightarrow> fst (m new_world) = Endless)"

lemma makes_serves:
  assumes "makes pool_get ctype empty_ledger m rs h"
  shows "serves m rs h"
    "\<And>x w. m new_world = (x, w) \<Longrightarrow> (\<exists>a. x = Done a) \<or> (\<exists>e. x = Raised e) \<Longrightarrow>
       \<exists>L. replay (trace w) empty_ledger = Some L \<and> settled pool_get empty_ledger L"
proof -
  obtain r where h: "h = as_handled ctype rs r" and c: "corr view empty_ledger m r (\<lambda>_ b. wrote pool_get empty_ledger b) (threw pool_get ctype empty_ledger)"
    using assms unfolding makes_def by blast
  note e = corrD[OF c view_new_world]
  have [simp]: "sent empty_ledger = []" by (simp add: empty_ledger_def)
  show "serves m rs h"
    using e by (cases r) (auto simp: serves_def h as_handled_def view_def wrote_def threw_def split: if_splits)
  show "\<exists>L. replay (trace w) empty_ledger = Some L \<and> settled pool_get empty_ledger L"
    if "m new_world = (x, w)" "(\<exists>a. x = Done a) \<or> (\<exists>e. x = Raised e)" for x w
    using e that by (cases r) (auto simp: view_def wrote_def threw_def)
qed

section \<open>A library that writes the tree\<close>

definition write_out :: "(xml_doc \<Rightarrow> string option) \<Rightarrow> lib_call list \<Rightarrow> nat \<Rightarrow> string option" where
  "write_out dump cs d =
     (case replay cs empty_ledger of
        None \<Rightarrow> None
      | Some L \<Rightarrow> (case docs L d of None \<Rightarrow> None | Some (_, doc) \<Rightarrow> dump doc))"

lemma dumps_write_out: "dumps_tree (write_out dump) dump"
  by (simp add: dumps_tree_def write_out_def)

fun show_node :: "xml_node \<Rightarrow> string" and show_calls :: "node_call list \<Rightarrow> string \<times> string" where
  "show_node (Text s) = s"
| "show_node (Elem name calls) =
     (let (attrs, body) = show_calls calls in ''<'' @ name @ attrs @ ''>'' @ body @ ''</'' @ name @ ''>'')"
| "show_calls [] = ([], [])"
| "show_calls (New_Prop name val # calls) = (let (attrs, body) = show_calls calls in ('' '' @ name @ ''='' @ val @ attrs, body))"
| "show_calls (Add_Child n # calls) = (let (attrs, body) = show_calls calls in (attrs, show_node n @ body))"

end
