(* ===== verification/Blog_Scopes.thy ===== *)
theory Blog_Scopes
  imports Page_Scopes
begin

text \<open>
  The handler of the blog (\<^verbatim>\<open>src/server/wp_handler.cpp\<close>) with its objects and their scopes: the
  connection that is taken from the pool and put back, the statement, the document and the nodes, the
  log messages and the writes to the response, each in the order of the code.
  \<^theory_text>\<open>Wp_Handler\<close> says what the pages are; here each handler is shown to refine it, and to
  give back what it took on every path.

  \<open>close_error\<close> and \<open>dump_memory\<close> are the results of closing a statement and of writing a
  document.
\<close>

section \<open>The handlers\<close>

definition stylesheet :: "fcgi_request \<Rightarrow> nat \<times> nat \<Rightarrow> (world, unit) prog" where
  "stylesheet rq doc =
     (if get_param rq ''showxml'' \<noteq> ''yes''
      then XMLDoc_add_pi doc ''modxslt-stylesheet''
             (''type='' @ [QUOTE] @ ''text/xsl'' @ [QUOTE] @ '' href='' @ [QUOTE] @ ''xsl/feedback.xsl'' @ [QUOTE])
      else ret ())"

text \<open>An element with the text of a column, added to its parent; \<open>k\<close> is the rest of the scope.\<close>

definition column_element :: "string \<Rightarrow> db_stmt \<Rightarrow> nat \<Rightarrow> nat \<Rightarrow> (world, unit) prog \<Rightarrow> (world, unit) prog" where
  "column_element name st col parent k =
     scope (XMLNode_make name) XMLNode_destroy (\<lambda>elm.
       bnd (of_outcome (asString st col)) (\<lambda>s.
       bnd (XMLNode_add_text elm s) (\<lambda>_.
       bnd (give elm parent) (\<lambda>_. k))))"

definition post_content :: "string \<Rightarrow> nat \<Rightarrow> (world, unit) prog" where
  "post_content content elm =
     (let more_pos = find_str content ''<!--more-->'' 0
      in if more_pos \<noteq> npos
         then bnd (XMLNode_set_attr elm ''more'' ''yes'') (\<lambda>_. XMLNode_add_text elm (take more_pos content))
         else XMLNode_add_text elm content)"

definition add_content :: "nat \<Rightarrow> nat \<Rightarrow> db_stmt \<Rightarrow> (world, unit) prog" where
  "add_content post posts st =
     bnd (of_outcome (asString st 3)) (\<lambda>content.
       scope (XMLNode_make ''content'') XMLNode_destroy (\<lambda>elm.
         bnd (post_content content elm) (\<lambda>_.
         bnd (give elm post) (\<lambda>_. give post posts))))"

definition post_of_row :: "nat \<Rightarrow> db_stmt \<Rightarrow> (world, unit) prog" where
  "post_of_row posts st =
     scope (XMLNode_make ''post'') XMLNode_destroy (\<lambda>post.
       bnd (of_outcome (asInt st 0)) (\<lambda>post_id.
       bnd (XMLNode_set_attr_int post ''id'' post_id) (\<lambda>_.
         column_element ''title'' st 1 post
         (column_element ''excerpt'' st 2 post (add_content post posts st)))))"

definition show_posts :: "(lib_call list \<Rightarrow> nat \<Rightarrow> string option) \<Rightarrow> fcgi_request \<Rightarrow> db_stmt \<Rightarrow> (world, unit) prog" where
  "show_posts dump_memory rq st =
     scope (XMLDoc_make ''page'' ''1.0'') XMLDoc_destroy (\<lambda>doc.
       bnd (stylesheet rq doc) (\<lambda>_.
       scope (XMLNode_make ''posts'') XMLNode_destroy (\<lambda>posts.
         bnd (fetching (post_of_row posts) st) (\<lambda>_.
         bnd (give_doc posts doc) (\<lambda>_.
           respond dump_memory (content_type_of rq) doc)))))"

definition blogroll_scopes ::
  "(string \<Rightarrow> string option) \<Rightarrow> (lib_call list \<Rightarrow> nat \<Rightarrow> string option) \<Rightarrow> mysql outcome \<Rightarrow> fcgi_request \<Rightarrow> (world, unit) prog" where
  "blogroll_scopes close_error dump_memory pool_get rq =
     try_db
       (scope (DBConnHolder_make pool_get) DBConnHolder_destroy (\<lambda>conn.
        scope (DBStmt_make conn blogroll_sql) (DBStmt_destroy close_error) (\<lambda>stmt.
          bnd (of_outcome (execute (snd stmt))) (show_posts dump_memory rq))))
       (on_db_error ''wp_handler::handle'')"

definition category_scopes :: "(string \<Rightarrow> string option) \<Rightarrow> mysql outcome \<Rightarrow> string \<Rightarrow> (world, unit) prog" where
  "category_scopes close_error pool_get name =
     bnd (log_info (''wp_handler::handle_category name='' @ name)) (\<lambda>_.
     try_db
       (scope (DBConnHolder_make pool_get) DBConnHolder_destroy (\<lambda>conn.
        scope (DBStmt_make conn (by_name_sql ''ID'')) (DBStmt_destroy close_error) (\<lambda>stmt.
          bnd (of_outcome (execute (bindString 1 name (snd stmt)))) (\<lambda>st.
          bnd (of_outcome (fetch st)) (\<lambda>_. ret ())))))
       (on_db_error ''wp_handler::handle''))"

definition author_scopes :: "(string \<Rightarrow> string option) \<Rightarrow> mysql outcome \<Rightarrow> string \<Rightarrow> (world, unit) prog" where
  "author_scopes close_error pool_get name =
     bnd (log_info (''wp_handler::handle_author name='' @ name)) (\<lambda>_.
     try_db
       (scope (DBConnHolder_make pool_get) DBConnHolder_destroy (\<lambda>conn.
        scope (DBStmt_make conn (by_name_sql ''ID'')) (DBStmt_destroy close_error) (\<lambda>stmt.
          bnd (of_outcome (execute (bindString 1 name (snd stmt)))) (\<lambda>st.
          bnd (of_outcome (fetch st)) (\<lambda>_. ret ())))))
       (on_db_error ''wp_handler::handle''))"

definition show_post :: "(lib_call list \<Rightarrow> nat \<Rightarrow> string option) \<Rightarrow> fcgi_request \<Rightarrow> db_stmt \<Rightarrow> (world, unit) prog" where
  "show_post dump_memory rq st =
     scope (XMLDoc_make ''page'' ''1.0'') XMLDoc_destroy (\<lambda>doc.
       bnd (stylesheet rq doc) (\<lambda>_.
       scope (XMLNode_make ''post'') XMLNode_destroy (\<lambda>post.
         bnd (of_outcome (asInt st 0)) (\<lambda>post_id.
         bnd (XMLNode_set_attr_int post ''id'' post_id) (\<lambda>_.
         bnd (of_outcome (asString st 1)) (\<lambda>content.
         bnd (XMLNode_add_text post content) (\<lambda>_.
         bnd (give_doc post doc) (\<lambda>_.
           respond dump_memory (content_type_of rq) doc))))))))"

text \<open>The result is whether there was a post.\<close>

definition post_scopes ::
  "(string \<Rightarrow> string option) \<Rightarrow> (lib_call list \<Rightarrow> nat \<Rightarrow> string option) \<Rightarrow> mysql outcome \<Rightarrow> fcgi_request \<Rightarrow> string \<Rightarrow> (world, bool) prog" where
  "post_scopes close_error dump_memory pool_get rq name =
     bnd (log_info (''wp_handler::handle_post name='' @ name)) (\<lambda>_.
     try_db
       (scope (DBConnHolder_make pool_get) DBConnHolder_destroy (\<lambda>conn.
        scope (DBStmt_make conn (by_name_sql ''id, post_content'')) (DBStmt_destroy close_error) (\<lambda>stmt.
          bnd (of_outcome (execute (bindString 0 name (snd stmt)))) (\<lambda>st0.
          bnd (of_outcome (fetch st0)) (\<lambda>(got, st).
            if \<not> got then ret False
            else bnd (show_post dump_memory rq st) (\<lambda>_. ret True))))))
       (\<lambda>what. bnd (on_db_error ''wp_handler::handle'' what) (\<lambda>_. ret True)))"

definition not_found_scopes :: "(world, unit) prog" where
  "not_found_scopes = bnd (log_info ''wp_handler::handle_404'') (\<lambda>_. call (Write (error_page ''page does not exist'' 404)))"

definition wp_handle_scopes ::
  "(string \<Rightarrow> string option) \<Rightarrow> (lib_call list \<Rightarrow> nat \<Rightarrow> string option) \<Rightarrow> mysql outcome \<Rightarrow> fcgi_request \<Rightarrow> (world, unit) prog" where
  "wp_handle_scopes close_error dump_memory pool_get rq =
     (let script_name = get_fcgi_param rq ''SCRIPT_NAME'';
          rest = (\<lambda>n. of_outcome (of_result (std_substr script_name n npos)))
      in if script_name = ''/'' \<or> script_name = [] then blogroll_scopes close_error dump_memory pool_get rq
         else if find_str script_name ''/category/'' 0 = 0 then
           bnd (rest (length ''/category/'')) (category_scopes close_error pool_get)
         else if find_str script_name ''/author/'' 0 = 0 then
           bnd (rest (length ''/author/'')) (author_scopes close_error pool_get)
         else
           bnd (rest 1) (\<lambda>name.
           bnd (post_scopes close_error dump_memory pool_get rq name) (\<lambda>found.
             if \<not> found then not_found_scopes else ret ())))"

text \<open>Two pages that no request reaches.\<close>

definition return_success_scopes ::
  "(lib_call list \<Rightarrow> nat \<Rightarrow> string option) \<Rightarrow> fcgi_request \<Rightarrow> int \<Rightarrow> (world, unit) prog" where
  "return_success_scopes dump_memory rq document_id =
     scope (XMLDoc_make ''page'' ''1.0'') XMLDoc_destroy (\<lambda>doc.
       bnd (stylesheet rq doc) (\<lambda>_.
       scope (XMLNode_make ''document'') XMLNode_destroy (\<lambda>document.
         bnd (XMLNode_set_attr_int document ''id'' document_id) (\<lambda>_.
         bnd (XMLNode_get document) (\<lambda>p.
         bnd (XMLDoc_add doc p) (\<lambda>_.
         bnd (XMLNode_release document) (\<lambda>_.
           respond dump_memory (content_type_of rq) doc)))))))"

definition handle_get_scopes :: "(lib_call list \<Rightarrow> nat \<Rightarrow> string option) \<Rightarrow> fcgi_request \<Rightarrow> (world, unit) prog" where
  "handle_get_scopes dump_memory rq =
     scope (XMLDoc_make ''page'' ''1.0'') XMLDoc_destroy (\<lambda>doc.
       bnd (stylesheet rq doc) (\<lambda>_. respond dump_memory (content_type_of rq) doc))"


section \<open>The rows of the front page\<close>

text \<open>An element filled with the text of a column.\<close>

lemma corr_column_element:
  assumes "nodes L p = Some u" "pis L p = None" "\<And>e. e \<noteq> dump_error \<Longrightarrow> E e L"
    and "\<And>s t L2. asString st c = Returns s \<Longrightarrow> dead t L \<Longrightarrow>
      L2 = L\<lparr>nodes := (nodes L)(p := Some (node_add (text_element name s) u))\<rparr> \<Longrightarrow>
      corr view L2 k (f s) (\<lambda>a b. within (A_Node t) (Q a b)) (\<lambda>e. within (A_Node t) (E e))"
  shows "corr view L (column_element name st c p k) (bind_outcome (asString st c) f) Q E"
proof -
  have eq: "bnd (of_outcome r) (\<lambda>s. bnd (m s) (\<lambda>_. k')) = bnd (bnd (of_outcome r) m) (\<lambda>_. k')"
    for r :: "string outcome" and m :: "string \<Rightarrow> (world, unit) prog" and k' :: "(world, unit) prog"
    by (rule ext) (simp add: bnd_def split: prod.splits exit.splits)
  show ?thesis
    unfolding column_element_def eq
  proof (rule corr_child[where mk = "text_element name"])
    fix t L1 assume n: "new_node (XMLNode_new name) t L L1"
    note t = new_nodeD[OF n]
    have "corr view L1 (bnd (of_outcome (asString st c)) (XMLNode_add_text t)) (bind_outcome (asString st c) Returns)
        (\<lambda>_ s L2. L2 = L\<lparr>nodes := (nodes L)(t := Some (text_element name s))\<rparr>) (\<lambda>e. within (A_Node t) (E e))"
    proof (rule corr_read)
      fix e assume "asString st c = Throws e"
      then have "e \<noteq> dump_error" using asString_not_dump_error by blast
      then show "within (A_Node t) (E e) L1" using assms(3) t(6) by simp
    next
      fix s
      have "nodes L1 t = Some (XMLNode_new name)" "pis L1 t = None" using t by simp_all
      note corr_add_text[OF this, of s "\<lambda>e. within (A_Node t) (E e)"]
      moreover have "L1\<lparr>nodes := (nodes L1)(t := Some (add_text s (XMLNode_new name)))\<rparr> = L\<lparr>nodes := (nodes L)(t := Some (text_element name s))\<rparr>"
        by (simp add: t(1) text_element_def)
      ultimately show "corr view L1 (XMLNode_add_text t s) (Returns s)
          (\<lambda>_ s L2. L2 = L\<lparr>nodes := (nodes L)(t := Some (text_element name s))\<rparr>) (\<lambda>e. within (A_Node t) (E e))"
        by (simp add: corr_def)
    qed
    moreover have "bind_outcome (asString st c) Returns = asString st c" by (cases "asString st c") simp_all
    ultimately show "corr view L1 (bnd (of_outcome (asString st c)) (XMLNode_add_text t)) (asString st c)
        (\<lambda>_ s L2. L2 = L\<lparr>nodes := (nodes L)(t := Some (text_element name s))\<rparr>) (\<lambda>e. within (A_Node t) (E e))" by simp
  qed (use assms in auto)
qed

lemma corr_post_content:
  assumes "nodes L t = Some (XMLNode_new ''content'')" "pis L t = None"
  shows "corr view L (post_content s t) (Returns s) (\<lambda>_ s L1. L1 = L\<lparr>nodes := (nodes L)(t := Some (content_element s))\<rparr>) E"
proof (cases "find_str s ''<!--more-->'' 0 = npos")
  case True
  then show ?thesis using corr_add_text[OF assms, of s E] by (simp add: post_content_def content_element_def corr_def)
next
  case False
  let ?L = "L\<lparr>nodes := (nodes L)(t := Some (set_attr ''more'' ''yes'' (XMLNode_new ''content'')))\<rparr>"
  have "nodes ?L t = Some (set_attr ''more'' ''yes'' (XMLNode_new ''content''))" "pis ?L t = None" using assms by simp_all
  from corr_then[OF corr_set_attr[OF assms(1)] corr_add_text[OF this, of "take (find_str s ''<!--more-->'' 0) s" E]]
  show ?thesis using False by (simp add: post_content_def content_element_def corr_def Let_def)
qed

lemma corr_post_end:
  assumes post: "nodes L post = Some v" "pis L post = None" "nss L post = None"
    and posts: "nodes L posts = Some acc" "pis L posts = None" "posts \<noteq> post"
    and E: "\<And>e. e \<noteq> dump_error \<Longrightarrow> E e L"
    and Q: "\<And>s acc'. acc' = node_add (node_add (content_element s) v) acc \<Longrightarrow>
      Q () acc' (L\<lparr>nodes := (nodes L)(post := None, posts := Some acc')\<rparr>)"
  shows "corr view L (add_content post posts st)
    (bind_outcome (asString st 3) (\<lambda>content. Returns (node_add (node_add (content_element content) v) acc))) Q E"
  unfolding add_content_def
proof (rule corr_read)
  show "E e L" if "asString st 3 = Throws e" for e using that E asString_not_dump_error by metis
  fix s
  let ?acc = "node_add (node_add (content_element s) v) acc"
  have "corr view L (scope (XMLNode_make ''content'') XMLNode_destroy (\<lambda>elm.
         bnd (post_content s elm) (\<lambda>_. bnd (give elm post) (\<lambda>_. give post posts))))
      (bind_outcome (Returns s) (\<lambda>_. Returns ?acc)) Q E"
  proof (rule corr_child[OF post(1,2)])
    fix t L1 assume n: "new_node (XMLNode_new ''content'') t L L1"
    note t = new_nodeD[OF n]
    have "nodes L1 t = Some (XMLNode_new ''content'')" "pis L1 t = None" using t by simp_all
    from corr_post_content[OF this, of s "\<lambda>e. within (A_Node t) (E e)"]
    show "corr view L1 (post_content s t) (Returns s) (\<lambda>_ s L2. L2 = L\<lparr>nodes := (nodes L)(t := Some (content_element s))\<rparr>)
        (\<lambda>e. within (A_Node t) (E e))" by (simp add: t(1))
  next
    fix s' t assume s': "Returns s = Returns s'" and t: "dead t L"
    let ?L = "L\<lparr>nodes := (nodes L)(post := Some (node_add (content_element s') v))\<rparr>"
    have d: "post \<noteq> t" "posts \<noteq> t" using t post(1) posts(1) by (auto simp: dead_def)
    have g: "corr view ?L (give post posts) (Returns ())
        (\<lambda>_ _ L1. L1 = L\<lparr>nodes := (nodes L)(post := None, posts := Some ?acc)\<rparr>) (\<lambda>e. within (A_Node t) (E e))"
      using corr_give[of ?L post "node_add (content_element s') v" posts acc] post posts s'
      by (simp add: give_def)
    show "corr view ?L (give post posts) (Returns ?acc) (\<lambda>a b. within (A_Node t) (Q a b)) (\<lambda>e. within (A_Node t) (E e))"
      by (rule corr_last[OF g]) (use Q[of ?acc s] t d in \<open>simp add: dead_def\<close>)
  qed
  then show "corr view L (scope (XMLNode_make ''content'') XMLNode_destroy (\<lambda>elm.
         bnd (post_content s elm) (\<lambda>_. bnd (give elm post) (\<lambda>_. give post posts)))) (Returns ?acc) Q E" by simp
qed

lemma corr_post_of_row:
  assumes "nodes L posts = Some acc" "pis L posts = None" "\<And>e. e \<noteq> dump_error \<Longrightarrow> E e L"
  shows "corr view L (post_of_row posts st) (blogroll_row st acc) (\<lambda>_ acc' L1. L1 = L\<lparr>nodes := (nodes L)(posts := Some acc')\<rparr>) E"
  unfolding post_of_row_def blogroll_row_def
proof (rule node_scope, rule corr_read)
  fix post L1 assume n: "new_node (XMLNode_new ''post'') post L L1"
  note p = new_nodeD[OF n]
  have "posts \<noteq> post" using p(7) assms(1) by blast
  let ?E = "\<lambda>e. within (A_Node post) (E e)" and ?L = "\<lambda>v. L\<lparr>nodes := (nodes L)(post := Some v)\<rparr>"
  let ?Q = "\<lambda>_ acc'. within (A_Node post) (\<lambda>L1. L1 = L\<lparr>nodes := (nodes L)(posts := Some acc')\<rparr>)"
  have E: "?E e (?L v)" if "e \<noteq> dump_error" for e v using p(2) assms(3)[OF that] by (simp add: within_new)
  show "?E e L1" if "asInt st 0 = Throws e" for e using that E asInt_not_dump_error p(1) by metis
  fix i
  let ?v1 = "set_attr_int ''id'' i (XMLNode_new ''post'')"
  have set_id: "corr view L1 (XMLNode_set_attr_int post ''id'' i) (Returns ()) (\<lambda>_ _ L2. L2 = ?L ?v1) ?E"
    using corr_set_attr_int[of L1 post "XMLNode_new ''post''" "''id''" i ?E] by (simp add: p(1))
  let ?tail = "\<lambda>title excerpt. bind_outcome (asString st 3) (\<lambda>content.
    Returns (node_add (node_add (content_element content) (node_add (text_element ''excerpt'' excerpt)
      (node_add (text_element ''title'' title) ?v1))) acc))"
  show "corr view L1 (bnd (XMLNode_set_attr_int post ''id'' i) (\<lambda>_. column_element ''title'' st 1 post
        (column_element ''excerpt'' st 2 post (add_content post posts st))))
      (bind_outcome (asString st 1) (\<lambda>title. bind_outcome (asString st 2) (?tail title))) ?Q ?E"
  proof (rule corr_then[OF set_id], rule corr_column_element)
    fix title t1 L2 assume "dead t1 (?L ?v1)"
      and "L2 = ?L ?v1\<lparr>nodes := (nodes (?L ?v1))(post := Some (node_add (text_element ''title'' title) ?v1))\<rparr>"
    moreover define v2 where "v2 = node_add (text_element ''title'' title) ?v1"
    ultimately have t1: "post \<noteq> t1" "dead t1 L" and L2: "L2 = ?L v2" by simp_all
    have E1: "within (A_Node t1) (?E e) (?L v)" if "e \<noteq> dump_error" for e v using E[OF that] t1 by simp
    show "corr view L2 (column_element ''excerpt'' st 2 post (add_content post posts st))
        (bind_outcome (asString st 2) (?tail title)) (\<lambda>a b. within (A_Node t1) (?Q a b)) (\<lambda>e. within (A_Node t1) (?E e))"
      unfolding v2_def[symmetric]
    proof (rule corr_column_element)
      fix excerpt t2 L3 assume "dead t2 L2" "L3 = L2\<lparr>nodes := (nodes L2)(post := Some (node_add (text_element ''excerpt'' excerpt) v2))\<rparr>"
      moreover define v3 where "v3 = node_add (text_element ''excerpt'' excerpt) v2"
      ultimately have t2: "post \<noteq> t2" "dead t2 L" and L3: "L3 = ?L v3" by (simp_all add: L2)
      have d: "posts \<noteq> t1" "posts \<noteq> t2" using t1 t2 assms(1) by (auto simp: dead_def)
      show "corr view L3 (add_content post posts st)
          (bind_outcome (asString st 3) (\<lambda>content. Returns (node_add (node_add (content_element content) v3) acc)))
          (\<lambda>a b. within (A_Node t2) (within (A_Node t1) (?Q a b))) (\<lambda>e. within (A_Node t2) (within (A_Node t1) (?E e)))"
        unfolding v3_def[symmetric]
      proof (rule corr_post_end)
        show "within (A_Node t2) (within (A_Node t1) (?Q () acc')) (L3\<lparr>nodes := (nodes L3)(post := None, posts := Some acc')\<rparr>)" for acc'
          using d t1 t2 p(3-5) \<open>posts \<noteq> post\<close> by (auto simp: L3 fun_upd_idem dead_def)
      qed (use p \<open>posts \<noteq> post\<close> assms(1,2) E1 t2 L3 in auto)
    qed (use p E1 L2 in auto)
  qed (use p E in auto)
qed

lemma stylesheet_corr:
  assumes "new_doc doc x L L1"
  shows "corr view L1 (stylesheet rq x) (Returns ()) (\<lambda>_ _ L2. L2 = L1\<lparr>docs := (docs L1)(fst x := Some (snd x, with_stylesheet rq doc))\<rparr>) E"
proof (cases "get_param rq ''showxml'' = ''yes''")
  case True
  have "L1\<lparr>docs := (docs L1)(fst x := Some (snd x, doc))\<rparr> = L1"
    using doc_at_new[OF assms] by (simp add: doc_at_def fun_upd_idem)
  then show ?thesis using True by (simp add: stylesheet_def with_stylesheet_def corr_ret)
next
  case False
  then show ?thesis using corr_add_pi[OF doc_at_new[OF assms]] by (simp add: stylesheet_def with_stylesheet_def)
qed

text \<open>A document with its style sheet, around the rest of a page.\<close>

lemma corr_page:
  assumes "undoes L U L1"
    and "\<And>x V L2. doc_at x (with_stylesheet rq (XMLDoc_new ''page'' ''1.0'')) L2 \<Longrightarrow>
      (\<And>doc. undoes L V (L2\<lparr>docs := (docs L2)(fst x := Some (snd x, doc))\<rparr>)) \<Longrightarrow> undoes L V L2 \<Longrightarrow>
      corr view L2 (body x) r (\<lambda>a b. V (Q a b)) (\<lambda>e. V (E e))"
  shows "corr view L1 (scope (XMLDoc_make ''page'' ''1.0'') XMLDoc_destroy (\<lambda>x. bnd (stylesheet rq x) (\<lambda>_. body x))) r
    (\<lambda>a b. U (Q a b)) (\<lambda>e. U (E e))"
proof (rule doc_scope)
  fix x L2 assume n: "new_doc (XMLDoc_new ''page'' ''1.0'') x L1 L2"
  let ?V = "\<lambda>P. within (A_Doc x) (U P)" and ?doc = "with_stylesheet rq (XMLDoc_new ''page'' ''1.0'')"
  let ?L = "\<lambda>doc. L2\<lparr>docs := (docs L2)(fst x := Some (snd x, doc))\<rparr>"
  have u: "undoes L ?V (?L doc)" for doc using undoes_doc[OF assms(1) n] .
  have s: "corr view L2 (stylesheet rq x) (Returns ()) (\<lambda>_ _ L3. L3 = ?L ?doc) (\<lambda>e. within (A_Doc x) (U (E e)))"
    using stylesheet_corr[OF n] .
  show "corr view L2 (bnd (stylesheet rq x) (\<lambda>_. body x)) r (\<lambda>a b. within (A_Doc x) (U (Q a b))) (\<lambda>e. within (A_Doc x) (U (E e)))"
  proof (rule corr_then[OF s], rule assms(2))
    show "doc_at x ?doc (?L ?doc)" using doc_at_set[OF doc_at_new[OF n]] .
  qed (use u in simp_all)
qed

text \<open>The front page, from the loop over the rows to the response.\<close>

lemma corr_front_page:
  assumes "dumps_tree dump_memory dump" "doc_at x doc L1"
    and "\<And>doc. undoes L V (L1\<lparr>docs := (docs L1)(fst x := Some (snd x, doc))\<rparr>)" "undoes L V L1"
  shows "corr view L1
    (scope (XMLNode_make ''posts'') XMLNode_destroy (\<lambda>posts.
       bnd (fetching (post_of_row posts) st) (\<lambda>_. bnd (give_doc posts x) (\<lambda>_. respond dump_memory ctype x))))
    (bind_outcome (while_fetch blogroll_row st (XMLNode_new ''posts'')) (\<lambda>posts. document_text dump ctype (doc_add posts doc)))
    (\<lambda>_ b. V (wrote pool_get L b)) (\<lambda>e. V (threw pool_get ctype L e))"
proof (rule node_scope)
  fix posts L2 assume n: "new_node (XMLNode_new ''posts'') posts L1 L2"
  note p = new_nodeD[OF n]
  let ?E = "\<lambda>e. within (A_Node posts) (V (threw pool_get ctype L e))"
  let ?L = "\<lambda>v. L1\<lparr>nodes := (nodes L1)(posts := Some v)\<rparr>"
  have E: "?E e (?L v)" if "e \<noteq> dump_error" for e v
    using undoesD(1)[OF assms(4)] threw_self[OF that] by (simp add: within_new[OF p(2)])
  have loop: "corr view L2 (fetching (post_of_row posts) st) (while_fetch blogroll_row st (XMLNode_new ''posts''))
      (\<lambda>_ acc M. M = ?L acc) ?E"
  proof (rule corr_fetching)
    fix e st acc M assume "fetch st = Throws e" "M = ?L acc"
    then show "?E e M" using E fetch_not_dump_error[of st] by auto
  next
    fix st acc M assume M: "M = ?L acc"
    have "corr view M (post_of_row posts st) (blogroll_row st acc) (\<lambda>_ acc' L1. L1 = M\<lparr>nodes := (nodes M)(posts := Some acc')\<rparr>) ?E"
      using p(2) E by (intro corr_post_of_row) (auto simp: M fresh_in_def)
    then show "corr view M (post_of_row posts st) (blogroll_row st acc) (\<lambda>_ acc M. M = ?L acc) ?E" by (simp add: M)
  qed (simp add: p(1))
  show "corr view L2 (bnd (fetching (post_of_row posts) st) (\<lambda>_. bnd (give_doc posts x) (\<lambda>_. respond dump_memory ctype x)))
    (bind_outcome (while_fetch blogroll_row st (XMLNode_new ''posts'')) (\<lambda>posts. document_text dump ctype (doc_add posts doc)))
    (\<lambda>_ b. within (A_Node posts) (V (wrote pool_get L b))) ?E"
  proof (rule corr_bind[OF loop], simp only:)
    fix acc
    let ?D = "L1\<lparr>docs := (docs L1)(fst x := Some (snd x, doc_add acc doc))\<rparr>"
    have "snd x \<noteq> posts" using assms(2) p(2) by (auto simp: doc_at_def fresh_in_def)
    then have g: "corr view (?L acc) (give_doc posts x) (Returns ()) (\<lambda>_ _ M. M = ?D) ?E"
      using corr_doc_give[of x doc "?L acc" posts acc ?E] assms(2) p(3-5)
      by (simp add: give_doc_def doc_at_def fun_upd_idem)
    have "dead posts ?D" using p(3-5) by (simp add: dead_def)
    show "corr view (?L acc) (bnd (give_doc posts x) (\<lambda>_. respond dump_memory ctype x)) (document_text dump ctype (doc_add acc doc))
      (\<lambda>_ b. within (A_Node posts) (V (wrote pool_get L b))) ?E"
    proof (rule corr_then[OF g])
      have "undoes L (\<lambda>P. within (A_Node posts) (V P)) ?D"
        using assms(3)[of "doc_add acc doc"] \<open>dead posts ?D\<close> by (simp add: undoes_def dead_def)
      from corr_respond[OF assms(1) doc_at_set[OF assms(2)] this]
      show "corr view ?D (respond dump_memory ctype x) (document_text dump ctype (doc_add acc doc))
        (\<lambda>_ b. within (A_Node posts) (V (wrote pool_get L b))) ?E" .
    qed
  qed
qed


section \<open>Each handler\<close>

lemma blogroll_row_not_dump_error: "blogroll_row st acc \<noteq> Throws dump_error"
  unfolding blogroll_row_def by (intro not_dump_error_bind not_dump_error) simp

lemma corr_blogroll:
  assumes "dumps_tree dump_memory dump" "pool_get \<noteq> Throws dump_error"
  shows "corr view L (scope (DBConnHolder_make pool_get) DBConnHolder_destroy (\<lambda>conn.
        scope (DBStmt_make conn blogroll_sql) (DBStmt_destroy (\<lambda>_. None)) (\<lambda>stmt.
          bnd (of_outcome (execute (snd stmt))) (show_posts dump_memory rq))))
      (bind_outcome pool_get (\<lambda>conn. bind_outcome (DBStmt_new conn blogroll_sql) (\<lambda>st0.
        bind_outcome (execute st0) (\<lambda>st. bind_outcome (while_fetch blogroll_row st (XMLNode_new ''posts'')) (\<lambda>posts.
          document_text dump (content_type_of rq) (doc_add posts (with_stylesheet rq (XMLDoc_new ''page'' ''1.0''))))))))
      (\<lambda>_ b. wrote pool_get L b) (threw pool_get (content_type_of rq) L)"
proof (rule corr_query[OF assms(2)], rule corr_read)
  let ?ctype = "content_type_of rq"
  fix x U L1 assume u: "undoes L U L1"
  show "U (threw pool_get ?ctype L e) L1" if "execute (snd x) = Throws e" for e
    using that undoesD(1)[OF u] execute_not_dump_error[of "snd x"] by (auto intro: threw_self)
  show "corr view L1 (show_posts dump_memory rq st) (bind_outcome (while_fetch blogroll_row st (XMLNode_new ''posts'')) (\<lambda>posts.
        document_text dump ?ctype (doc_add posts (with_stylesheet rq (XMLDoc_new ''page'' ''1.0'')))))
      (\<lambda>a b. U (wrote pool_get L b)) (\<lambda>e. U (threw pool_get ?ctype L e))" for st
    unfolding show_posts_def by (rule corr_page[OF u]) (rule corr_front_page[OF assms(1)])
qed

lemma blogroll_makes:
  assumes "dumps_tree dump_memory dump" "pool_get \<noteq> Throws dump_error"
  shows "makes pool_get (content_type_of rq) L (blogroll_scopes (\<lambda>_. None) dump_memory pool_get rq) rs
    (handle_blogroll dump pool_get rq rs)"
proof -
  let ?ctype = "content_type_of rq" and ?doc = "with_stylesheet rq (XMLDoc_new ''page'' ''1.0'')"
  let ?rows = "\<lambda>st0. bind_outcome (execute st0) (\<lambda>st. while_fetch blogroll_row st (XMLNode_new ''posts''))"
  let ?text = "\<lambda>posts. document_text dump ?ctype (doc_add posts ?doc)"
  let ?data = "bind_outcome pool_get (\<lambda>conn. bind_outcome (DBStmt_new conn blogroll_sql) ?rows)"
  from corr_guarded[OF corr_blogroll[OF assms]]
  have "corr view L (blogroll_scopes (\<lambda>_. None) dump_memory pool_get rq)
      (caught (bind_outcome ?data ?text) (\<lambda>msg. Returns (error_page msg 200)))
      (\<lambda>_ b. wrote pool_get L b) (threw pool_get ?ctype L)"
    by (simp add: blogroll_scopes_def bind_assoc3)
  moreover have "handle_blogroll dump pool_get rq rs = as_handled ?ctype rs (caught (bind_outcome ?data ?text) (\<lambda>msg. Returns (error_page msg 200)))"
    unfolding handle_blogroll_def
  proof (rule catch_db_as_handled)
    show "?data \<noteq> Throws dump_error"
      by (intro not_dump_error_bind while_fetch_not_dump_error blogroll_row_not_dump_error DBStmt_new_not_dump_error
          not_dump_error assms(2))
  qed (simp_all add: document_written document_text_not_db)
  ultimately show ?thesis unfolding makes_def by blast
qed


text \<open>The pages of categories and authors write nothing.\<close>

lemma unbound_page_makes:
  assumes "pool_get \<noteq> Throws dump_error"
  shows "makes pool_get ctype L
    (try_db
       (scope (DBConnHolder_make pool_get) DBConnHolder_destroy (\<lambda>conn.
        scope (DBStmt_make conn sql) (DBStmt_destroy (\<lambda>_. None)) (\<lambda>stmt.
          bnd (of_outcome (execute (bindString 1 name (snd stmt)))) (\<lambda>st.
          bnd (of_outcome (fetch st)) (\<lambda>_. ret ())))))
       (on_db_error ''wp_handler::handle'')) rs
    (catch_db rs (bind_outcome pool_get (\<lambda>conn. bind_outcome (DBStmt_new conn sql) (\<lambda>st.
        bind_outcome (execute (bindString 1 name st)) fetch))) (\<lambda>_. Returns (None, rs)))"
proof -
  let ?data = "bind_outcome pool_get (\<lambda>conn. bind_outcome (DBStmt_new conn sql) (\<lambda>st.
        bind_outcome (execute (bindString 1 name st)) fetch))"
  have "corr view L (scope (DBConnHolder_make pool_get) DBConnHolder_destroy (\<lambda>conn.
        scope (DBStmt_make conn sql) (DBStmt_destroy (\<lambda>_. None)) (\<lambda>stmt.
          bnd (of_outcome (execute (bindString 1 name (snd stmt)))) (\<lambda>st.
          bnd (of_outcome (fetch st)) (\<lambda>_. ret ())))))
      (bind_outcome pool_get (\<lambda>conn. bind_outcome (DBStmt_new conn sql) (\<lambda>st.
        bind_outcome (execute (bindString 1 name st)) (\<lambda>st. bind_outcome (fetch st) (\<lambda>_. Returns [])))))
      (\<lambda>_ b. wrote pool_get L b) (threw pool_get ctype L)"
  proof (rule corr_query[OF assms], rule corr_read[OF _ corr_read])
    fix x U L1 assume u: "undoes L U L1"
    note T = undoesD(1)[OF u]
    show "U (threw pool_get ctype L e) L1" if "execute (bindString 1 name (snd x)) = Throws e" for e
      using that T execute_not_dump_error by (metis threw_self)
    show "U (threw pool_get ctype L e) L1" if "fetch st = Throws e" for e st
      using that T fetch_not_dump_error by (metis threw_self)
    show "corr view L1 (ret ()) (Returns []) (\<lambda>a b. U (wrote pool_get L b)) (\<lambda>e. U (threw pool_get ctype L e))"
      using T by (intro corr_ret) simp
  qed
  from corr_guarded[OF this] have "corr view L (try_db
       (scope (DBConnHolder_make pool_get) DBConnHolder_destroy (\<lambda>conn.
        scope (DBStmt_make conn sql) (DBStmt_destroy (\<lambda>_. None)) (\<lambda>stmt.
          bnd (of_outcome (execute (bindString 1 name (snd stmt)))) (\<lambda>st.
          bnd (of_outcome (fetch st)) (\<lambda>_. ret ())))))
       (on_db_error ''wp_handler::handle'')) (caught (bind_outcome ?data (\<lambda>_. Returns [])) (\<lambda>msg. Returns (error_page msg 200)))
      (\<lambda>_ b. wrote pool_get L b) (threw pool_get ctype L)"
    by (simp add: bind_assoc3)
  moreover have "catch_db rs ?data (\<lambda>_. Returns (None, rs)) =
      as_handled ctype rs (caught (bind_outcome ?data (\<lambda>_. Returns [])) (\<lambda>msg. Returns (error_page msg 200)))"
    by (rule catch_db_as_handled)
      (simp_all add: as_handled_def not_dump_error_bind DBStmt_new_not_dump_error not_dump_error assms)
  ultimately show ?thesis unfolding makes_def by blast
qed


section \<open>A post\<close>

lemma corr_post_page:
  assumes "dumps_tree dump_memory dump" "doc_at x doc L1"
    and "\<And>doc. undoes L V (L1\<lparr>docs := (docs L1)(fst x := Some (snd x, doc))\<rparr>)" "undoes L V L1"
  shows "corr view L1
    (scope (XMLNode_make ''post'') XMLNode_destroy (\<lambda>post.
       bnd (of_outcome (asInt st 0)) (\<lambda>post_id.
       bnd (XMLNode_set_attr_int post ''id'' post_id) (\<lambda>_.
       bnd (of_outcome (asString st 1)) (\<lambda>content.
       bnd (XMLNode_add_text post content) (\<lambda>_.
       bnd (give_doc post x) (\<lambda>_.
       respond dump_memory ctype x)))))))
    (bind_outcome (post_document st) (\<lambda>post. document_text dump ctype (doc_add post doc)))
    (\<lambda>_ b. V (wrote pool_get L b)) (\<lambda>e. V (threw pool_get ctype L e))"
  unfolding post_document_def bind_assoc3
proof (rule node_scope, rule corr_read)
  fix n L2 assume new: "new_node (XMLNode_new ''post'') n L1 L2"
  note p = new_nodeD[OF new]
  let ?E = "\<lambda>e. within (A_Node n) (V (threw pool_get ctype L e))" and ?L = "\<lambda>v. L1\<lparr>nodes := (nodes L1)(n := Some v)\<rparr>"
  let ?Q = "\<lambda>_ b. within (A_Node n) (V (wrote pool_get L b))"
  have E: "?E e (?L v)" if "e \<noteq> dump_error" for e v
    using undoesD(1)[OF assms(4)] threw_self[OF that] by (simp add: within_new[OF p(2)])
  show "?E e L2" if "asInt st 0 = Throws e" for e using that E asInt_not_dump_error p(1) by metis
  fix i
  let ?v = "set_attr_int ''id'' i (XMLNode_new ''post'')"
  have set_id: "corr view L2 (XMLNode_set_attr_int n ''id'' i) (Returns ()) (\<lambda>_ _ M. M = ?L ?v) ?E"
    using corr_set_attr_int[of L2 n "XMLNode_new ''post''" "''id''" i ?E] by (simp add: p(1))
  show "corr view L2 (bnd (XMLNode_set_attr_int n ''id'' i) (\<lambda>_. bnd (of_outcome (asString st 1)) (\<lambda>content.
       bnd (XMLNode_add_text n content) (\<lambda>_. bnd (give_doc n x) (\<lambda>_. respond dump_memory ctype x)))))
    (bind_outcome (asString st 1) (\<lambda>content. bind_outcome (Returns (add_text content ?v)) (\<lambda>post.
       document_text dump ctype (doc_add post doc)))) ?Q ?E"
  proof (rule corr_then[OF set_id], rule corr_read)
    show "?E e (?L ?v)" if "asString st 1 = Throws e" for e using that E asString_not_dump_error by metis
    fix content
    let ?post = "add_text content ?v"
    let ?D = "L1\<lparr>docs := (docs L1)(fst x := Some (snd x, doc_add ?post doc))\<rparr>"
    have filled: "corr view (?L ?v) (XMLNode_add_text n content) (Returns ()) (\<lambda>_ _ M. M = ?L ?post) ?E"
      using corr_add_text[of "?L ?v" n ?v content ?E] p(4) by simp
    have u: "undoes L (\<lambda>P. within (A_Node n) (V P)) ?D"
      by (rule undoes_dead[OF assms(3)]) (simp add: dead_def p)
    show "corr view (?L ?v) (bnd (XMLNode_add_text n content) (\<lambda>_. bnd (give_doc n x) (\<lambda>_. respond dump_memory ctype x)))
        (bind_outcome (Returns ?post) (\<lambda>post. document_text dump ctype (doc_add post doc))) ?Q ?E"
      using corr_respond[OF assms(1) doc_at_set[OF assms(2)] u]
      by (intro corr_then[OF filled] corr_then[OF corr_give_doc[OF assms(2) p(2)]]) simp
  qed
qed

definition post_text :: "(xml_doc \<Rightarrow> string option) \<Rightarrow> fcgi_request \<Rightarrow> xml_node \<Rightarrow> string outcome" where
  "post_text dump rq post = document_text dump (content_type_of rq) (doc_add post (with_stylesheet rq (XMLDoc_new ''page'' ''1.0'')))"

lemma corr_found:
  assumes "dumps_tree dump_memory dump" "pool_get \<noteq> Throws dump_error"
  shows "corr view L (scope (DBConnHolder_make pool_get) DBConnHolder_destroy (\<lambda>conn.
        scope (DBStmt_make conn (by_name_sql ''id, post_content'')) (DBStmt_destroy (\<lambda>_. None)) (\<lambda>stmt.
          bnd (of_outcome (execute (bindString 0 name (snd stmt)))) (\<lambda>st0.
          bnd (of_outcome (fetch st0)) (\<lambda>(got, st).
            if \<not> got then ret False
            else bnd (show_post dump_memory rq st) (\<lambda>_. ret True))))))
    (bind_outcome pool_get (\<lambda>conn. bind_outcome (DBStmt_new conn (by_name_sql ''id, post_content'')) (\<lambda>st.
       bind_outcome (execute (bindString 0 name st)) (\<lambda>st.
       bind_outcome (fetch st) (\<lambda>(got, st).
         if \<not> got then Returns (False, [])
         else bind_outcome (bind_outcome (post_document st) (post_text dump rq)) (\<lambda>s. Returns (True, s)))))))
    (\<lambda>a b M. a = fst b \<and> wrote pool_get L (snd b) M) (threw pool_get (content_type_of rq) L)"
proof (rule corr_query[OF assms(2)], rule corr_read[OF _ corr_read])
  fix x U L1 assume u: "undoes L U L1"
  note T = undoesD(1)[OF u]
  show "U (threw pool_get (content_type_of rq) L e) L1" if "execute (bindString 0 name (snd x)) = Throws e" for e
    using that T execute_not_dump_error by (metis threw_self)
  show "U (threw pool_get (content_type_of rq) L e) L1" if "fetch st = Throws e" for e st
    using that T fetch_not_dump_error by (metis threw_self)
  fix st0 and z :: "bool \<times> db_stmt"
  obtain got st where z: "z = (got, st)" by (cases z)
  let ?E = "\<lambda>e. U (threw pool_get (content_type_of rq) L e)" and ?Q = "\<lambda>a b. U (\<lambda>M. a = fst b \<and> wrote pool_get L (snd b) M)"
  have "corr view L1 (show_post dump_memory rq st) (bind_outcome (post_document st) (post_text dump rq)) (\<lambda>_ b. U (wrote pool_get L b)) ?E"
    unfolding show_post_def post_text_def by (rule corr_page[OF u corr_post_page[OF assms(1)]])
  then have "corr view L1 (bnd (show_post dump_memory rq st) (\<lambda>_. ret True))
      (bind_outcome (bind_outcome (post_document st) (post_text dump rq)) (\<lambda>s. Returns (True, s))) ?Q ?E"
    by (rule corr_bind) (simp add: corr_ret)
  moreover have "corr view L1 (ret False) (Returns (False, [])) ?Q ?E" using T by (simp add: corr_ret)
  ultimately show "corr view L1 (case z of (got, st) \<Rightarrow> if \<not> got then ret False else bnd (show_post dump_memory rq st) (\<lambda>_. ret True))
      (case z of (got, st) \<Rightarrow> if \<not> got then Returns (False, [])
         else bind_outcome (bind_outcome (post_document st) (post_text dump rq)) (\<lambda>s. Returns (True, s))) ?Q ?E"
    by (simp add: z)
qed


lemma corr_not_found:
  "wrote pool_get L s L1 \<Longrightarrow>
   corr view L1 not_found_scopes (Returns (s @ error_page ''page does not exist'' 404)) (\<lambda>_ b. wrote pool_get L b) E"
  unfolding not_found_scopes_def by (intro corr_then[OF corr_log(1)] corr_last[OF corr_write] wrote_more)

lemma post_makes:
  assumes "dumps_tree dump_memory dump" "pool_get \<noteq> Throws dump_error"
  shows "makes pool_get (content_type_of rq) L
    (bnd (post_scopes (\<lambda>_. None) dump_memory pool_get rq name) (\<lambda>found. if \<not> found then not_found_scopes else ret ())) rs
    (handle_post dump pool_get rq rs name)"
proof -
  let ?ctype = "content_type_of rq"
  let ?data = "bind_outcome pool_get (\<lambda>conn. bind_outcome (DBStmt_new conn (by_name_sql ''id, post_content'')) (\<lambda>st.
       bind_outcome (execute (bindString 0 name st)) (\<lambda>st. bind_outcome (fetch st) (\<lambda>(got, st).
         if \<not> got then Returns None else bind_outcome (post_document st) (\<lambda>n. Returns (Some n))))))"
  let ?found = "\<lambda>f. case f of None \<Rightarrow> Returns (False, []) | Some post \<Rightarrow> bind_outcome (post_text dump rq post) (\<lambda>s. Returns (True, s))"
  let ?text = "\<lambda>f. case f of None \<Rightarrow> Returns (error_page ''page does not exist'' 404) | Some post \<Rightarrow> post_text dump rq post"
  let ?finish = "\<lambda>(found, s). Returns (if found then s else s @ error_page ''page does not exist'' 404)"
  have data: "bind_outcome pool_get (\<lambda>conn. bind_outcome (DBStmt_new conn (by_name_sql ''id, post_content'')) (\<lambda>st.
       bind_outcome (execute (bindString 0 name st)) (\<lambda>st. bind_outcome (fetch st) (\<lambda>(got, st).
         if \<not> got then Returns (False, [])
         else bind_outcome (bind_outcome (post_document st) (post_text dump rq)) (\<lambda>s. Returns (True, s))))))
      = bind_outcome ?data ?found"
    by (simp add: bind_assoc3 if_distrib[of "\<lambda>r. bind_outcome r _"] case_prod_unfold cong: if_cong)
  have "corr view L (post_scopes (\<lambda>_. None) dump_memory pool_get rq name)
      (caught (bind_outcome ?data ?found) (\<lambda>msg. Returns (True, error_page msg 200)))
      (\<lambda>a b M. a = fst b \<and> wrote pool_get L (snd b) M) (threw pool_get ?ctype L)"
    unfolding post_scopes_def caught_def data[symmetric]
  proof (rule corr_then[OF corr_log(1)], rule corr_try_db[OF corr_found[OF assms]])
    fix msg stage M assume "threw pool_get ?ctype L (Db_Exception msg stage) M"
    then have "wrote pool_get L [] M" by (simp add: threw_def)
    from corr_on_db_error[OF this]
    have "corr view M (bnd (on_db_error ''wp_handler::handle'' (c_str msg)) (\<lambda>_. ret True))
        (bind_outcome (Returns ([] @ error_page (c_str msg) 200)) (\<lambda>s. Returns (True, s)))
        (\<lambda>a b M. a = fst b \<and> wrote pool_get L (snd b) M) (threw pool_get ?ctype L)"
      by (rule corr_bind) (simp add: corr_ret)
    then show "corr view M (bnd (on_db_error ''wp_handler::handle'' (c_str msg)) (\<lambda>_. ret True)) (Returns (True, error_page (c_str msg) 200))
        (\<lambda>a b M. a = fst b \<and> wrote pool_get L (snd b) M) (threw pool_get ?ctype L)" by simp
  qed
  then have "corr view L (bnd (post_scopes (\<lambda>_. None) dump_memory pool_get rq name) (\<lambda>found. if \<not> found then not_found_scopes else ret ()))
      (bind_outcome (caught (bind_outcome ?data ?found) (\<lambda>msg. Returns (True, error_page msg 200))) ?finish)
      (\<lambda>_ b. wrote pool_get L b) (threw pool_get ?ctype L)"
  proof (rule corr_bind)
    show "corr view M (if \<not> a then not_found_scopes else ret ()) (?finish b) (\<lambda>_ b. wrote pool_get L b) (threw pool_get ?ctype L)"
      if "a = fst b \<and> wrote pool_get L (snd b) M" for a b M
      using that by (cases b; cases a) (auto intro: corr_ret corr_not_found)
  qed
  moreover have "bind_outcome (caught (bind_outcome ?data ?found) (\<lambda>msg. Returns (True, error_page msg 200))) ?finish =
      caught (bind_outcome ?data ?text) (\<lambda>msg. Returns (error_page msg 200))"
  proof (cases ?data)
    case (Returns f)
    have "bind_outcome (caught (?found f) (\<lambda>msg. Returns (True, error_page msg 200))) ?finish = caught (?text f) (\<lambda>msg. Returns (error_page msg 200))"
      using document_text_not_db[of dump ?ctype]
      by (cases f) (auto simp: caught_def post_text_def bind_outcome_def split: outcome.splits exn.splits)
    then show ?thesis unfolding Returns by simp
  next
    case (Throws e)
    then show ?thesis unfolding Throws by (cases e) (simp_all add: caught_def)
  next
    case Undefined
    show ?thesis unfolding Undefined by (simp add: caught_def)
  next
    case Diverges
    show ?thesis unfolding Diverges by (simp add: caught_def)
  qed
  moreover have "handle_post dump pool_get rq rs name = as_handled ?ctype rs (caught (bind_outcome ?data ?text) (\<lambda>msg. Returns (error_page msg 200)))"
    unfolding handle_post_def
  proof (rule catch_db_as_handled)
    have "post_document st \<noteq> Throws dump_error" for st
      unfolding post_document_def by (intro not_dump_error_bind not_dump_error) simp
    then have "(case z of (got, st) \<Rightarrow> if \<not> got then Returns None else bind_outcome (post_document st) (\<lambda>n. Returns (Some n))) \<noteq> Throws dump_error" for z
      by (cases z) (simp add: not_dump_error_bind)
    then show "?data \<noteq> Throws dump_error"
      by (intro not_dump_error_bind DBStmt_new_not_dump_error not_dump_error assms(2))
  qed (auto simp: document_written document_text_not_db post_text_def handle_404_def return_error_out split: option.splits)
  ultimately show ?thesis unfolding makes_def by auto
qed


section \<open>The handler as a whole\<close>

lemma wp_handle_makes:
  assumes "dumps_tree dump_memory dump" "pool_get \<noteq> Throws dump_error"
  shows "makes pool_get (content_type_of rq) L (wp_handle_scopes (\<lambda>_. None) dump_memory pool_get rq) rs (wp_handle dump pool_get rq rs)"
proof -
  let ?s = "get_fcgi_param rq ''SCRIPT_NAME''"
  have rest: "makes pool_get (content_type_of rq) L (bnd (of_outcome (of_result (std_substr ?s n npos))) k) rs
      (case std_substr ?s n npos of Inl e \<Rightarrow> Returns (Some e, rs) | Inr name \<Rightarrow> h name)"
    if "\<And>name. makes pool_get (content_type_of rq) L (k name) rs (h name)" for n k h
  proof (cases "std_substr ?s n npos")
    case (Inl e)
    then have "e \<noteq> dump_error" by (auto simp: std_substr_def split: if_splits)
    moreover have "bnd (of_outcome (Throws e)) k = raise e" by (rule ext) (simp add: run)
    ultimately show ?thesis
      using Inl by (auto simp: makes_def of_result_def as_handled_def intro!: exI[of _ "Throws e"] corr_raise threw_self)
  next
    case (Inr name)
    then show ?thesis using that[of name] by (simp add: of_result_def)
  qed
  have named: "makes pool_get (content_type_of rq) L (category_scopes (\<lambda>_. None) pool_get name) rs (handle_category pool_get rs name)"
    "makes pool_get (content_type_of rq) L (author_scopes (\<lambda>_. None) pool_get name) rs (handle_author pool_get rs name)" for name
    unfolding category_scopes_def author_scopes_def handle_category_def handle_author_def
    by (intro makes_logged unbound_page_makes assms)+
  show ?thesis
    using rest[of "category_scopes (\<lambda>_. None) pool_get" "handle_category pool_get rs" "length ''/category/''", OF named(1)]
      rest[of "author_scopes (\<lambda>_. None) pool_get" "handle_author pool_get rs" "length ''/author/''", OF named(2)]
      rest[of _ "handle_post dump pool_get rq rs" 1, OF post_makes[OF assms]] blogroll_makes[OF assms]
    unfolding wp_handle_scopes_def wp_handle_def Let_def by presburger
qed

text \<open>A page, as an example.\<close>

lemma cake_page:
  "wp_handle (\<lambda>doc. Some (show_node (doc_root doc))) (Returns one_post_blog) (request_for ''/cake'') fcgi_response_new =
     Returns (None, out (page_header ''text/xml'' @ ''<page><post id=7>text</post></page>'') fcgi_response_new)"
proof -
  let ?dump = "\<lambda>doc. Some (show_node (doc_root doc))"
  let ?post = "Elem ''post'' [New_Prop ''id'' ''7'', Add_Child (Text ''text'')]"
  have "by_name_sql ''id, post_content'' \<noteq> blogroll_sql" by (simp add: by_name_sql_def blogroll_sql_def)
  moreover have "show_int 7 = ''7''" "read_int ''7'' = Some 7" by code_simp+
  ultimately have "handle_post ?dump (Returns one_post_blog) (request_for ''/cake'') fcgi_response_new ''cake'' =
      Returns (write_page ?dump (content_type_of (request_for ''/cake'')) (doc_add ?post (with_stylesheet (request_for ''/cake'') (XMLDoc_new ''page'' ''1.0''))) fcgi_response_new)"
    by (simp add: handle_post_def DBStmt_new_def one_post_blog_def execute_def bindString_def fetch_def full_rows_def fetch_column_def
        post_document_def asInt_def asString_def column_to_string_def read_int_show_int m_num_fields_def integer_of_def
        add_text_def set_attr_int_def set_attr_def node_add_def XMLNode_new_def c_str_def)
  moreover have "content_type_of (request_for ''/cake'') = ''text/xml''"
    by (simp add: content_type_of_def get_param_def request_for_def)
  moreover have "show_node (doc_root (doc_add ?post (with_stylesheet (request_for ''/cake'') (XMLDoc_new ''page'' ''1.0'')))) =
      ''<page><post id=7>text</post></page>''"
    by (simp add: doc_add_def with_stylesheet_def add_pi_def XMLDoc_new_def XMLNode_new_def node_add_def c_str_def)
  moreover have "find_str ''/cake'' ''/category/'' 0 \<noteq> 0" "find_str ''/cake'' ''/author/'' 0 \<noteq> 0"
    using prefix_slash[of "''category/''" "''cake''"] prefix_slash[of "''author/''" "''cake''"] by simp_all
  moreover have "std_substr ''/cake'' 1 npos = Inr ''cake''" by (simp add: std_substr_def npos_def)
  moreover have "get_fcgi_param (request_for ''/cake'') ''SCRIPT_NAME'' = ''/cake''"
    by (simp add: request_for_def get_fcgi_param_def)
  ultimately show "wp_handle ?dump (Returns one_post_blog) (request_for ''/cake'') fcgi_response_new =
      Returns (None, out (page_header ''text/xml'' @ ''<page><post id=7>text</post></page>'') fcgi_response_new)"
    by (simp add: wp_handle_def write_page_def doc_text_def page_header_def)
qed

text \<open>C25. The handler of the blog with its objects, log messages and library calls in their scopes refines the handler as a function of the request: when the libraries keep their terms and statements close, it returns, throws, gets stuck or loops exactly when the function says so, and the calls that wrote to the response add up to the function's response.\<close>

theorem blog_refines:
  assumes "dumps_tree dump_memory dump" "pool_get \<noteq> Throws dump_error"
  shows "serves (wp_handle_scopes (\<lambda>_. None) dump_memory pool_get rq) rs (wp_handle dump pool_get rq rs)"
  by (rule makes_serves(1)[OF wp_handle_makes[OF assms]])

theorem blog_refines_witness:
  "\<exists>w L. wp_handle_scopes (\<lambda>_. None) (write_out (\<lambda>doc. Some (show_node (doc_root doc)))) (Returns one_post_blog) (request_for ''/cake'') new_world = (Done (), w) \<and>
    replay (trace w) empty_ledger = Some L \<and>
    sent L = page_header ''text/xml'' @ ''<page><post id=7>text</post></page>''"
proof -
  let ?dump = "\<lambda>doc. Some (show_node (doc_root doc))"
  have "dumps_tree (write_out ?dump) ?dump" by (rule dumps_write_out)
  then show ?thesis
    using blog_refines[of "write_out ?dump" ?dump "Returns one_post_blog" "request_for ''/cake''" fcgi_response_new] cake_page
    by (auto simp: serves_def out_def fcgi_response_new_def)
qed

end
