(* ===== verification/Sitemap_Scopes.thy ===== *)
theory Sitemap_Scopes
  imports Page_Scopes Sitemap_Document
begin

text \<open>
  The handler of the site map (\<^verbatim>\<open>src/server/sitemap_handler.cpp\<close>) with its objects and their
  scopes: the connection, seven or nine statements one after the other, the document and the nodes of
  each URL. It is shown to refine \<^theory_text>\<open>Sitemap_Handler\<close> and to give back what it took.
\<close>

section \<open>The handler\<close>

definition text_child :: "string \<Rightarrow> string \<Rightarrow> nat \<Rightarrow> (world, unit) prog \<Rightarrow> (world, unit) prog" where
  "text_child name s parent k =
     scope (XMLNode_make name) XMLNode_destroy (\<lambda>elm.
       bnd (XMLNode_add_text elm s) (\<lambda>_. bnd (give elm parent) (\<lambda>_. k)))"

definition add_url_scopes :: "nat \<times> nat \<Rightarrow> string \<Rightarrow> string \<Rightarrow> string \<Rightarrow> string \<Rightarrow> (world, unit) prog" where
  "add_url_scopes doc loc lastmod changefreq priority =
     scope (XMLNode_make ''url'') XMLNode_destroy (\<lambda>url.
       text_child ''loc'' loc url
       (text_child ''lastmod'' lastmod url
       (text_child ''changefreq'' changefreq url
       (text_child ''priority'' priority url (give_doc url doc)))))"

definition get_base_url_scopes :: "(string \<Rightarrow> string option) \<Rightarrow> nat \<times> mysql \<Rightarrow> (world, string) prog" where
  "get_base_url_scopes close_error conn =
     scope (DBStmt_make conn (option_sql ''home'')) (DBStmt_destroy close_error) (\<lambda>stmt.
       bnd (of_outcome (execute (snd stmt))) (\<lambda>st0.
       bnd (of_outcome (fetch st0)) (\<lambda>(got, st). of_outcome (if got then asString st 0 else Returns []))))"

definition get_num_posts_per_page_scopes :: "(string \<Rightarrow> string option) \<Rightarrow> nat \<times> mysql \<Rightarrow> (world, 64 word) prog" where
  "get_num_posts_per_page_scopes close_error conn =
     scope (DBStmt_make conn (option_sql ''posts_per_page'')) (DBStmt_destroy close_error) (\<lambda>stmt.
       bnd (of_outcome (execute (snd stmt))) (\<lambda>st0.
       bnd (of_outcome (fetch st0)) (\<lambda>(got, st).
         of_outcome (if got then bind_outcome (asInt st 0) (\<lambda>v. Returns (word_of_int v)) else Returns 10))))"

text \<open>A block of the handler: a statement, its parameter, and the loop over its rows.\<close>

definition url_block ::
  "(string \<Rightarrow> string option) \<Rightarrow> nat \<times> mysql \<Rightarrow> string \<Rightarrow> (db_stmt \<Rightarrow> db_stmt) \<Rightarrow> (db_stmt \<Rightarrow> (world, unit) prog) \<Rightarrow> (world, unit) prog" where
  "url_block close_error conn sql bind row =
     scope (DBStmt_make conn sql) (DBStmt_destroy close_error) (\<lambda>stmt.
       bnd (of_outcome (execute (bind (snd stmt)))) (fetching row))"

definition page_row_scopes :: "string \<Rightarrow> nat \<times> nat \<Rightarrow> db_stmt \<Rightarrow> (world, unit) prog" where
  "page_row_scopes base_url doc st =
     bnd (of_outcome (modified_or_posted st)) (\<lambda>modified_dt.
     bnd (of_outcome (asString st 0)) (\<lambda>name.
     bnd (of_outcome (iso_time modified_dt)) (\<lambda>lastmod.
       add_url_scopes doc (base_url @ ''/'' @ name @ ''/'') lastmod ''weekly'' ''1'')))"

definition post_row_scopes :: "string \<Rightarrow> string \<Rightarrow> nat \<times> nat \<Rightarrow> db_stmt \<Rightarrow> (world, unit) prog" where
  "post_row_scopes hostname base_url doc st =
     bnd (of_outcome (asString st 2)) (\<lambda>dt.
     bnd (of_outcome (modified_or_posted st)) (\<lambda>modified_dt.
     bnd (of_outcome (asString st 0)) (\<lambda>name.
     bnd (of_outcome
       (if hostname \<noteq> special_host then Returns (base_url @ ''/wedding-cakes/'' @ name @ ''/'')
        else bind_outcome (of_result (std_substr dt 0 4)) (\<lambda>year.
             bind_outcome (of_result (std_substr dt 5 2)) (\<lambda>month.
               Returns (base_url @ ''/'' @ year @ ''/'' @ month @ ''/'' @ name @ ''/''))))) (\<lambda>url.
     bnd (of_outcome (iso_time modified_dt)) (\<lambda>lastmod.
       add_url_scopes doc url lastmod (if hostname \<noteq> special_host then ''weekly'' else ''monthly'') ''1'')))))"

text \<open>The pages of an archive, after its first.\<close>

definition add_pages_scopes :: "nat \<times> nat \<Rightarrow> string \<Rightarrow> string \<Rightarrow> 32 word list \<Rightarrow> (world, unit) prog" where
  "add_pages_scopes doc url lastmod ps =
     each (\<lambda>p. add_url_scopes doc (url @ ''page/'' @ show_nat (unat p) @ ''/'') lastmod ''daily'' ''1'') ps"

definition term_row_scopes :: "string \<Rightarrow> 64 word \<Rightarrow> string \<Rightarrow> nat \<times> nat \<Rightarrow> db_stmt \<Rightarrow> (world, unit) prog" where
  "term_row_scopes base_url num_posts_per_page taxonomy doc st =
     bnd (of_outcome (asString st 1)) (\<lambda>modified_dt.
     bnd (of_outcome (asInt st 2)) (\<lambda>n.
     bnd (of_outcome (asString st 0)) (\<lambda>slug.
       let num_posts = word_of_int n :: 32 word;
           url = base_url @ ''/'' @ (if taxonomy = ''placecategory'' then ''weddingcakes'' else taxonomy) @
                 ''/'' @ slug @ ''/''
       in bnd (of_outcome (iso_time modified_dt)) (\<lambda>lastmod.
          bnd (add_url_scopes doc url lastmod ''daily'' ''1'') (\<lambda>_.
            case term_pages num_posts_per_page num_posts of
              None \<Rightarrow> of_outcome Diverges
            | Some ps \<Rightarrow> add_pages_scopes doc url lastmod ps)))))"

definition author_row_scopes :: "string \<Rightarrow> nat \<times> nat \<Rightarrow> db_stmt \<Rightarrow> (world, unit) prog" where
  "author_row_scopes base_url doc st =
     bnd (of_outcome (asString st 1)) (\<lambda>modified_dt.
     bnd (of_outcome (asString st 0)) (\<lambda>login.
     bnd (of_outcome (iso_time modified_dt)) (\<lambda>lastmod.
       add_url_scopes doc (base_url @ ''/author/'' @ login @ ''/'') lastmod ''daily'' ''1'')))"

definition front_row_scopes :: "string \<Rightarrow> string \<Rightarrow> 64 word \<Rightarrow> nat \<times> nat \<Rightarrow> db_stmt \<Rightarrow> (world, unit) prog" where
  "front_row_scopes hostname base_url num_posts_per_page doc st =
     bnd (of_outcome (asString st 0)) (\<lambda>modified_dt.
     bnd (of_outcome (asInt st 1)) (\<lambda>n.
       let url = base_url @ ''/''
       in bnd (of_outcome (iso_time modified_dt)) (\<lambda>lastmod.
          bnd (add_url_scopes doc url lastmod ''daily'' ''1'') (\<lambda>_.
            case front_pages hostname num_posts_per_page (word_of_int n) of
              None \<Rightarrow> of_outcome Diverges
            | Some None \<Rightarrow> of_outcome Undefined
            | Some (Some ps) \<Rightarrow> add_pages_scopes doc url lastmod ps))))"

definition sitemap_scopes ::
  "(string \<Rightarrow> string option) \<Rightarrow> (lib_call list \<Rightarrow> nat \<Rightarrow> string option) \<Rightarrow> string \<Rightarrow> nat \<times> mysql \<Rightarrow> (world, unit) prog" where
  "sitemap_scopes close_error dump_memory hostname conn =
     bnd (get_base_url_scopes close_error conn) (\<lambda>base_url.
     bnd (get_num_posts_per_page_scopes close_error conn) (\<lambda>num_posts_per_page.
       scope (XMLDoc_make_ns ''urlset'' ''http://www.sitemaps.org/schemas/sitemap/0.9'' ''1.0'') XMLDoc_destroy (\<lambda>doc.
         bnd (XMLDoc_add_pi doc ''xml-stylesheet''
           (''type='' @ [QUOTE] @ ''text/xsl'' @ [QUOTE] @ '' href='' @ [QUOTE] @
             (if hostname = special_host then ''wp-content/plugins/google-sitemap-plugin/sitemap.xsl''
              else ''wp-content/uploads/sitemap.xsl'') @ [QUOTE])) (\<lambda>_.
         bnd (url_block close_error conn pages_sql id (page_row_scopes base_url doc)) (\<lambda>_.
         bnd (each (\<lambda>post_type. url_block close_error conn posts_sql (bindString 0 post_type)
                (post_row_scopes hostname base_url doc)) (post_types hostname)) (\<lambda>_.
         bnd (each (\<lambda>taxonomy. url_block close_error conn terms_sql (bindString 0 taxonomy)
                (term_row_scopes base_url num_posts_per_page taxonomy doc)) (taxonomy_types hostname)) (\<lambda>_.
         bnd (if hostname = special_host then url_block close_error conn authors_sql id (author_row_scopes base_url doc)
              else ret ()) (\<lambda>_.
         bnd (url_block close_error conn front_sql id (front_row_scopes hostname base_url num_posts_per_page doc)) (\<lambda>_.
           respond dump_memory ''application/xml'' doc)))))))))"

definition sitemap_handle_scopes ::
  "(string \<Rightarrow> string option) \<Rightarrow> (lib_call list \<Rightarrow> nat \<Rightarrow> string option) \<Rightarrow> (nat \<Rightarrow> mysql outcome) \<Rightarrow> site_map \<Rightarrow>
     fcgi_request \<Rightarrow> (world, unit) prog" where
  "sitemap_handle_scopes close_error dump_memory get_conn sites rq =
     bnd (log_info ''sitemap_handler::handle'') (\<lambda>_.
       let hostname = get_fcgi_param rq ''SERVER_NAME''
       in case map_find sites hostname of
            None \<Rightarrow>
              bnd (log_error (''sitemap_handler::handle site not found: '' @ hostname)) (\<lambda>_.
                call (Write (error_page (''site not found: '' @ hostname) 200)))
          | Some db_pool \<Rightarrow>
              try_db
                (scope (DBConnHolder_make (get_conn db_pool)) DBConnHolder_destroy
                  (sitemap_scopes close_error dump_memory hostname))
                (on_db_error ''sitemap_handler::handle''))"

section \<open>URL elements\<close>

lemma corr_text_child:
  assumes "nodes L p = Some u" "pis L p = None"
    and "\<And>t L2. dead t L \<Longrightarrow> L2 = L\<lparr>nodes := (nodes L)(p := Some (node_add (text_element name s) u))\<rparr> \<Longrightarrow>
      corr view L2 k r (\<lambda>a b. within (A_Node t) (Q a b)) (\<lambda>e. within (A_Node t) (E e))"
  shows "corr view L (text_child name s p k) r Q E"
proof -
  have "corr view L (text_child name s p k) (bind_outcome (Returns ()) (\<lambda>_. r)) Q E"
    unfolding text_child_def
  proof (rule corr_child[where mk = "\<lambda>_. text_element name s", OF assms(1,2)])
    fix t L1 assume n: "new_node (XMLNode_new name) t L L1"
    note t = new_nodeD[OF n]
    have "nodes L1 t = Some (XMLNode_new name)" "pis L1 t = None" using t by simp_all
    from corr_add_text[OF this, of s "\<lambda>e. within (A_Node t) (E e)"]
    show "corr view L1 (XMLNode_add_text t s) (Returns ()) (\<lambda>_ _ L2. L2 = L\<lparr>nodes := (nodes L)(t := Some (text_element name s))\<rparr>)
        (\<lambda>e. within (A_Node t) (E e))" by (simp add: t(1) text_element_def)
  qed (use assms(3) in auto)
  then show ?thesis by simp
qed

lemma corr_add_url:
  assumes "doc_at x doc L"
  shows "corr view L (add_url_scopes x loc lastmod changefreq priority) (Returns ())
    (\<lambda>_ _ M. M = L\<lparr>docs := (docs L)(fst x := Some (snd x, add_url loc lastmod changefreq priority doc))\<rparr>) E"
  unfolding add_url_scopes_def
proof (rule node_scope)
  fix n L1 assume new: "new_node (XMLNode_new ''url'') n L L1"
  note p = new_nodeD[OF new]
  let ?L = "\<lambda>v. L\<lparr>nodes := (nodes L)(n := Some v)\<rparr>"
  let ?M = "L\<lparr>docs := (docs L)(fst x := Some (snd x, add_url loc lastmod changefreq priority doc))\<rparr>"
  have "dead n L" using p by (simp add: dead_def)
  have step: "corr view L1' (text_child name s n k) (Returns ()) Q' E'"
    if "L1' = ?L v" and "\<And>t. dead t L \<Longrightarrow> corr view (?L (node_add (text_element name s) v)) k (Returns ())
      (\<lambda>a b. within (A_Node t) (Q' a b)) (\<lambda>e. within (A_Node t) (E' e))" for L1' v name s k Q' E'
    using that by (intro corr_text_child) (auto simp: p)
  show "corr view L1 (text_child ''loc'' loc n (text_child ''lastmod'' lastmod n
       (text_child ''changefreq'' changefreq n (text_child ''priority'' priority n (give_doc n x)))))
      (Returns ()) (\<lambda>a b. within (A_Node n) (\<lambda>M. M = ?M)) (\<lambda>e. within (A_Node n) (E e))"
    by (intro step[OF p(1)] step[OF refl] corr_last[OF corr_give_doc[OF assms p(2)]])
      (simp add: \<open>dead n L\<close> add_url_def)
qed


section \<open>Rows\<close>

text \<open>The ledger inside the document's scope, with the document so far.\<close>

abbreviation with_doc :: "ledger \<Rightarrow> nat \<times> nat \<Rightarrow> xml_doc \<Rightarrow> ledger" where
  "with_doc L x doc \<equiv> L\<lparr>docs := (docs L)(fst x := Some (snd x, doc))\<rparr>"

definition has_doc :: "nat \<times> nat \<Rightarrow> ledger \<Rightarrow> bool" where
  "has_doc x L \<longleftrightarrow> roots L (snd x) = Some (fst x) \<and> nodes L (snd x) = None"

lemma has_doc_at [simp]: "has_doc x L \<Longrightarrow> doc_at x doc (with_doc L x doc)"
  by (simp add: has_doc_def doc_at_def)

lemma corr_one_url:
  "has_doc x L \<Longrightarrow> corr view (with_doc L x doc) (add_url_scopes x loc lastmod changefreq priority)
     (Returns (add_url loc lastmod changefreq priority doc)) (\<lambda>_ doc' M. M = with_doc L x doc') E"
  by (rule corr_last[OF corr_add_url[OF has_doc_at]]) simp_all

lemma for_each_Returns: "for_each (\<lambda>y a. Returns (g y a)) ys a = Returns (fold g ys a)"
  by (induction ys arbitrary: a) simp_all

lemma corr_pages:
  assumes "has_doc x L"
  shows "corr view (with_doc L x doc) (add_pages_scopes x url lastmod ps) (Returns (add_pages url lastmod ps doc)) (\<lambda>_ doc' M. M = with_doc L x doc') E"
proof -
  have "corr view (with_doc L x doc) (add_pages_scopes x url lastmod ps)
      (for_each (\<lambda>p doc. Returns (add_url (url @ ''page/'' @ show_nat (unat p) @ ''/'') lastmod ''daily'' ''1'' doc)) ps doc)
      (\<lambda>_ doc' M. M = with_doc L x doc') E"
    unfolding add_pages_scopes_def by (rule corr_each) (use corr_one_url[OF assms] in auto)
  then show ?thesis by (simp add: add_pages_def for_each_Returns)
qed

lemma iso_time_not_dump_error: "iso_time s \<noteq> Throws dump_error"
  by (simp add: iso_time_def)

lemma modified_or_posted_not_dump_error: "modified_or_posted st \<noteq> Throws dump_error"
  unfolding modified_or_posted_def by (rule not_dump_error_bind) (simp_all add: asString_not_dump_error)

lemma substr_not_dump_error: "of_result (std_substr s i n) \<noteq> Throws dump_error"
  by (simp add: of_result_def std_substr_def)

lemmas row_not_dump_error = not_dump_error iso_time_not_dump_error modified_or_posted_not_dump_error substr_not_dump_error

text \<open>The reads of a row throw nothing but errors of the database and of positions.\<close>

lemma corr_row_read:
  assumes "r \<noteq> Throws dump_error" "\<And>e. e \<noteq> dump_error \<Longrightarrow> E e L" "\<And>a. r = Returns a \<Longrightarrow> corr view L (k a) (f a) Q E"
  shows "corr view L (bnd (of_outcome r) k) (bind_outcome r f) Q E"
  by (rule corr_read) (use assms in auto)

lemma rows_corr:
  assumes "has_doc x L" "\<And>e doc. e \<noteq> dump_error \<Longrightarrow> E e (with_doc L x doc)"
  shows "corr view (with_doc L x doc) (page_row_scopes base_url x st) (page_row base_url st doc) (\<lambda>_ doc' M. M = with_doc L x doc') E"
    "corr view (with_doc L x doc) (post_row_scopes hostname base_url x st) (post_row hostname base_url st doc) (\<lambda>_ doc' M. M = with_doc L x doc') E"
    "corr view (with_doc L x doc) (term_row_scopes base_url per_page taxonomy x st) (term_row base_url per_page taxonomy st doc) (\<lambda>_ doc' M. M = with_doc L x doc') E"
    "corr view (with_doc L x doc) (author_row_scopes base_url x st) (author_row base_url st doc) (\<lambda>_ doc' M. M = with_doc L x doc') E"
    "corr view (with_doc L x doc) (front_row_scopes hostname base_url per_page x st) (front_row hostname base_url per_page st doc) (\<lambda>_ doc' M. M = with_doc L x doc') E"
proof -
  note E = assms(2) and url = corr_one_url[OF assms(1)] and read = corr_row_read
  have more: "corr view (with_doc L x doc) (bnd (add_url_scopes x u t ''daily'' ''1'') (\<lambda>_. k)) r (\<lambda>_ doc' M. M = with_doc L x doc') E"
    if "corr view (with_doc L x (add_url u t ''daily'' ''1'' doc)) k r (\<lambda>_ doc' M. M = with_doc L x doc') E" for u t k r
  proof (rule corr_then[OF _ that])
    show "corr view (with_doc L x doc) (add_url_scopes x u t ''daily'' ''1'') (Returns ()) (\<lambda>_ _ M. M = with_doc L x (add_url u t ''daily'' ''1'' doc)) E"
      by (rule corr_last[OF corr_add_url[OF has_doc_at[OF assms(1)]]]) simp
  qed
  show "corr view (with_doc L x doc) (page_row_scopes base_url x st) (page_row base_url st doc) (\<lambda>_ doc' M. M = with_doc L x doc') E"
    unfolding page_row_scopes_def page_row_def by (intro read url row_not_dump_error E)
  show "corr view (with_doc L x doc) (author_row_scopes base_url x st) (author_row base_url st doc) (\<lambda>_ doc' M. M = with_doc L x doc') E"
    unfolding author_row_scopes_def author_row_def by (intro read url row_not_dump_error E)
  have "(if hostname \<noteq> special_host then Returns u
      else bind_outcome (of_result (std_substr dt 0 4)) (\<lambda>year. bind_outcome (of_result (std_substr dt 5 2)) (\<lambda>month. Returns (v year month))))
      \<noteq> Throws dump_error" for u v dt
    by (simp add: not_dump_error_bind substr_not_dump_error)
  then show "corr view (with_doc L x doc) (post_row_scopes hostname base_url x st) (post_row hostname base_url st doc) (\<lambda>_ doc' M. M = with_doc L x doc') E"
    unfolding post_row_scopes_def post_row_def by (intro read url row_not_dump_error E)
  show "corr view (with_doc L x doc) (term_row_scopes base_url per_page taxonomy x st) (term_row base_url per_page taxonomy st doc) (\<lambda>_ doc' M. M = with_doc L x doc') E"
    unfolding term_row_scopes_def term_row_def Let_def
    by (intro read more row_not_dump_error E) (auto intro: corr_pages[OF assms(1)] split: option.splits)
  show "corr view (with_doc L x doc) (front_row_scopes hostname base_url per_page x st) (front_row hostname base_url per_page st doc) (\<lambda>_ doc' M. M = with_doc L x doc') E"
    unfolding front_row_scopes_def front_row_def Let_def
    by (intro read more row_not_dump_error E) (auto intro: corr_pages[OF assms(1)] split: option.splits)
qed


section \<open>Blocks\<close>

lemma stmt_in_doc:
  assumes "new_stmt h s (with_doc L x doc) L1"
  obtains L2 where "L1 = with_doc L2 x doc" "\<And>doc'. new_stmt h s (with_doc L x doc') (with_doc L2 x doc')"
    "has_doc x L2 = has_doc x L"
proof
  let ?L2 = "L\<lparr>metas := (if m_column_data (snd s) \<noteq> [] then insert (fst s) (metas L) else metas L),
      stmts := (stmts L)(fst s := Some (fst h))\<rparr>"
  have f: "fresh_in (with_doc L x doc') s'" if "fresh_in (with_doc L x doc) s'" for doc' s'
    using that by (auto simp: fresh_in_def split: if_splits)
  show "L1 = with_doc ?L2 x doc" using assms by (cases L) (simp add: new_stmt_def)
  show "new_stmt h s (with_doc L x doc') (with_doc ?L2 x doc')" for doc'
    using assms f[of "fst s" doc'] by (cases L) (simp add: new_stmt_def)
  show "has_doc x ?L2 = has_doc x L" by (simp add: has_doc_def)
qed

lemma corr_url_block:
  assumes "has_doc x L" "fst h \<in> conns L"
    and E: "\<And>e doc. e \<noteq> dump_error \<Longrightarrow> E e (with_doc L x doc)"
    and leak: "\<And>msg doc L1. leaked h sql (with_doc L x doc) L1 \<Longrightarrow> E (Db_Exception msg ''prepare'') L1"
    and rows: "\<And>L E st doc. has_doc x L \<Longrightarrow> (\<And>e doc. e \<noteq> dump_error \<Longrightarrow> E e (with_doc L x doc)) \<Longrightarrow>
      corr view (with_doc L x doc) (row st) (prow st doc) (\<lambda>_ doc' M. M = with_doc L x doc') E"
  shows "corr view (with_doc L x doc) (url_block (\<lambda>_. None) h sql bind row)
    (bind_outcome (DBStmt_new (snd h) sql) (\<lambda>st. bind_outcome (execute (bind st)) (\<lambda>st. while_fetch prow st doc)))
    (\<lambda>_ doc' M. M = with_doc L x doc') E"
  unfolding url_block_def
proof (rule stmt_scope)
  show "fst h \<in> conns (with_doc L x doc)" using assms(2) by simp
  show "E (Db_Exception msg ''prepare'') L1" if "leaked h sql (with_doc L x doc) L1" for msg L1 using leak[OF that] .
next
  fix s L1 assume "new_stmt h s (with_doc L x doc) L1"
  from stmt_in_doc[OF this] obtain L2 where L1: "L1 = with_doc L2 x doc"
    and new: "\<And>doc'. new_stmt h s (with_doc L x doc') (with_doc L2 x doc')" and L2: "has_doc x L2"
    using assms(1) by blast
  let ?E = "\<lambda>e. within (A_Stmt s) (E e)"
  have T: "within (A_Stmt s) P (with_doc L2 x doc') = P (with_doc L x doc')" for P doc'
    using within_stmt[OF new] assms(2) by simp
  then have E2: "?E e (with_doc L2 x doc')" if "e \<noteq> dump_error" for e doc' using E[OF that] by simp
  show "corr view L1 (bnd (of_outcome (execute (bind (snd s)))) (fetching row))
      (bind_outcome (execute (bind (snd s))) (\<lambda>st. while_fetch prow st doc))
      (\<lambda>a c. within (A_Stmt s) (\<lambda>M. M = with_doc L x c)) ?E"
    unfolding L1
  proof (rule corr_row_read)
    show "execute (bind (snd s)) \<noteq> Throws dump_error" by (rule execute_not_dump_error)
    show "?E e (with_doc L2 x doc)" if "e \<noteq> dump_error" for e using E2[OF that] .
    fix st
    have "corr view (with_doc L2 x doc) (fetching row st) (while_fetch prow st doc) (\<lambda>_ acc M. M = with_doc L2 x acc) ?E"
    proof (rule corr_fetching)
      show "?E e M" if "fetch st' = Throws e" "M = with_doc L2 x acc" for e st' acc M
        using that E2 fetch_not_dump_error by (metis (no_types))
      show "corr view M (row st') (prow st' acc) (\<lambda>_ acc M. M = with_doc L2 x acc) ?E" if "M = with_doc L2 x acc" for st' acc M
        unfolding that by (rule rows) (use L2 E2 in auto)
    qed simp
    then show "corr view (with_doc L2 x doc) (fetching row st) (while_fetch prow st doc)
        (\<lambda>a c. within (A_Stmt s) (\<lambda>M. M = with_doc L x c)) ?E"
      by (rule corr_conseq) (simp_all add: T)
  qed
qed

text \<open>The two options are read before there is a document.\<close>

lemma corr_option:
  assumes "fst h \<in> conns L" "\<And>e. e \<noteq> dump_error \<Longrightarrow> E e L"
    and "\<And>msg L1. leaked h sql L L1 \<Longrightarrow> E (Db_Exception msg ''prepare'') L1"
    and "\<And>z. p z \<noteq> Throws dump_error"
  shows "corr view L (scope (DBStmt_make h sql) (DBStmt_destroy (\<lambda>_. None)) (\<lambda>stmt.
      bnd (of_outcome (execute (snd stmt))) (\<lambda>st. bnd (of_outcome (fetch st)) (\<lambda>z. of_outcome (p z)))))
    (bind_outcome (DBStmt_new (snd h) sql) (\<lambda>st. bind_outcome (execute st) (\<lambda>st. bind_outcome (fetch st) p)))
    (\<lambda>a b M. a = b \<and> M = L) E"
proof (rule stmt_scope)
  show "fst h \<in> conns L" by (rule assms(1))
  show "E (Db_Exception msg ''prepare'') L1" if "leaked h sql L L1" for msg L1 using assms(3)[OF that] .
  fix s L1 assume n: "new_stmt h s L L1"
  note T = within_stmt[OF n assms(1)]
  show "corr view L1 (bnd (of_outcome (execute (snd s))) (\<lambda>st. bnd (of_outcome (fetch st)) (\<lambda>z. of_outcome (p z))))
      (bind_outcome (execute (snd s)) (\<lambda>st. bind_outcome (fetch st) p))
      (\<lambda>a c. within (A_Stmt s) (\<lambda>M. a = c \<and> M = L)) (\<lambda>e. within (A_Stmt s) (E e))"
    by (intro corr_row_read corr_outcome not_dump_error) (simp_all add: T assms(2), metis assms(2,4))
qed


section \<open>The document\<close>

text \<open>A statement that stays, seen from outside the document.\<close>

lemma leaked_in_doc:
  assumes "new_doc doc0 x L L1" "leaked h sql (with_doc L1 x doc) M"
  obtains M' where "leaked h sql L M'" "\<And>P. within (A_Doc x) P M = P M'"
proof -
  obtain s msg where s: "sql_prepare (snd h) sql = Inl msg" "fresh_in (with_doc L1 x doc) s"
    "M = (with_doc L1 x doc)\<lparr>stmts := (stmts (with_doc L1 x doc))(s := Some (fst h))\<rparr>"
    using assms(2) by (auto simp: leaked_def)
  let ?M = "L\<lparr>stmts := (stmts L)(s := Some (fst h))\<rparr>"
  have "fresh_in L s" using s(2) assms(1) by (auto simp: fresh_in_def new_doc_def split: if_splits)
  then have "leaked h sql L ?M" using s(1) by (auto simp: leaked_def)
  moreover have "dropped (A_Doc x) M = ?M"
    using assms(1) by (cases L) (simp add: s(3) new_doc_def fresh_in_def fun_upd_idem)
  then have "within (A_Doc x) P M = P ?M" for P
    using s(3) by (simp add: within_def)
  ultimately show thesis by (rule that)
qed

lemma has_doc_new: "new_doc doc0 x L L1 \<Longrightarrow> has_doc x L1 \<and> L1 = with_doc L1 x doc0"
  by (cases L) (auto simp: new_doc_def has_doc_def fresh_in_def)

text \<open>The blocks of a document, one after the other.\<close>

lemma corr_part:
  assumes "corr view (with_doc L x doc) m r (\<lambda>_ doc' M. M = with_doc L x doc') E"
    and "\<And>doc'. r = Returns doc' \<Longrightarrow> corr view (with_doc L x doc') k (f doc') Q E"
  shows "corr view (with_doc L x doc) (bnd m (\<lambda>_. k)) (bind_outcome r f) Q E"
  by (rule corr_bind[OF assms(1)]) (use assms(2) in auto)

lemma corr_parts:
  assumes "\<And>y doc. corr view (with_doc L x doc) (m y) (r y doc) (\<lambda>_ doc' M. M = with_doc L x doc') E"
    and "\<And>doc'. corr view (with_doc L x doc') k (f doc') Q E"
  shows "corr view (with_doc L x doc) (bnd (each m ys) (\<lambda>_. k)) (bind_outcome (for_each r ys doc) f) Q E"
  by (rule corr_part[OF corr_each]) (use assms in auto)

lemma corr_sitemap_urls:
  assumes doc: "has_doc x L" "fst h \<in> conns L"
    and E: "\<And>e doc. e \<noteq> dump_error \<Longrightarrow> E e (with_doc L x doc)"
    and leak: "\<And>msg sql doc L1. leaked h sql (with_doc L x doc) L1 \<Longrightarrow> E (Db_Exception msg ''prepare'') L1"
    and rest: "\<And>doc. corr view (with_doc L x doc) k (f doc) Q E"
  shows "corr view (with_doc L x doc0)
    (bnd (url_block (\<lambda>_. None) h pages_sql id (page_row_scopes base_url x)) (\<lambda>_.
     bnd (each (\<lambda>post_type. url_block (\<lambda>_. None) h posts_sql (bindString 0 post_type)
            (post_row_scopes hostname base_url x)) (post_types hostname)) (\<lambda>_.
     bnd (each (\<lambda>taxonomy. url_block (\<lambda>_. None) h terms_sql (bindString 0 taxonomy)
            (term_row_scopes base_url per_page taxonomy x)) (taxonomy_types hostname)) (\<lambda>_.
     bnd (if hostname = special_host then url_block (\<lambda>_. None) h authors_sql id (author_row_scopes base_url x)
          else ret ()) (\<lambda>_.
     bnd (url_block (\<lambda>_. None) h front_sql id (front_row_scopes hostname base_url per_page x)) (\<lambda>_. k))))))
    (bind_outcome (page_urls (snd h) base_url doc0) (\<lambda>doc.
     bind_outcome (for_each (post_urls (snd h) hostname base_url) (post_types hostname) doc) (\<lambda>doc.
     bind_outcome (for_each (term_urls (snd h) base_url per_page) (taxonomy_types hostname) doc) (\<lambda>doc.
     bind_outcome (if hostname = special_host then author_urls (snd h) base_url doc else Returns doc) (\<lambda>doc.
     bind_outcome (front_urls (snd h) hostname base_url per_page doc) f))))) Q E"
proof -
  let ?Q = "\<lambda>_ doc' M. M = with_doc L x doc'"
  have block: "corr view (with_doc L x doc) (url_block (\<lambda>_. None) h sql bind row)
      (bind_outcome (DBStmt_new (snd h) sql) (\<lambda>st. bind_outcome (execute (bind st)) (\<lambda>st. while_fetch prow st doc))) ?Q E"
    if "\<And>L E st doc. has_doc x L \<Longrightarrow> (\<And>e doc. e \<noteq> dump_error \<Longrightarrow> E e (with_doc L x doc)) \<Longrightarrow>
      corr view (with_doc L x doc) (row st) (prow st doc) (\<lambda>_ doc' M. M = with_doc L x doc') E" for sql bind row prow doc
    by (rule corr_url_block) (use doc E leak that in auto)
  have plain: "\<And>sql prow doc. bind_outcome (DBStmt_new (snd h) sql) (\<lambda>st. bind_outcome (execute st) (\<lambda>st. while_fetch prow st doc)) =
      bind_outcome (DBStmt_new (snd h) sql) (\<lambda>st. bind_outcome (execute (id st)) (\<lambda>st. while_fetch prow st doc))" by simp
  have pages: "corr view (with_doc L x doc) (url_block (\<lambda>_. None) h pages_sql id (page_row_scopes base_url x)) (page_urls (snd h) base_url doc) ?Q E" for doc
    unfolding page_urls_def plain by (rule block) (rule rows_corr(1))
  have "corr view (with_doc L x doc) (url_block (\<lambda>_. None) h authors_sql id (author_row_scopes base_url x)) (author_urls (snd h) base_url doc) ?Q E" for doc
    unfolding author_urls_def plain by (rule block) (rule rows_corr(4))
  then have authors: "corr view (with_doc L x doc) (if hostname = special_host then url_block (\<lambda>_. None) h authors_sql id (author_row_scopes base_url x)
        else ret ()) (if hostname = special_host then author_urls (snd h) base_url doc else Returns doc) ?Q E" for doc
    by (auto intro: corr_ret)
  have front: "corr view (with_doc L x doc) (url_block (\<lambda>_. None) h front_sql id (front_row_scopes hostname base_url per_page x))
      (front_urls (snd h) hostname base_url per_page doc) ?Q E" for doc
    unfolding front_urls_def plain by (rule block) (rule rows_corr(5))
  have posts: "corr view (with_doc L x doc) (url_block (\<lambda>_. None) h posts_sql (bindString 0 post_type) (post_row_scopes hostname base_url x))
      (post_urls (snd h) hostname base_url post_type doc) ?Q E" for post_type doc
    unfolding post_urls_def by (rule block) (rule rows_corr(2))
  have terms: "corr view (with_doc L x doc) (url_block (\<lambda>_. None) h terms_sql (bindString 0 taxonomy) (term_row_scopes base_url per_page taxonomy x))
      (term_urls (snd h) base_url per_page taxonomy doc) ?Q E" for taxonomy doc
    unfolding term_urls_def by (rule block) (rule rows_corr(3))
  show ?thesis
    by (rule corr_part[OF pages], rule corr_parts[OF posts], rule corr_parts[OF terms], rule corr_part[OF authors], rule corr_part[OF front], rule rest)
qed


section \<open>The handler as a whole\<close>

lemma corr_get_base_url:
  assumes "fst h \<in> conns L" "\<And>e. e \<noteq> dump_error \<Longrightarrow> E e L"
    and "\<And>msg L1. leaked h (option_sql ''home'') L L1 \<Longrightarrow> E (Db_Exception msg ''prepare'') L1"
  shows "corr view L (get_base_url_scopes (\<lambda>_. None) h) (get_base_url (snd h)) (\<lambda>a b M. a = b \<and> M = L) E"
proof -
  let ?p = "\<lambda>(got, st). if got then asString st 0 else Returns []"
  have "?p z \<noteq> Throws dump_error" for z by (cases z) (simp add: not_dump_error)
  from corr_option[of h L E "option_sql ''home''" ?p, OF assms this] show ?thesis
    by (simp add: get_base_url_scopes_def get_base_url_def case_prod_unfold)
qed

lemma corr_get_num_posts_per_page:
  assumes "fst h \<in> conns L" "\<And>e. e \<noteq> dump_error \<Longrightarrow> E e L"
    and "\<And>msg L1. leaked h (option_sql ''posts_per_page'') L L1 \<Longrightarrow> E (Db_Exception msg ''prepare'') L1"
  shows "corr view L (get_num_posts_per_page_scopes (\<lambda>_. None) h) (get_num_posts_per_page (snd h)) (\<lambda>a b M. a = b \<and> M = L) E"
proof -
  let ?p = "\<lambda>(got, st). if got then bind_outcome (asInt st 0) (\<lambda>v. Returns (word_of_int v :: 64 word)) else Returns 10"
  have "?p z \<noteq> Throws dump_error" for z by (cases z) (simp add: not_dump_error_bind not_dump_error)
  from corr_option[of h L E "option_sql ''posts_per_page''" ?p, OF assms this] show ?thesis
    by (simp add: get_num_posts_per_page_scopes_def get_num_posts_per_page_def case_prod_unfold)
qed

lemma corr_option_read:
  assumes "corr view l m r (\<lambda>a b M. a = b \<and> M = l) E" "\<And>a. corr view l (k a) (f a) Q E"
  shows "corr view l (bnd m k) (bind_outcome r f) Q E"
  by (rule corr_bind[OF assms(1)]) (use assms(2) in simp)

lemma corr_sitemap:
  assumes dump: "dumps_tree dump_memory dump" and h: "pool_get = Returns (snd h)" "fresh_in L (fst h)"
  shows "corr view (L\<lparr>conns := insert (fst h) (conns L)\<rparr>) (sitemap_scopes (\<lambda>_. None) dump_memory hostname h)
    (bind_outcome (sitemap_doc (snd h) hostname) (document_text dump ''application/xml''))
    (\<lambda>_ b. within (A_Conn h) (wrote pool_get L b)) (\<lambda>e. within (A_Conn h) (threw pool_get ''application/xml'' L e))"
proof -
  let ?L = "L\<lparr>conns := insert (fst h) (conns L)\<rparr>" and ?U = "within (A_Conn h)"
  let ?E = "\<lambda>e. ?U (threw pool_get ''application/xml'' L e)" and ?Q = "\<lambda>_ b. ?U (wrote pool_get L b)"
  have u: "undoes L ?U ?L" using within_conn[OF h(2)] by (simp add: undoes_def within_sent)
  have E: "?E e ?L" if "e \<noteq> dump_error" for e using undoesD(1)[OF u] threw_self[OF that] by simp
  have leak: "?E (Db_Exception msg ''prepare'') M" if "leaked h sql ?L M" for sql msg M using leaked_threw[OF h that] .
  have mem: "fst h \<in> conns ?L" by simp
  have options: "corr view ?L (get_base_url_scopes (\<lambda>_. None) h) (get_base_url (snd h)) (\<lambda>a b M. a = b \<and> M = ?L) ?E"
    "corr view ?L (get_num_posts_per_page_scopes (\<lambda>_. None) h) (get_num_posts_per_page (snd h)) (\<lambda>a b M. a = b \<and> M = ?L) ?E"
    by (rule corr_get_base_url corr_get_num_posts_per_page, simp, erule E, erule leak)+
  have document: "corr view ?L (scope (XMLDoc_make_ns ''urlset'' ''http://www.sitemaps.org/schemas/sitemap/0.9'' ''1.0'') XMLDoc_destroy (\<lambda>x.
      bnd (XMLDoc_add_pi x ''xml-stylesheet'' style) (\<lambda>_. k x))) r ?Q ?E"
    if "\<And>x L2. new_doc doc0 x ?L L2 \<Longrightarrow> has_doc x L2 \<Longrightarrow> corr view (with_doc L2 x (add_pi ''xml-stylesheet'' style doc0)) (k x) r
        (\<lambda>a b. within (A_Doc x) (?Q a b)) (\<lambda>e. within (A_Doc x) (?E e))"
      "doc0 = XMLDoc_new_ns ''urlset'' ''http://www.sitemaps.org/schemas/sitemap/0.9'' ''1.0''" for style k r doc0
  proof (rule doc_ns_scope, fold that(2))
    fix x L2 assume n: "new_doc doc0 x ?L L2"
    have "doc_at x doc0 L2" by (rule doc_at_new[OF n])
    then show "corr view L2 (bnd (XMLDoc_add_pi x ''xml-stylesheet'' style) (\<lambda>_. k x)) r
        (\<lambda>a b. within (A_Doc x) (?Q a b)) (\<lambda>e. within (A_Doc x) (?E e))"
      by (rule corr_then[OF corr_add_pi]) (rule that(1)[OF n], use has_doc_new[OF n] in simp)
  qed
  show ?thesis
    unfolding sitemap_scopes_def sitemap_doc_def bind_assoc3
  proof (rule corr_option_read[OF options(1)], rule corr_option_read[OF options(2)], rule document[OF _ refl])
    fix base_url per_page x L2
    assume n: "new_doc (XMLDoc_new_ns ''urlset'' ''http://www.sitemaps.org/schemas/sitemap/0.9'' ''1.0'') x ?L L2" and x: "has_doc x L2"
    show "corr view (with_doc L2 x (add_pi ''xml-stylesheet''
           (''type='' @ [QUOTE] @ ''text/xsl'' @ [QUOTE] @ '' href='' @ [QUOTE] @
             (if hostname = special_host then ''wp-content/plugins/google-sitemap-plugin/sitemap.xsl''
              else ''wp-content/uploads/sitemap.xsl'') @ [QUOTE]) (XMLDoc_new_ns ''urlset'' ''http://www.sitemaps.org/schemas/sitemap/0.9'' ''1.0'')))
      (bnd (url_block (\<lambda>_. None) h pages_sql id (page_row_scopes base_url x)) (\<lambda>_.
       bnd (each (\<lambda>post_type. url_block (\<lambda>_. None) h posts_sql (bindString 0 post_type)
                (post_row_scopes hostname base_url x)) (post_types hostname)) (\<lambda>_.
       bnd (each (\<lambda>taxonomy. url_block (\<lambda>_. None) h terms_sql (bindString 0 taxonomy)
                (term_row_scopes base_url per_page taxonomy x)) (taxonomy_types hostname)) (\<lambda>_.
       bnd (if hostname = special_host then url_block (\<lambda>_. None) h authors_sql id (author_row_scopes base_url x)
              else ret ()) (\<lambda>_.
       bnd (url_block (\<lambda>_. None) h front_sql id (front_row_scopes hostname base_url per_page x)) (\<lambda>_.
         respond dump_memory ''application/xml'' x))))))
      (bind_outcome (page_urls (snd h) base_url (sitemap_head hostname)) (\<lambda>doc.
       bind_outcome (for_each (post_urls (snd h) hostname base_url) (post_types hostname) doc) (\<lambda>doc.
       bind_outcome (for_each (term_urls (snd h) base_url per_page) (taxonomy_types hostname) doc) (\<lambda>doc.
       bind_outcome (if hostname = special_host then author_urls (snd h) base_url doc else Returns doc) (\<lambda>doc.
       bind_outcome (front_urls (snd h) hostname base_url per_page doc) (document_text dump ''application/xml''))))))
      (\<lambda>a b. within (A_Doc x) (?Q a b)) (\<lambda>e. within (A_Doc x) (?E e))"
      unfolding sitemap_head_def[symmetric]
    proof (rule corr_sitemap_urls[OF x])
      show "fst h \<in> conns L2" using n by (simp add: new_doc_def)
      show "within (A_Doc x) (?E e) (with_doc L2 x doc)" if "e \<noteq> dump_error" for e doc
        using within_doc(1)[OF n] E[OF that] by simp
      show "within (A_Doc x) (?E (Db_Exception msg ''prepare'')) M" if "leaked h sql (with_doc L2 x doc) M" for msg sql doc M
        using leaked_in_doc[OF n that] leak by metis
      show "corr view (with_doc L2 x doc) (respond dump_memory ''application/xml'' x) (document_text dump ''application/xml'' doc)
          (\<lambda>a b. within (A_Doc x) (?Q a b)) (\<lambda>e. within (A_Doc x) (?E e))" for doc
        by (rule corr_respond[OF dump has_doc_at[OF x] undoes_doc[OF u n]])
    qed
  qed
qed


text \<open>The connection the handler asks for; none for an unknown site.\<close>

definition site_connection :: "(nat \<Rightarrow> mysql outcome) \<Rightarrow> site_map \<Rightarrow> fcgi_request \<Rightarrow> mysql outcome" where
  "site_connection get_conn sites rq =
     (case map_find sites (get_fcgi_param rq ''SERVER_NAME'') of None \<Rightarrow> Undefined | Some db_pool \<Rightarrow> get_conn db_pool)"

lemma option_not_dump_error:
  "get_base_url conn \<noteq> Throws dump_error" "get_num_posts_per_page conn \<noteq> Throws dump_error"
  unfolding get_base_url_def get_num_posts_per_page_def
  by (intro not_dump_error_bind DBStmt_new_not_dump_error not_dump_error; simp split: prod.splits add: not_dump_error not_dump_error_bind)+

lemma for_each_not_dump_error:
  assumes "\<And>y a. f y a \<noteq> Throws dump_error"
  shows "for_each f ys a \<noteq> Throws dump_error"
proof (induction ys arbitrary: a)
  case (Cons y ys)
  then show ?case using assms by (simp add: not_dump_error_bind)
qed simp

lemma row_fn_not_dump_error:
  "page_row base_url st doc \<noteq> Throws dump_error" "post_row hostname base_url st doc \<noteq> Throws dump_error"
  "term_row base_url per_page taxonomy st doc \<noteq> Throws dump_error" "author_row base_url st doc \<noteq> Throws dump_error"
  "front_row hostname base_url per_page st doc \<noteq> Throws dump_error"
  unfolding page_row_def post_row_def term_row_def author_row_def front_row_def Let_def
  by (intro not_dump_error_bind row_not_dump_error; simp add: not_dump_error_bind substr_not_dump_error split: option.splits)+

lemma sitemap_doc_not_dump_error: "sitemap_doc conn hostname \<noteq> Throws dump_error"
proof -
  have block: "bind_outcome (DBStmt_new conn sql) (\<lambda>st. bind_outcome (execute (b st)) (\<lambda>st. while_fetch row st doc)) \<noteq> Throws dump_error"
    if "\<And>st doc. row st doc \<noteq> Throws dump_error" for sql b row doc
    by (intro not_dump_error_bind DBStmt_new_not_dump_error not_dump_error while_fetch_not_dump_error that)
  have "page_urls conn base_url doc \<noteq> Throws dump_error" "post_urls conn hostname base_url y doc \<noteq> Throws dump_error"
    "term_urls conn base_url per_page y doc \<noteq> Throws dump_error" "author_urls conn base_url doc \<noteq> Throws dump_error"
    "front_urls conn hostname base_url per_page doc \<noteq> Throws dump_error" for base_url y per_page doc
    unfolding page_urls_def post_urls_def term_urls_def author_urls_def front_urls_def
    by (rule block[of _ _ "\<lambda>st. st"] block, rule row_fn_not_dump_error)+
  then show ?thesis
    unfolding sitemap_doc_def
    by (intro not_dump_error_bind option_not_dump_error for_each_not_dump_error) (simp_all split: if_splits)
qed

lemma sitemap_handle_makes:
  assumes dump: "dumps_tree dump_memory dump" and get: "\<And>db_pool. get_conn db_pool \<noteq> Throws dump_error"
  shows "makes (site_connection get_conn sites rq) ''application/xml'' L (sitemap_handle_scopes (\<lambda>_. None) dump_memory get_conn sites rq) rs
    (sitemap_handle dump get_conn sites rq rs)"
  unfolding sitemap_handle_scopes_def Let_def
proof (rule makes_logged)
  let ?host = "get_fcgi_param rq ''SERVER_NAME''" and ?ctype = "''application/xml''"
  let ?m = "\<lambda>db_pool. try_db (scope (DBConnHolder_make (get_conn db_pool)) DBConnHolder_destroy (sitemap_scopes (\<lambda>_. None) dump_memory ?host))
      (on_db_error ''sitemap_handler::handle'')"
  show "makes (site_connection get_conn sites rq) ?ctype L
     (case map_find sites ?host of
        None \<Rightarrow> bnd (log_error (''sitemap_handler::handle site not found: '' @ ?host)) (\<lambda>_. call (Write (error_page (''site not found: '' @ ?host) 200)))
      | Some db_pool \<Rightarrow> ?m db_pool) rs (sitemap_handle dump get_conn sites rq rs)"
  proof (cases "map_find sites ?host")
    case None
    let ?page = "error_page (''site not found: '' @ ?host) 200"
    have "corr view L (bnd (log_error (''sitemap_handler::handle site not found: '' @ ?host)) (\<lambda>_. call (Write ?page)))
        (Returns ?page) (\<lambda>_ b. wrote (site_connection get_conn sites rq) L b) (threw (site_connection get_conn sites rq) ?ctype L)"
      by (rule corr_then[OF corr_log(2)], rule corr_last[OF corr_write]) simp
    then show ?thesis
      by (auto simp: None makes_def sitemap_handle_def return_error_out intro!: exI[of _ "Returns ?page"])
  next
    case (Some db_pool)
    let ?get = "get_conn db_pool"
    have "corr view L (scope (DBConnHolder_make ?get) DBConnHolder_destroy (sitemap_scopes (\<lambda>_. None) dump_memory ?host))
        (bind_outcome ?get (\<lambda>conn. bind_outcome (sitemap_doc conn ?host) (document_text dump ?ctype)))
        (\<lambda>_ b. wrote ?get L b) (threw ?get ?ctype L)"
    proof (rule conn_scope)
      show "threw ?get ?ctype L e L" if "?get = Throws e" for e using that get by (metis threw_self)
      show "corr view L1 (sitemap_scopes (\<lambda>_. None) dump_memory ?host h) (bind_outcome (sitemap_doc conn ?host) (document_text dump ?ctype))
          (\<lambda>_ b. within (A_Conn h) (wrote ?get L b)) (\<lambda>e. within (A_Conn h) (threw ?get ?ctype L e))"
        if "?get = Returns conn" "snd h = conn \<and> fresh_in L (fst h) \<and> L1 = L\<lparr>conns := insert (fst h) (conns L)\<rparr>" for h conn L1
        using corr_sitemap[OF dump, of ?get h L ?host] that by simp
    qed
    from corr_guarded[OF this]
    have "corr view L (?m db_pool) (caught (bind_outcome (bind_outcome ?get (\<lambda>conn. sitemap_doc conn ?host)) (document_text dump ?ctype))
        (\<lambda>msg. Returns (error_page msg 200))) (\<lambda>_ b. wrote ?get L b) (threw ?get ?ctype L)" by (simp add: bind_assoc3)
    moreover have "sitemap_handle dump get_conn sites rq rs = as_handled ?ctype rs
        (caught (bind_outcome (bind_outcome ?get (\<lambda>conn. sitemap_doc conn ?host)) (document_text dump ?ctype)) (\<lambda>msg. Returns (error_page msg 200)))"
      unfolding sitemap_handle_def Let_def
      by (simp add: Some, rule catch_db_as_handled)
        (simp_all add: get not_dump_error_bind sitemap_doc_not_dump_error document_written document_text_not_db)
    moreover have "site_connection get_conn sites rq = ?get" by (simp add: site_connection_def Some)
    ultimately show ?thesis unfolding makes_def by (auto simp: Some)
  qed
qed


text \<open>C26. The handler of the site map with its connection, its statements, its document and the nodes of each URL in their scopes refines the handler as a function: when the libraries keep their terms and statements close, its library calls are within the terms, it ends the way the function says, and what it wrote is the function's response.\<close>

theorem sitemap_refines:
  assumes "dumps_tree dump_memory dump" "\<And>db_pool. get_conn db_pool \<noteq> Throws dump_error"
  shows "serves (sitemap_handle_scopes (\<lambda>_. None) dump_memory get_conn sites rq) rs (sitemap_handle dump get_conn sites rq rs)"
  by (rule makes_serves(1)[OF sitemap_handle_makes[OF assms]])

theorem sitemap_refines_witness:
  "\<exists>w L. sitemap_handle_scopes (\<lambda>_. None) (write_out (\<lambda>doc. Some (show_node (doc_root doc)))) (\<lambda>_. Returns (site_conn sample_site))
      [(''wordpress.example.com'', 0)] sitemap_request new_world = (Done (), w) \<and>
    replay (trace w) empty_ledger = Some L \<and>
    sent L = page_header ''application/xml'' @
      show_node (doc_root (fold doc_add (sitemap_nodes sample_site 10) (sitemap_head ''wordpress.example.com'')))"
proof -
  let ?dump = "\<lambda>doc. Some (show_node (doc_root doc))" and ?sites = "[(''wordpress.example.com'', 0 :: nat)]"
  have name: "get_fcgi_param sitemap_request ''SERVER_NAME'' = ''wordpress.example.com''"
    by (simp add: get_fcgi_param_def sitemap_request_def)
  have "read_int (per_page_text sample_site) = Some (int 10)"
    by (simp add: sample_site_def read_int_def is_space_def is_digit_def digits_val_def digit_val_def)
  from sitemap_handled[OF _ _ refl sample_site_db this, where sites = ?sites
      and rq = sitemap_request and db_pool = 0 and dump = ?dump and rs = fcgi_response_new, unfolded name]
  have "sitemap_handle ?dump (\<lambda>_. Returns (site_conn sample_site)) ?sites sitemap_request fcgi_response_new =
    Returns (write_page ?dump ''application/xml''
      (fold doc_add (sitemap_nodes sample_site 10) (sitemap_head ''wordpress.example.com'')) fcgi_response_new)"
    by (simp add: map_find_def)
  moreover have "dumps_tree (write_out ?dump) ?dump" by (rule dumps_write_out)
  ultimately show ?thesis
    using sitemap_refines[of "write_out ?dump" ?dump "\<lambda>_. Returns (site_conn sample_site)" ?sites sitemap_request fcgi_response_new]
    by (auto simp: serves_def write_page_def doc_text_def out_def fcgi_response_new_def page_header_def)
qed

end
