(* ===== verification/Cleanup.thy ===== *)
theory Cleanup
  imports Blog_Scopes Sitemap_Scopes
begin

text \<open>
  What the request handlers leave behind: everything they took is given back on every path, but for
  a statement that could not be prepared; and what happens when the closing of a statement fails,
  for its destructor throws (\<^verbatim>\<open>src/db/db_pool.h\<close>).
\<close>

section \<open>What the calls wrote\<close>

fun written :: "lib_call list \<Rightarrow> string" where
  "written [] = []"
| "written (Write s # cs) = s @ written cs"
| "written (_ # cs) = written cs"

lemma written_append [simp]: "written (cs @ ds) = written cs @ written ds"
  by (induction cs rule: written.induct) simp_all

lemma step_sent: "ledger_step c L = Some L1 \<Longrightarrow> sent L1 = sent L @ written [c]"
  by (cases c) (auto simp: demand_def append_child_def split: if_splits option.splits prod.splits)

lemma replay_sent: "replay cs L = Some L1 \<Longrightarrow> sent L1 = sent L @ written cs"
proof (induction cs arbitrary: L)
  case (Cons c cs)
  then obtain L2 where L2: "ledger_step c L = Some L2" "replay cs L2 = Some L1" by (auto simp: bind_eq_Some_conv)
  have "written (c # cs) = written [c] @ written cs" using written_append[of "[c]" cs] by simp
  then show ?case using Cons.IH[OF L2(2)] step_sent[OF L2(1)] by simp
qed simp

section \<open>All is given back\<close>

lemma settled_spelled:
  assumes "settled pool_get empty_ledger L"
  shows "L = empty_ledger\<lparr>sent := sent L, stmts := stmts L\<rparr>"
    "(\<And>conn sql msg. pool_get = Returns conn \<Longrightarrow> sql_prepare conn sql \<noteq> Inl msg) \<Longrightarrow> stmts L = Map.empty"
    "\<exists>p. dom (stmts L) \<subseteq> {p}"
  using assms by (auto simp: settled_def empty_ledger_def)

text \<open>C22. Provided that statements can be closed, whatever else the database answers, and whether the handler of the blog or of the site map returns or throws, its calls keep the terms of the libraries in this order, nothing is freed twice or used after it was freed, and at the end it owns no connection, document, node, result or memory; the one thing that can stay is the handle of a single statement, and only when a statement could not be prepared. When a statement cannot be closed this does not hold (\<open>failed_close_after_page\<close>).\<close>

theorem handlers_give_back:
  assumes "dumps_tree dump_memory dump" "\<And>db_pool. get_conn db_pool \<noteq> Throws dump_error"
    and "m \<in> {wp_handle_scopes (\<lambda>_. None) dump_memory (get_conn db_pool) rq, sitemap_handle_scopes (\<lambda>_. None) dump_memory get_conn sites rq}"
    and "m new_world = (x, w)" "(\<exists>a. x = Done a) \<or> (\<exists>e. x = Raised e)"
  shows "\<exists>L. replay (trace w) empty_ledger = Some L \<and> L = empty_ledger\<lparr>sent := written (trace w), stmts := stmts L\<rparr> \<and>
    (\<exists>p. dom (stmts L) \<subseteq> {p}) \<and>
    ((\<forall>db_pool conn sql. get_conn db_pool = Returns conn \<longrightarrow> (\<exists>z. sql_prepare conn sql = Inr z)) \<longrightarrow> stmts L = Map.empty)"
proof -
  obtain pool_get ctype h where m: "makes pool_get ctype empty_ledger m fcgi_response_new h"
    and get: "(\<exists>db_pool. pool_get = get_conn db_pool) \<or> pool_get = Undefined"
  proof (cases "m = sitemap_handle_scopes (\<lambda>_. None) dump_memory get_conn sites rq")
    case True
    have "(\<exists>db_pool. site_connection get_conn sites rq = get_conn db_pool) \<or> site_connection get_conn sites rq = Undefined"
      by (auto simp: site_connection_def split: option.splits)
    moreover have "makes (site_connection get_conn sites rq) ''application/xml'' empty_ledger m fcgi_response_new (sitemap_handle dump get_conn sites rq fcgi_response_new)"
      unfolding True by (rule sitemap_handle_makes) (rule assms(1), rule assms(2))
    ultimately show thesis using that by blast
  next
    case False
    then have "m = wp_handle_scopes (\<lambda>_. None) dump_memory (get_conn db_pool) rq" using assms(3) by simp
    then show thesis using that wp_handle_makes[OF assms(1), of "get_conn db_pool"] assms(2) by blast
  qed
  obtain L where L: "replay (trace w) empty_ledger = Some L" "settled pool_get empty_ledger L"
    using makes_serves(2)[OF m assms(4,5)] by blast
  have "sent L = written (trace w)" using replay_sent[OF L(1)] by (simp add: empty_ledger_def)
  moreover have "stmts L = Map.empty"
    if "\<forall>db_pool conn sql. get_conn db_pool = Returns conn \<longrightarrow> (\<exists>z. sql_prepare conn sql = Inr z)"
    using settled_spelled(2)[OF L(2)] get that by (metis Inl_Inr_False outcome.distinct(3))
  ultimately show ?thesis using settled_spelled(1,3)[OF L(2)] L(1) by metis
qed

theorem handlers_give_back_witness:
  "\<exists>w. wp_handle_scopes (\<lambda>_. None) (write_out (\<lambda>doc. Some (show_node (doc_root doc)))) (Returns one_post_blog) (request_for ''/cake'') new_world = (Done (), w) \<and>
    replay (trace w) empty_ledger = Some (empty_ledger\<lparr>sent := written (trace w)\<rparr>)"
proof -
  let ?dump = "\<lambda>doc. Some (show_node (doc_root doc))"
  let ?m = "wp_handle_scopes (\<lambda>_. None) (write_out ?dump) (Returns one_post_blog) (request_for ''/cake'')"
  note d = dumps_write_out[of ?dump]
  have "makes (Returns one_post_blog) (content_type_of (request_for ''/cake'')) empty_ledger ?m fcgi_response_new
      (wp_handle ?dump (Returns one_post_blog) (request_for ''/cake'') fcgi_response_new)"
    by (rule wp_handle_makes[OF d]) simp
  from makes_serves(1)[OF this] obtain w where w: "?m new_world = (Done (), w)"
    by (auto simp: serves_def cake_page)
  have "\<forall>sql. \<exists>z. sql_prepare one_post_blog sql = Inr z" by (simp add: one_post_blog_def)
  then obtain L where L: "replay (trace w) empty_ledger = Some L" "L = empty_ledger\<lparr>sent := written (trace w), stmts := stmts L\<rparr>"
    "stmts L = Map.empty"
    using handlers_give_back[OF d, of "\<lambda>_. Returns one_post_blog" ?m 0 "request_for ''/cake''" "[]" "Done ()" w] w by auto
  have "empty_ledger\<lparr>sent := s, stmts := Map.empty\<rparr> = empty_ledger\<lparr>sent := s\<rparr>" for s by (simp add: empty_ledger_def)
  then show ?thesis using w L by metis
qed

section \<open>A statement that cannot be prepared\<close>

abbreviation query :: "mysql \<Rightarrow> string \<Rightarrow> (string \<Rightarrow> string option) \<Rightarrow> (nat \<times> db_stmt \<Rightarrow> (world, 'a) prog) \<Rightarrow> (world, 'a) prog" where
  "query conn sql close_error body \<equiv>
     scope (DBConnHolder_make (Returns conn)) DBConnHolder_destroy (\<lambda>h.
       scope (DBStmt_make h sql) (DBStmt_destroy close_error) body)"

definition failed_prepare :: "nat \<Rightarrow> string \<Rightarrow> lib_call list" where
  "failed_prepare n sql = [Pool_Get n, Stmt_Init (Suc n) n, Syslog LOG_INFO ''%s'' (c_str (''SQL: '' @ sql)),
     Stmt_Prepare (Suc n), Stmt_Error (Suc n), Pool_Put n]"

lemma query_not_prepared:
  assumes "sql_prepare conn sql = Inl msg"
  shows "query conn sql close_error body w =
    (Raised (Db_Exception msg ''prepare''), w\<lparr>trace := trace w @ failed_prepare (next_ptr w) sql, next_ptr := next_ptr w + 2\<rparr>)"
proof -
  let ?n = "next_ptr w"
  let ?w1 = "after (Pool_Get ?n) (w\<lparr>next_ptr := ?n + 1\<rparr>)"
  let ?w2 = "after (Stmt_Error (Suc ?n)) (after (Stmt_Prepare (Suc ?n)) (after (Syslog LOG_INFO ''%s'' (c_str (''SQL: '' @ sql)))
      (after (Stmt_Init (Suc ?n) ?n) (?w1\<lparr>next_ptr := ?n + 2\<rparr>))))"
  have c: "DBConnHolder_make (Returns conn) w = (Done (?n, conn), ?w1)"
    by (simp add: DBConnHolder_make_def bnd_Done[OF new_ptr_apply] bnd_Done[OF call_apply] ret_apply)
  have "DBStmt_make (?n, conn) sql ?w1 = (Raised (Db_Exception msg ''prepare''), ?w2)"
    using assms
    by (simp add: DBStmt_make_def DBStmt_new_def LogSQL_def log_info_def bnd_Done[OF new_ptr_apply] bnd_Done[OF call_apply] raise_apply)
  then have "scope (DBStmt_make (?n, conn) sql) (DBStmt_destroy close_error) body ?w1 = (Raised (Db_Exception msg ''prepare''), ?w2)"
    by (simp add: scope_def bnd_Raised)
  then have "query conn sql close_error body w = (Raised (Db_Exception msg ''prepare''), after (Pool_Put ?n) ?w2)"
    by (simp add: scope_def bnd_def c DBConnHolder_destroy_def call_apply raise_apply)
  then show ?thesis by (simp add: after_def failed_prepare_def)
qed

lemma replay_failed_prepare:
  "0 < n \<Longrightarrow> replay (failed_prepare n sql) empty_ledger = Some (empty_ledger\<lparr>stmts := [Suc n \<mapsto> n]\<rparr>)"
  by (simp add: failed_prepare_def demand_def fresh_in_def empty_ledger_def)

lemma script_rest: "find_str s k 0 = 0 \<Longrightarrow> \<exists>name. std_substr s (length k) npos = Inr name"
  using prefix_length_le[OF find_str_0D, of s k] by (auto simp: std_substr_def)

definition handle_stays :: "string \<Rightarrow> world \<Rightarrow> bool" where
  "handle_stays msg w \<longleftrightarrow> written (trace w) = error_page (c_str msg) 200 \<and>
     (\<exists>L c s. replay (trace w) empty_ledger = Some L \<and> conns L = {} \<and> stmts L = [s \<mapsto> c] \<and> Pool_Put c \<in> set (trace w))"

lemma guarded_not_prepared:
  assumes "sql_prepare conn sql = Inl msg" "trace w0 = logs" "logs \<in> {[], [Syslog p fmt s]}" "next_ptr w0 = 1"
  shows "\<exists>w. try_db (query conn sql close_error body) (\<lambda>what. bnd (on_db_error method what) (\<lambda>_. ret b)) w0 = (Done b, w) \<and> handle_stays msg w"
    "\<exists>w. try_db (query conn sql close_error body') (on_db_error method) w0 = (Done (), w) \<and> handle_stays msg w"
proof -
  let ?err = "Syslog LOG_ERR ''%s'' (c_str (method @ '' DB error: '' @ c_str msg))" and ?page = "error_page (c_str msg) 200"
  let ?w = "w0\<lparr>trace := logs @ failed_prepare 1 sql @ [?err, Write ?page], next_ptr := 3\<rparr>"
  have logs: "replay logs empty_ledger = Some empty_ledger" "written logs = []" using assms(3) by auto
  have "replay (trace ?w) empty_ledger = Some (empty_ledger\<lparr>stmts := [2 \<mapsto> 1], sent := ?page\<rparr>)"
    by (simp add: logs replay_failed_prepare) (simp add: empty_ledger_def numeral_2_eq_2)
  then have stays: "handle_stays msg ?w"
    unfolding handle_stays_def by (intro conjI exI) (auto simp: logs failed_prepare_def empty_ledger_def)
  have page: "on_db_error method (c_str msg) (w0\<lparr>trace := trace w0 @ failed_prepare (next_ptr w0) sql, next_ptr := next_ptr w0 + 2\<rparr>) = (Done (), ?w)"
    by (simp add: on_db_error_def log_error_def bnd_Done[OF call_apply] call_apply after_def assms(2,4) numeral_3_eq_3)
  show "\<exists>w. try_db (query conn sql close_error body) (\<lambda>what. bnd (on_db_error method what) (\<lambda>_. ret b)) w0 = (Done b, w) \<and> handle_stays msg w"
    unfolding try_db_def query_not_prepared[OF assms(1)] bnd_def prod.case exit.case exn.case page ret_apply using stays by blast
  show "\<exists>w. try_db (query conn sql close_error body') (on_db_error method) w0 = (Done (), w) \<and> handle_stays msg w"
    unfolding try_db_def query_not_prepared[OF assms(1)] prod.case exit.case exn.case page using stays by blast
qed

lemma new_world_simps [simp]: "trace new_world = []" "next_ptr new_world = 1"
  by (simp_all add: new_world_def)

lemma handler_not_prepared:
  assumes "\<And>sql. sql_prepare conn sql = Inl msg"
  shows "\<exists>w. wp_handle_scopes close_error dump_memory (Returns conn) rq new_world = (Done (), w) \<and> handle_stays msg w"
proof -
  let ?s = "get_fcgi_param rq ''SCRIPT_NAME''"
  have logged: "bnd (log_info t) (\<lambda>_. k) new_world = k (after (Syslog LOG_INFO ''%s'' (c_str t)) new_world)" for t and k :: "(world, 'a) prog"
    by (simp add: log_info_def bnd_Done[OF call_apply])
  have rest: "\<exists>w. bnd (of_outcome (of_result (std_substr ?s (length k) npos))) f new_world = (Done (), w) \<and> handle_stays msg w"
    if "find_str ?s k 0 = 0" "\<And>name. \<exists>w. f name new_world = (Done (), w) \<and> handle_stays msg w" for k f
    using script_rest[OF that(1)] that(2) by (auto simp: of_result_def)
  have blogroll: "\<exists>w. blogroll_scopes close_error dump_memory (Returns conn) rq new_world = (Done (), w) \<and> handle_stays msg w"
    unfolding blogroll_scopes_def by (rule guarded_not_prepared(2)[OF assms refl]) simp_all
  have named: "\<exists>w. category_scopes close_error (Returns conn) name new_world = (Done (), w) \<and> handle_stays msg w"
    "\<exists>w. author_scopes close_error (Returns conn) name new_world = (Done (), w) \<and> handle_stays msg w" for name
    unfolding category_scopes_def author_scopes_def logged by (rule guarded_not_prepared(2)[OF assms refl]; simp)+
  have post: "\<exists>w. bnd (post_scopes close_error dump_memory (Returns conn) rq name) (\<lambda>found. if \<not> found then not_found_scopes else ret ()) new_world = (Done (), w) \<and> handle_stays msg w" for name
  proof -
    have "\<exists>w. post_scopes close_error dump_memory (Returns conn) rq name new_world = (Done True, w) \<and> handle_stays msg w"
      unfolding post_scopes_def logged by (rule guarded_not_prepared(1)[OF assms refl]; simp)
    then show ?thesis by (auto simp: bnd_Done ret_apply)
  qed
  have "?s \<noteq> [] \<Longrightarrow> \<exists>name. std_substr ?s 1 npos = Inr name" by (cases ?s) (auto simp: std_substr_def)
  then have "?s \<noteq> [] \<Longrightarrow> \<exists>w. bnd (of_outcome (of_result (std_substr ?s 1 npos))) (\<lambda>name.
      bnd (post_scopes close_error dump_memory (Returns conn) rq name) (\<lambda>found. if \<not> found then not_found_scopes else ret ())) new_world = (Done (), w) \<and> handle_stays msg w"
    using post by (auto simp: of_result_def)
  then show ?thesis
    using blogroll rest[of "''/category/''" "category_scopes close_error (Returns conn)", OF _ named(1)]
      rest[of "''/author/''" "author_scopes close_error (Returns conn)", OF _ named(2)]
    unfolding wp_handle_scopes_def Let_def by presburger
qed

text \<open>C29. When the database refuses to prepare statements, the handler of the blog answers every request with the error page and gives its connection back, but the handle of the statement it created stays open, on a connection that the next thread will use: the constructor throws, so there is no object whose destructor would close it.\<close>

theorem failed_prepare_leaks:
  assumes "\<And>sql. sql_prepare conn sql = Inl msg"
  shows "\<exists>w L c s. wp_handle_scopes close_error dump_memory (Returns conn) rq new_world = (Done (), w) \<and>
    written (trace w) = error_page (c_str msg) 200 \<and>
    replay (trace w) empty_ledger = Some L \<and> conns L = {} \<and> stmts L = [s \<mapsto> c] \<and> Pool_Put c \<in> set (trace w)"
  using handler_not_prepared[OF assms] unfolding handle_stays_def by blast

theorem failed_prepare_leaks_witness:
  "\<exists>w L c s. wp_handle_scopes (\<lambda>_. None) (\<lambda>_ _. None) (Returns \<lparr>sql_prepare = (\<lambda>_. Inl ''gone''), sql_execute = (\<lambda>_ _ _. Inr [])\<rparr>)
      (request_for ''/'') new_world = (Done (), w) \<and>
    written (trace w) = error_page ''gone'' 200 \<and>
    replay (trace w) empty_ledger = Some L \<and> conns L = {} \<and> stmts L = [s \<mapsto> c] \<and> Pool_Put c \<in> set (trace w)"
proof -
  have "c_str ''gone'' = ''gone''" by (simp add: c_str_def)
  then show ?thesis
    using failed_prepare_leaks[of "\<lparr>sql_prepare = (\<lambda>_. Inl ''gone''), sql_execute = (\<lambda>_ _ _. Inr [])\<rparr>" "''gone''"
      "\<lambda>_. None" "\<lambda>_ _. None" "request_for ''/''"] by simp
qed


section \<open>A statement that cannot be closed\<close>

text \<open>
  \<open>mysql_stmt_close\<close> frees the handle also when it fails; the exception then takes its text from
  the freed handle.
\<close>

lemma freed_handle: "replay (cs @ [Stmt_Close s, Stmt_Error s]) L = None"
  by (cases "replay cs L") (auto simp: demand_def split: option.splits)

lemma blogroll_routed:
  "get_fcgi_param rq ''SCRIPT_NAME'' \<in> {''/'', []} \<Longrightarrow>
     wp_handle_scopes close_error dump_memory pool_get rq = blogroll_scopes close_error dump_memory pool_get rq"
  by (auto simp: wp_handle_scopes_def)

lemma destroy_closes:
  "close_error (m_stmt (snd x)) = None \<Longrightarrow>
     \<exists>w3. DBStmt_destroy close_error x w2 = (Done (), w3) \<and> written (trace w3) = written (trace w2)"
  "close_error (m_stmt (snd x)) = Some msg \<Longrightarrow>
     \<exists>w3. DBStmt_destroy close_error x w2 = (Raised (Db_Exception msg ''stmt_close''), w3) \<and>
       written (trace w3) = written (trace w2) \<and> replay (trace w3) L = None"
proof -
  define free where "free = (if m_column_data (snd x) \<noteq> [] then [Free_Result (fst x)] else [])"
  have m: "(if m_column_data (snd x) \<noteq> [] then call (Free_Result (fst x)) else ret ()) w2 = (Done (), w2\<lparr>trace := trace w2 @ free\<rparr>)"
    by (simp add: free_def call_apply after_def ret_apply)
  have f: "written free = []" by (simp add: free_def)
  show "\<exists>w3. DBStmt_destroy close_error x w2 = (Done (), w3) \<and> written (trace w3) = written (trace w2)"
    if "close_error (m_stmt (snd x)) = None"
    using that f by (simp add: DBStmt_destroy_def bnd_def m[simplified] call_apply ret_apply)
  show "\<exists>w3. DBStmt_destroy close_error x w2 = (Raised (Db_Exception msg ''stmt_close''), w3) \<and>
       written (trace w3) = written (trace w2) \<and> replay (trace w3) L = None"
    if "close_error (m_stmt (snd x)) = Some msg"
    using that f freed_handle[of "trace w2 @ free" "fst x" L]
    by (simp add: DBStmt_destroy_def bnd_def m[simplified] call_apply raise_apply del: replay_append)
qed

text \<open>A query whose statement was prepared, from the state in which the statement is there.\<close>

abbreviation closing :: "(string \<Rightarrow> string option) \<Rightarrow> nat \<times> mysql \<Rightarrow> nat \<times> db_stmt \<Rightarrow> (nat \<times> db_stmt \<Rightarrow> (world, 'a) prog) \<Rightarrow> (world, 'a) prog" where
  "closing close_error h x body \<equiv> scope (ret h) DBConnHolder_destroy (\<lambda>_. scope (ret x) (DBStmt_destroy close_error) body)"

lemma query_prepared:
  assumes "DBStmt_new conn sql = Returns st"
  obtains h x w1 where "snd x = st" "m_stmt st = sql"
    "\<And>close_error body. query conn sql close_error body w = closing close_error h x body w1"
proof -
  define h where "h = (next_ptr w, conn)"
  obtain wc where c: "DBConnHolder_make (Returns conn) w = (Done h, wc)"
    by (simp add: DBConnHolder_make_def bnd_def new_ptr_apply call_apply ret_apply h_def)
  have "\<exists>w1. DBStmt_make h sql wc = (Done (next_ptr wc, st), w1)"
    using assms by (simp add: DBStmt_make_def h_def bnd_def new_ptr_apply call_apply ret_apply LogSQL_def log_info_def)
  then obtain w1 where x: "DBStmt_make h sql wc = (Done (next_ptr wc, st), w1)" by blast
  have "query conn sql close_error body w = closing close_error h (next_ptr wc, st) body w1" for close_error body
    by (simp add: scope_def bnd_def c x ret_apply)
  moreover have "m_stmt st = sql" using assms by (auto simp: DBStmt_new_def split: sum.splits)
  ultimately show thesis by (intro that[where x = "(next_ptr wc, st)"]) simp_all
qed

lemma closing_ends:
  assumes "body x w1 = (r, w2)"
  shows "close_error (m_stmt (snd x)) = None \<Longrightarrow> \<exists>w3. closing close_error h x body w1 = (r, w3) \<and>
      (r = Done a \<longrightarrow> written (trace w3) = written (trace w2))"
    "close_error (m_stmt (snd x)) = Some msg \<Longrightarrow> r = Done a \<Longrightarrow>
      \<exists>w3. closing close_error h x body w1 = (Raised (Db_Exception msg ''stmt_close''), w3) \<and>
        written (trace w3) = written (trace w2) \<and> replay (trace w3) empty_ledger = None"
    "close_error (m_stmt (snd x)) = Some msg \<Longrightarrow> r = Raised e \<Longrightarrow> fst (closing close_error h x body w1) = Terminated"
proof -
  show "\<exists>w3. closing close_error h x body w1 = (r, w3) \<and> (r = Done a \<longrightarrow> written (trace w3) = written (trace w2))"
    if "close_error (m_stmt (snd x)) = None"
    using destroy_closes(1)[where close_error = close_error and x = x and ?w2.0 = w2] that assms
    by (cases r) (auto simp: scope_def bnd_def DBConnHolder_destroy_def call_apply ret_apply raise_apply)
  show "\<exists>w3. closing close_error h x body w1 = (Raised (Db_Exception msg ''stmt_close''), w3) \<and>
        written (trace w3) = written (trace w2) \<and> replay (trace w3) empty_ledger = None"
    if "close_error (m_stmt (snd x)) = Some msg" "r = Done a"
    using destroy_closes(2)[where close_error = close_error and x = x and ?w2.0 = w2 and L = empty_ledger, OF that(1)] that assms
    by (auto simp: scope_def bnd_def DBConnHolder_destroy_def call_apply ret_apply raise_apply)
  show "fst (closing close_error h x body w1) = Terminated"
    if "close_error (m_stmt (snd x)) = Some msg" "r = Raised e"
    using destroy_closes(2)[where close_error = close_error and x = x and ?w2.0 = w2 and L = empty_ledger, OF that(1)] that assms
    by (auto simp: scope_def bnd_def DBConnHolder_destroy_def call_apply ret_apply raise_apply)
qed

text \<open>The front page, whose statement is closed after the whole page has been written.\<close>

definition front_posts :: "mysql \<Rightarrow> db_stmt \<Rightarrow> xml_node outcome" where
  "front_posts conn st = bind_outcome (execute st) (\<lambda>st. while_fetch blogroll_row st (XMLNode_new ''posts''))"

definition front_document :: "fcgi_request \<Rightarrow> xml_node \<Rightarrow> xml_doc" where
  "front_document rq posts = doc_add posts (with_stylesheet rq (XMLDoc_new ''page'' ''1.0''))"

lemma front_query:
  assumes "dumps_tree dump_memory dump" "DBStmt_new conn blogroll_sql = Returns st"
  shows "front_posts conn st = Returns posts \<Longrightarrow> dump (front_document rq posts) = Some page \<Longrightarrow>
      \<exists>w. query conn blogroll_sql (\<lambda>_. None) (\<lambda>stmt. bnd (of_outcome (execute (snd stmt))) (show_posts dump_memory rq)) new_world = (Done (), w) \<and>
        written (trace w) = page_header (content_type_of rq) @ page"
    "front_posts conn st = Throws e \<Longrightarrow>
      \<exists>w. query conn blogroll_sql (\<lambda>_. None) (\<lambda>stmt. bnd (of_outcome (execute (snd stmt))) (show_posts dump_memory rq)) new_world = (Raised e, w)"
proof -
  let ?q = "query conn blogroll_sql (\<lambda>_. None) (\<lambda>stmt. bnd (of_outcome (execute (snd stmt))) (show_posts dump_memory rq))"
  let ?r = "bind_outcome (front_posts conn st) (\<lambda>posts. document_text dump (content_type_of rq) (front_document rq posts))"
  have "corr view empty_ledger ?q ?r (\<lambda>_ b. wrote (Returns conn) empty_ledger b) (threw (Returns conn) (content_type_of rq) empty_ledger)"
    using corr_blogroll[OF assms(1), of "Returns conn" empty_ledger rq]
    by (simp add: assms(2) front_posts_def front_document_def bind_assoc3)
  note run = corrD[OF this view_new_world]
  show "\<exists>w. ?q new_world = (Done (), w) \<and> written (trace w) = page_header (content_type_of rq) @ page"
    if "front_posts conn st = Returns posts" "dump (front_document rq posts) = Some page"
  proof -
    have "?r = Returns (page_header (content_type_of rq) @ page)"
      using that by (simp add: document_text_def doc_text_def of_result_def)
    then obtain w L where "?q new_world = (Done (), w)" "view L w" "sent L = sent empty_ledger @ page_header (content_type_of rq) @ page"
      using run by (auto simp: wrote_def)
    then show ?thesis using replay_sent[of "trace w" empty_ledger L] by (simp add: view_def)
  qed
  show "\<exists>w. ?q new_world = (Raised e, w)" if "front_posts conn st = Throws e"
    using run by (auto simp: that)
qed

text \<open>C27. When the closing of the statement fails, the front page is followed by an error page: the destructor throws after the document has been written with its header, the exception is caught and a second response with a header of its own goes out behind the first; and the text of that error is read from the freed statement handle.\<close>

theorem failed_close_after_page:
  assumes "dumps_tree dump_memory dump" "get_fcgi_param rq ''SCRIPT_NAME'' \<in> {''/'', []}"
    and "DBStmt_new conn blogroll_sql = Returns st" "front_posts conn st = Returns posts"
    and "dump (front_document rq posts) = Some page" "close_error blogroll_sql = Some msg"
  shows "\<exists>w. wp_handle_scopes close_error dump_memory (Returns conn) rq new_world = (Done (), w) \<and>
    written (trace w) = page_header (content_type_of rq) @ page @ error_page (c_str msg) 200 \<and>
    replay (trace w) empty_ledger = None"
proof -
  let ?body = "\<lambda>stmt. bnd (of_outcome (execute (snd stmt))) (show_posts dump_memory rq)"
  obtain h x w1 where x: "snd x = st" "m_stmt st = blogroll_sql"
    "\<And>ce (b :: nat \<times> db_stmt \<Rightarrow> (world, unit) prog). query conn blogroll_sql ce b new_world = closing ce h x b w1"
    using query_prepared[OF assms(3)] by blast
  obtain r w2 where b: "?body x w1 = (r, w2)" by fastforce
  obtain w3 where w3: "closing (\<lambda>_. None) h x ?body w1 = (Done (), w3)" "written (trace w3) = page_header (content_type_of rq) @ page"
    using front_query(1)[OF assms(1,3,4,5)] unfolding x(3) by blast
  then have r: "r = Done ()" "written (trace w2) = page_header (content_type_of rq) @ page"
    using closing_ends(1)[where close_error = "\<lambda>_. None" and h = h and a = "()" and body = ?body, OF b] by auto
  obtain w4 where w4: "closing close_error h x ?body w1 = (Raised (Db_Exception msg ''stmt_close''), w4)"
    "written (trace w4) = written (trace w2)" "replay (trace w4) empty_ledger = None"
    using closing_ends(2)[where close_error = close_error and h = h and body = ?body, OF b _ r(1), of msg] assms(6) x(2)[folded x(1)] by auto
  have "wp_handle_scopes close_error dump_memory (Returns conn) rq new_world = on_db_error ''wp_handler::handle'' (c_str msg) w4"
    by (simp only: blogroll_routed[OF assms(2)] blogroll_scopes_def try_db_def x(3) w4(1) prod.case exit.case exn.case)
  then show ?thesis
    using w4(2,3) r(2) by (simp add: on_db_error_def log_error_def bnd_Done[OF call_apply] call_apply)
qed

text \<open>A database with empty results, or one that executes nothing.\<close>

definition plain_conn :: "(string \<times> string) + server_row list \<Rightarrow> mysql" where
  "plain_conn r = \<lparr>sql_prepare = (\<lambda>_. Inr (0, [])), sql_execute = (\<lambda>_ _ _. r)\<rparr>"

lemma plain_conn_runs:
  "DBStmt_new (plain_conn r) blogroll_sql = Returns
     \<lparr>m_handler = plain_conn r, m_stmt = blogroll_sql, m_bind_in = [], m_param_count = 0, m_column_data = [], m_blob_params = [], m_rows = []\<rparr>"
  "front_posts conn \<lparr>m_handler = plain_conn (Inr []), m_stmt = blogroll_sql, m_bind_in = [], m_param_count = 0, m_column_data = [], m_blob_params = [], m_rows = []\<rparr> =
     Returns (Elem ''posts'' [])"
  "front_posts conn \<lparr>m_handler = plain_conn (Inl (stage, msg)), m_stmt = blogroll_sql, m_bind_in = [], m_param_count = 0, m_column_data = [], m_blob_params = [], m_rows = []\<rparr> =
     Throws (Db_Exception msg stage)"
  by (simp_all add: DBStmt_new_def front_posts_def execute_def while_fetch.simps fetch_def plain_conn_def XMLNode_new_def c_str_def)

theorem failed_close_after_page_witness:
  "\<exists>w. wp_handle_scopes (\<lambda>_. Some ''gone'') (write_out (\<lambda>doc. Some (show_node (doc_root doc)))) (Returns (plain_conn (Inr []))) (request_for ''/'') new_world = (Done (), w) \<and>
    written (trace w) = page_header ''text/xml'' @ ''<page><posts></posts></page>'' @ error_page ''gone'' 200 \<and>
    replay (trace w) empty_ledger = None"
proof -
  let ?dump = "\<lambda>doc. Some (show_node (doc_root doc))"
  have "c_str ''gone'' = ''gone''" by (simp add: c_str_def)
  moreover have "get_fcgi_param (request_for ''/'') ''SCRIPT_NAME'' \<in> {''/'', []}"
    by (simp add: get_fcgi_param_def request_for_def)
  moreover have "content_type_of (request_for ''/'') = ''text/xml''"
    by (simp add: content_type_of_def get_param_def request_for_def)
  moreover have "?dump (front_document (request_for ''/'') (Elem ''posts'' [])) = Some ''<page><posts></posts></page>''"
    by (simp add: front_document_def doc_add_def with_stylesheet_def add_pi_def XMLDoc_new_def XMLNode_new_def node_add_def c_str_def)
  ultimately show ?thesis
    using failed_close_after_page[OF dumps_write_out _ plain_conn_runs(1,2), of "request_for ''/''" ?dump _ "\<lambda>_. Some ''gone''" "''gone''"]
    by simp
qed

text \<open>C28. When a query of the front page fails and its statement cannot be closed either, as after the loss of the connection, the destructor throws while the first exception is on its way, and the worker process is terminated instead of answering.\<close>

theorem lost_connection_terminates:
  assumes "dumps_tree dump_memory dump" "get_fcgi_param rq ''SCRIPT_NAME'' \<in> {''/'', []}"
    and "DBStmt_new conn blogroll_sql = Returns st" "front_posts conn st = Throws e" "close_error blogroll_sql = Some msg"
  shows "fst (wp_handle_scopes close_error dump_memory (Returns conn) rq new_world) = Terminated"
proof -
  let ?body = "\<lambda>stmt. bnd (of_outcome (execute (snd stmt))) (show_posts dump_memory rq)"
  obtain h x w1 where x: "snd x = st" "m_stmt st = blogroll_sql"
    "\<And>ce (b :: nat \<times> db_stmt \<Rightarrow> (world, unit) prog). query conn blogroll_sql ce b new_world = closing ce h x b w1"
    using query_prepared[OF assms(3)] by blast
  obtain r w2 where b: "?body x w1 = (r, w2)" by fastforce
  obtain w3 where "closing (\<lambda>_. None) h x ?body w1 = (Raised e, w3)"
    using front_query(2)[OF assms(1,3,4), of rq] unfolding x(3) by blast
  then have "r = Raised e"
    using closing_ends(1)[where close_error = "\<lambda>_. None" and h = h and body = ?body, OF b] by auto
  then have "fst (closing close_error h x ?body w1) = Terminated"
    using closing_ends(3)[where close_error = close_error and h = h and body = ?body, OF b, of msg] assms(5) x(2)[folded x(1)] by auto
  then obtain w4 where w4: "closing close_error h x ?body w1 = (Terminated, w4)" by (metis prod.collapse)
  show ?thesis
    by (simp only: blogroll_routed[OF assms(2)] blogroll_scopes_def try_db_def x(3) w4 prod.case exit.case fst_conv)
qed

theorem lost_connection_terminates_witness:
  "fst (wp_handle_scopes (\<lambda>_. Some ''gone'') (write_out (\<lambda>_. None)) (Returns (plain_conn (Inl (''stmt_execute'', ''gone'')))) (request_for ''/'') new_world) = Terminated"
proof -
  have "get_fcgi_param (request_for ''/'') ''SCRIPT_NAME'' \<in> {''/'', []}"
    by (simp add: get_fcgi_param_def request_for_def)
  then show ?thesis
    by (intro lost_connection_terminates[OF dumps_write_out _ plain_conn_runs(1,3)]) simp_all
qed

end
