(* ===== verification/Worker_Objects.thy ===== *)
theory Worker_Objects
  imports Worker Cleanup
begin

text \<open>
  The worker with the handlers as they are: the server of \<^theory_text>\<open>Worker\<close> calls the handlers of
  \<^theory_text>\<open>Blog_Scopes\<close> and \<^theory_text>\<open>Sitemap_Scopes\<close>, whose library calls write the response.
\<close>

section \<open>Handlers that run their objects\<close>

text \<open>A call of a handler that starts with nothing; what it wrote goes to the response.\<close>

definition run_handler :: "(world, unit) prog \<Rightarrow> fcgi_request \<Rightarrow> fcgi_response \<Rightarrow> exn option \<times> fcgi_request \<times> fcgi_response" where
  "run_handler m rq rs =
     (case m new_world of
        (Done _, w) \<Rightarrow> (None, rq, out (written (trace w)) rs)
      | (Raised e, w) \<Rightarrow> (Some e, rq, out (written (trace w)) rs)
      | (_, w) \<Rightarrow> (None, rq, rs))"

definition object_handlers ::
  "(string \<Rightarrow> string option) \<Rightarrow> (lib_call list \<Rightarrow> nat \<Rightarrow> string option) \<Rightarrow> (nat \<Rightarrow> mysql outcome) \<Rightarrow> site_map \<Rightarrow> 'x handler_effect" where
  "object_handlers close_error dump_memory get_conn sites h rq rs =
     (if h = WP_HANDLER then run_handler (wp_handle_scopes close_error dump_memory (get_conn POOL_WP_COM) rq) rq rs
      else run_handler (sitemap_handle_scopes close_error dump_memory get_conn sites rq) rq rs)"

lemma run_serves:
  assumes "serves m rs h" "h = Returns (e, rs')"
  shows "run_handler m rq rs = (e, rq, rs')"
proof -
  obtain w L where w: "m new_world = ((case e of None \<Rightarrow> Done () | Some e \<Rightarrow> Raised e), w)"
    "replay (trace w) empty_ledger = Some L" "rs' = out (sent L) rs"
    using assms by (auto simp: serves_def)
  have "sent L = written (trace w)" using replay_sent[OF w(2)] by (simp add: empty_ledger_def)
  then show ?thesis using w by (cases e) (simp_all add: run_handler_def)
qed

lemma object_handlers_run:
  assumes "dumps_tree dump_memory dump" "\<And>db_pool. get_conn db_pool \<noteq> Throws dump_error"
  shows "runs_worker_handlers dump get_conn sites (object_handlers (\<lambda>_. None) dump_memory get_conn sites)"
proof -
  have blog: "serves (wp_handle_scopes (\<lambda>_. None) dump_memory (get_conn POOL_WP_COM) rq) rs (wp_handle dump (get_conn POOL_WP_COM) rq rs)" for rq rs
    by (rule makes_serves(1)[OF wp_handle_makes[OF assms]])
  have site: "serves (sitemap_handle_scopes (\<lambda>_. None) dump_memory get_conn sites rq) rs (sitemap_handle dump get_conn sites rq rs)" for rq rs
    by (rule makes_serves(1)[OF sitemap_handle_makes[OF assms]])
  have "WP_HANDLER \<noteq> SITEMAP_HANDLER" by (simp add: WP_HANDLER_def SITEMAP_HANDLER_def)
  then show ?thesis
    by (simp add: runs_worker_handlers_def object_handlers_def run_serves[OF blog] run_serves[OF site])
qed

section \<open>The site map, through the whole worker\<close>

text \<open>C34. A request for the site map through the whole worker with all its objects: the server that the worker set up dispatches it, the handler takes a connection of the host's pool, runs its statements one after the other, builds the document node by node and writes it; the response is the header and the text of the complete site map.\<close>

theorem site_map_served_by_objects:
  assumes "worker_setup getpwnam getgrnam mutex_init_rc = Returns w"
    and "dumps_tree dump_memory dump" "\<And>db_pool. get_conn db_pool \<noteq> Throws dump_error"
    and "accepted_env_ok (Accepted env body)" "env ''SCRIPT_NAME'' = Some ''/sitemap.xml''"
    and "env ''SERVER_NAME'' = Some ''wordpress.example.com''"
    and "get_conn POOL_WP_COM = Returns conn" "site_db conn d" "read_int (per_page_text d) = Some (int k)" "0 < k"
    and "dump (fold doc_add (sitemap_nodes d k) (sitemap_head ''wordpress.example.com'')) = Some xml"
  shows "serve_request (object_handlers (\<lambda>_. None) dump_memory get_conn (the_sites w)) (the_server w) env body =
    Inr \<lparr>fcgi_out = page_header ''application/xml'' @ xml, fcgi_err = []\<rparr>"
  using site_map_dispatched[OF assms(1) object_handlers_run[OF assms(2), of get_conn, OF assms(3)] assms(4-10)]
  by (simp add: write_page_def doc_text_def assms(11) out_def fcgi_response_new_def page_header_def)

definition sitemap_env :: "string \<Rightarrow> string option" where
  "sitemap_env n = (if n = ''SCRIPT_NAME'' then Some ''/sitemap.xml''
     else if n = ''SERVER_NAME'' then Some ''wordpress.example.com'' else None)"

lemma sample_numbers: "read_int (per_page_text sample_site) = Some (int 10)" "accepted_env_ok (Accepted sitemap_env [])"
  by (simp_all add: sample_site_def read_int_def is_space_def is_digit_def digits_val_def digit_val_def accepted_env_ok_def sitemap_env_def)

theorem site_map_served_by_objects_witness:
  "serve_request (object_handlers (\<lambda>_. None) (write_out (\<lambda>doc. Some (show_node (doc_root doc)))) (\<lambda>_. Returns (site_conn sample_site))
      [(''wordpress.example.com'', POOL_WP_COM)] :: unit handler_effect) configured sitemap_env [] =
    Inr \<lparr>fcgi_out = page_header ''application/xml'' @
      show_node (doc_root (fold doc_add (sitemap_nodes sample_site 10) (sitemap_head ''wordpress.example.com''))), fcgi_err = []\<rparr>"
  using site_map_served_by_objects[OF setup_example dumps_write_out[of "\<lambda>doc. Some (show_node (doc_root doc))"] _ sample_numbers(2),
      of "\<lambda>_. Returns (site_conn sample_site)" "site_conn sample_site" sample_site 10, OF _ _ _ _ sample_site_db sample_numbers(1)]
  by (simp add: sitemap_env_def)

text \<open>When the document cannot be serialised, the header of the page has been written by then: the response is that header, the status 200 and the type of the page, followed by a second header with the status 500 and the error.\<close>

theorem unserialised_page_has_two_headers:
  assumes "worker_setup getpwnam getgrnam mutex_init_rc = Returns w"
    and "dumps_tree dump_memory dump" "\<And>db_pool. get_conn db_pool \<noteq> Throws dump_error"
    and "accepted_env_ok (Accepted env body)" "env ''SCRIPT_NAME'' = Some ''/sitemap.xml''"
    and "env ''SERVER_NAME'' = Some ''wordpress.example.com''"
    and "get_conn POOL_WP_COM = Returns conn" "site_db conn d" "read_int (per_page_text d) = Some (int k)" "0 < k"
    and "dump (fold doc_add (sitemap_nodes d k) (sitemap_head ''wordpress.example.com'')) = None"
  shows "serve_request (object_handlers (\<lambda>_. None) dump_memory get_conn (the_sites w)) (the_server w) env body =
    Inr \<lparr>fcgi_out = page_header ''application/xml'' @ ''Status: 500'' @ CRLF @ ''Content-Type: text/plain; encoding=utf-8'' @ CRLF @
      ''Cache-Control: no-cache'' @ CRLF @ CRLF @ ''Error: cannot serialize document'', fcgi_err = []\<rparr>"
  using site_map_dispatched[OF assms(1) object_handlers_run[OF assms(2), of get_conn, OF assms(3)] assms(4-10)]
  by (simp add: write_page_def doc_text_def assms(11) out_def fcgi_response_new_def page_header_def exn_output_def)

theorem unserialised_page_has_two_headers_witness:
  "serve_request (object_handlers (\<lambda>_. None) (write_out (\<lambda>_. None)) (\<lambda>_. Returns (site_conn sample_site))
      [(''wordpress.example.com'', POOL_WP_COM)] :: unit handler_effect) configured sitemap_env [] =
    Inr \<lparr>fcgi_out = page_header ''application/xml'' @ ''Status: 500'' @ CRLF @ ''Content-Type: text/plain; encoding=utf-8'' @ CRLF @
      ''Cache-Control: no-cache'' @ CRLF @ CRLF @ ''Error: cannot serialize document'', fcgi_err = []\<rparr>"
  using unserialised_page_has_two_headers[OF setup_example dumps_write_out[of "\<lambda>_. None"] _ sample_numbers(2),
      of "\<lambda>_. Returns (site_conn sample_site)" "site_conn sample_site" sample_site 10, OF _ _ _ _ sample_site_db sample_numbers(1)]
  by (simp add: sitemap_env_def)

end
