(* ===== verification/Conn_Life.thy ===== *)
theory Conn_Life
  imports Scopes Db_Stmt
begin

text \<open>
  The life of a connection to the database: the class \<open>DBConn\<close> of \<^verbatim>\<open>src/db/db_pool.h\<close>, whose
  object is the handler of the MySQL library and the time of its last use. The calls are kept in their
  order; \<open>real_connect\<close> is what the library answers to the arguments of the connect.
\<close>

datatype conn_call =
    Mysql_Init nat | Mysql_Connect nat string string string string nat | Mysql_Error nat | Mysql_Close nat
  | Conn_Log string

definition conn_op :: "conn_call \<Rightarrow> (conn_call list, unit) prog" where
  "conn_op c cs = (Done (), cs @ [c])"

text \<open>An object is the address of its handler, the connection, and \<open>m_last_used\<close>.\<close>

definition DBConn_make ::
  "(string \<Rightarrow> string \<Rightarrow> string \<Rightarrow> string \<Rightarrow> nat \<Rightarrow> string + mysql) \<Rightarrow> nat \<Rightarrow> nat \<Rightarrow> db_cred \<Rightarrow> (conn_call list, nat \<times> mysql \<times> nat) prog" where
  "DBConn_make real_connect now handler cred =
     bnd (conn_op (Mysql_Init handler)) (\<lambda>_.
     bnd (conn_op (Mysql_Connect handler (c_str (cred_host cred)) (c_str (cred_user cred)) (c_str (cred_passwd cred))
            (c_str (cred_db cred)) (cred_port cred))) (\<lambda>_.
       (case real_connect (c_str (cred_host cred)) (c_str (cred_user cred)) (c_str (cred_passwd cred))
          (c_str (cred_db cred)) (cred_port cred) of
          Inl msg \<Rightarrow> bnd (conn_op (Mysql_Error handler)) (\<lambda>_. raise (Db_Exception msg ''unknown''))
        | Inr conn \<Rightarrow> bnd (conn_op (Conn_Log ''SQL: connection established'')) (\<lambda>_. ret (handler, conn, now)))))"

definition DBConn_destroy :: "nat \<times> mysql \<times> nat \<Rightarrow> (conn_call list, unit) prog" where
  "DBConn_destroy x = bnd (conn_op (Mysql_Close (fst x))) (\<lambda>_. conn_op (Conn_Log ''SQL: connection closed''))"

text \<open>
  The terms of the library: a handler is initialised once and closed once, and used in between; also
  when the connect failed it has memory that only \<open>mysql_close\<close> frees.
\<close>

fun handlers_step :: "conn_call \<Rightarrow> nat set \<Rightarrow> nat set option" where
  "handlers_step (Mysql_Init h) H = (if h \<in> H then None else Some (insert h H))"
| "handlers_step (Mysql_Connect h _ _ _ _ _) H = (if h \<in> H then Some H else None)"
| "handlers_step (Mysql_Error h) H = (if h \<in> H then Some H else None)"
| "handlers_step (Mysql_Close h) H = (if h \<in> H then Some (H - {h}) else None)"
| "handlers_step (Conn_Log s) H = Some H"

fun handlers :: "conn_call list \<Rightarrow> nat set option" where
  "handlers [] = Some {}"
| "handlers (c # cs) = Option.bind (handlers cs) (handlers_step c)"

text \<open>The open handlers after some calls, the last call first in \<open>handlers\<close>.\<close>

definition opened :: "nat set \<Rightarrow> conn_call list \<Rightarrow> bool" where
  "opened H cs \<longleftrightarrow> handlers (rev cs) = Some H"

lemma opened_Nil [simp]: "opened {} []"
  by (simp add: opened_def)

lemma opened_snoc: "opened H cs \<Longrightarrow> handlers_step c H = Some H' \<Longrightarrow> opened H' (cs @ [c])"
  by (simp add: opened_def)

lemma corr_conn_op: "handlers_step c H = Some H' \<Longrightarrow> corr opened H (conn_op c) (Returns ()) (\<lambda>_ _ M. M = H') E"
  by (rule corr_ReturnsI) (auto simp: conn_op_def opened_snoc)

interpretation db_conn: destructible opened DBConn_destroy "\<lambda>x H. fst x \<in> H" "\<lambda>x H. H - {fst x}"
  by unfold_locales (auto simp: DBConn_destroy_def conn_op_def bnd_def opened_def)

text \<open>The constructor does what \<open>DBConn_new\<close> says; when it throws, the handler stays open.\<close>

lemma corr_DBConn_make:
  assumes "handler \<notin> H"
  shows "corr opened H (DBConn_make real_connect now handler cred)
    (bind_outcome (of_result (DBConn_new real_connect cred)) (\<lambda>conn. Returns (handler, conn, now)))
    (\<lambda>a b M. a = b \<and> M = insert handler H) (\<lambda>e M. M = insert handler H)"
proof -
  let ?H = "insert handler H"
  have op: "corr opened ?H (conn_op c) (Returns ()) (\<lambda>_ _ M. M = ?H) (\<lambda>e M. M = ?H)"
    if "handlers_step c ?H = Some ?H" for c
    by (rule corr_conn_op[OF that])
  show ?thesis
    unfolding DBConn_make_def
  proof (rule corr_then[OF corr_conn_op], simp add: assms, rule corr_then[OF op], simp)
    show "corr opened ?H (case real_connect (c_str (cred_host cred)) (c_str (cred_user cred)) (c_str (cred_passwd cred))
          (c_str (cred_db cred)) (cred_port cred) of
          Inl msg \<Rightarrow> bnd (conn_op (Mysql_Error handler)) (\<lambda>_. raise (Db_Exception msg ''unknown''))
        | Inr conn \<Rightarrow> bnd (conn_op (Conn_Log ''SQL: connection established'')) (\<lambda>_. ret (handler, conn, now)))
      (bind_outcome (of_result (DBConn_new real_connect cred)) (\<lambda>conn. Returns (handler, conn, now)))
      (\<lambda>a b M. a = b \<and> M = ?H) (\<lambda>e M. M = ?H)"
      by (auto simp: DBConn_new_def of_result_def split: sum.split intro!: corr_then[OF op] corr_raise corr_ret)
  qed
qed

text \<open>A connection that came about is closed once, also when its scope is left by an exception.\<close>

theorem connection_closed:
  assumes "handler \<notin> H" "DBConn_new real_connect cred = Inr conn"
    and "corr opened (insert handler H) (body (handler, conn, now)) r (\<lambda>a b M. M = insert handler H \<and> Q a b) (\<lambda>e M. M = insert handler H)"
  shows "corr opened H (scope (DBConn_make real_connect now handler cred) DBConn_destroy body) r
    (\<lambda>a b M. M = H \<and> Q a b) (\<lambda>e M. M = H)"
proof -
  let ?r = "bind_outcome (of_result (DBConn_new real_connect cred)) (\<lambda>conn. Returns (handler, conn, now))"
  have "corr opened H (DBConn_make real_connect now handler cred) ?r (\<lambda>a b M. a = b \<and> M = insert handler H) (\<lambda>e M. M = H)"
    using corr_DBConn_make[OF assms(1), of real_connect now cred] by (simp add: corr_def assms(2) of_result_def)
  then have "corr opened H (scope (DBConn_make real_connect now handler cred) DBConn_destroy body) (bind_outcome ?r (\<lambda>_. r))
      (\<lambda>a b M. M = H \<and> Q a b) (\<lambda>e M. M = H)"
  proof (rule db_conn.scope_bind_corr, elim conjE)
    fix x b M assume "?r = Returns b" "x = b" "M = insert handler H"
    then show "corr opened M (body x) r (\<lambda>a c l2. fst x \<in> l2 \<and> l2 - {fst x} = H \<and> Q a c) (\<lambda>e l2. fst x \<in> l2 \<and> l2 - {fst x} = H)"
      using assms(1) by (auto simp: assms(2) of_result_def intro: corr_conseq[OF assms(3)])
  qed
  then show ?thesis by (simp add: assms(2) of_result_def)
qed

text \<open>A connect that fails: the constructor throws with the text of the library, and the handler it
  initialised is never closed, whatever the scope.\<close>

theorem failed_connect_leaks_handler:
  assumes "handler \<notin> H" "DBConn_new real_connect cred = Inl e" "opened H cs"
  shows "\<exists>cs'. scope (DBConn_make real_connect now handler cred) DBConn_destroy body cs = (Raised e, cs') \<and> opened (insert handler H) cs'"
proof -
  obtain cs' where "DBConn_make real_connect now handler cred cs = (Raised e, cs')" "opened (insert handler H) cs'"
    using corrD[OF corr_DBConn_make[OF assms(1), of real_connect now cred] assms(3)] by (auto simp: assms(2) of_result_def)
  then show ?thesis by (auto simp: scope_def bnd_Raised)
qed

end
