(* ===== verification/Scoped_Lock.thy ===== *)
theory Scoped_Lock
  imports Scopes "HOL-Library.Multiset"
begin

text \<open>
  The guards of a readers-writer lock (\<^verbatim>\<open>src/server/scoped_lock.h\<close>): \<open>ScopedRLock\<close> and
  \<open>ScopedWLock\<close> lock in the constructor and unlock in the destructor, and look at no result.
  The lock itself belongs to the thread library: \<open>refused\<close> says which calls it refuses, after the
  calls a thread made so far; a lock that was granted is held until it is unlocked, and unlocking
  one that is not held is outside the terms (\<open>None\<close>).
\<close>

section \<open>The guards\<close>

datatype lock_call = Rdlock nat | Wrlock nat | Unlock nat

definition lock_op :: "lock_call \<Rightarrow> (lock_call list, unit) prog" where
  "lock_op c cs = (Done (), cs @ [c])"

definition ScopedRLock_make :: "nat \<Rightarrow> (lock_call list, nat) prog" where
  "ScopedRLock_make rwlock = bnd (lock_op (Rdlock rwlock)) (\<lambda>_. ret rwlock)"

definition ScopedRLock_destroy :: "nat \<Rightarrow> (lock_call list, unit) prog" where
  "ScopedRLock_destroy m_rwlock = lock_op (Unlock m_rwlock)"

definition ScopedWLock_make :: "nat \<Rightarrow> (lock_call list, nat) prog" where
  "ScopedWLock_make rwlock = bnd (lock_op (Wrlock rwlock)) (\<lambda>_. ret rwlock)"

definition ScopedWLock_destroy :: "nat \<Rightarrow> (lock_call list, unit) prog" where
  "ScopedWLock_destroy m_rwlock = lock_op (Unlock m_rwlock)"

section \<open>The locks a thread holds\<close>

fun held_after :: "(lock_call list \<Rightarrow> lock_call \<Rightarrow> bool) \<Rightarrow> lock_call list \<Rightarrow> lock_call \<Rightarrow> nat multiset \<Rightarrow> nat multiset option" where
  "held_after refused cs (Rdlock l) H = Some (if refused cs (Rdlock l) then H else add_mset l H)"
| "held_after refused cs (Wrlock l) H = Some (if refused cs (Wrlock l) then H else add_mset l H)"
| "held_after refused cs (Unlock l) H = (if l \<in># H then Some (H - {#l#}) else None)"

text \<open>The last call first.\<close>

fun held_rev :: "(lock_call list \<Rightarrow> lock_call \<Rightarrow> bool) \<Rightarrow> lock_call list \<Rightarrow> nat multiset option" where
  "held_rev refused [] = Some {#}"
| "held_rev refused (c # cs) = Option.bind (held_rev refused cs) (held_after refused (rev cs) c)"

definition held :: "(lock_call list \<Rightarrow> lock_call \<Rightarrow> bool) \<Rightarrow> lock_call list \<Rightarrow> nat multiset option" where
  "held refused cs = held_rev refused (rev cs)"

lemma held_simps [simp]:
  "held refused [] = Some {#}" "held refused (cs @ [c]) = Option.bind (held refused cs) (held_after refused cs c)"
  by (simp_all add: held_def)

definition holding :: "nat multiset \<Rightarrow> lock_call list \<Rightarrow> bool" where
  "holding H cs \<longleftrightarrow> held (\<lambda>_ _. False) cs = Some H"

interpretation rlock: scoped_class holding ScopedRLock_destroy "\<lambda>l H. l \<in># H" "\<lambda>l H. H - {#l#}"
    "ScopedRLock_make rwlock" "\<lambda>l H H'. l = rwlock \<and> H' = add_mset rwlock H" for rwlock
  by unfold_locales
    (auto simp: holding_def ScopedRLock_destroy_def ScopedRLock_make_def lock_op_def bnd_def ret_def)

interpretation wlock: scoped_class holding ScopedWLock_destroy "\<lambda>l H. l \<in># H" "\<lambda>l H. H - {#l#}"
    "ScopedWLock_make rwlock" "\<lambda>l H H'. l = rwlock \<and> H' = add_mset rwlock H" for rwlock
  by unfold_locales
    (auto simp: holding_def ScopedWLock_destroy_def ScopedWLock_make_def lock_op_def bnd_def ret_def)

text \<open>With a lock that refuses nothing, the code of a scope runs with the lock and leaves without it,
  by a return as by an exception.\<close>

theorem scoped_locks_balanced:
  assumes "corr holding (add_mset l H) (body l) r (\<lambda>a b H1. H1 = add_mset l H \<and> Q a b) (\<lambda>e H1. H1 = add_mset l H \<and> E e)"
  shows "corr holding H (scope (ScopedRLock_make l) ScopedRLock_destroy body) r (\<lambda>a b H1. H1 = H \<and> Q a b) (\<lambda>e H1. H1 = H \<and> E e)"
    "corr holding H (scope (ScopedWLock_make l) ScopedWLock_destroy body) r (\<lambda>a b H1. H1 = H \<and> Q a b) (\<lambda>e H1. H1 = H \<and> E e)"
  by (rule rlock.scope_corr wlock.scope_corr, elim conjE, hypsubst, rule corr_conseq[OF assms]; auto)+

text \<open>
  A thread that writes under the lock and calls code that reads under it: when the library refuses the
  second lock, which it may report as a deadlock, nobody notices; the inner guard then releases the lock
  of the outer one, the rest of the outer scope runs without it, and the outer destructor unlocks a
  lock that is not held.
\<close>

definition nested :: "nat \<Rightarrow> (lock_call list, unit) prog \<Rightarrow> (lock_call list, unit) prog" where
  "nested l rest =
     scope (ScopedWLock_make l) ScopedWLock_destroy (\<lambda>_.
       bnd (scope (ScopedRLock_make l) ScopedRLock_destroy (\<lambda>_. ret ())) (\<lambda>_. rest))"

theorem refused_lock_releases_outer:
  assumes "\<And>cs. refused cs (Rdlock l)" "\<And>cs. \<not> refused cs (Wrlock l)"
  shows "\<exists>cs. nested l rest [] = scope (ret l) ScopedWLock_destroy (\<lambda>_. rest) cs \<and> held refused cs = Some {#}"
    "nested l (ret ()) [] = (Done (), [Wrlock l, Rdlock l, Unlock l, Unlock l]) \<and>
     held refused [Wrlock l, Rdlock l, Unlock l, Unlock l] = None"
proof -
  have h: "held refused [Wrlock l, Rdlock l, Unlock l] = Some {#}"
    "held refused [Wrlock l, Rdlock l, Unlock l, Unlock l] = None"
    using assms by (simp_all add: held_def)
  note run = scope_def ScopedWLock_make_def ScopedWLock_destroy_def ScopedRLock_make_def ScopedRLock_destroy_def lock_op_def bnd_def ret_def
  show "\<exists>cs. nested l rest [] = scope (ret l) ScopedWLock_destroy (\<lambda>_. rest) cs \<and> held refused cs = Some {#}"
    by (intro exI[of _ "[Wrlock l, Rdlock l, Unlock l]"]) (simp add: nested_def run h)
  show "nested l (ret ()) [] = (Done (), [Wrlock l, Rdlock l, Unlock l, Unlock l]) \<and>
     held refused [Wrlock l, Rdlock l, Unlock l, Unlock l] = None"
    by (simp add: nested_def run h)
qed

end
