(* ===== verification/Column_Buffers.thy ===== *)
theory Column_Buffers
  imports Db_Stmt
begin

text \<open>
  The sizes of the buffers of result columns: what the constructor of \<open>DBStmt\<close> and \<open>fetch\<close> allocate,
  how much the library stores there, and how much \<open>column_to_string\<close> reads
  (\<^verbatim>\<open>src/db/db_pool.h\<close>). The buffer of a column that is no BLOB and no time has the display length of
  the field; the library stores numbers in the size of their C type all the same.

  \<open>time_size\<close> is the size of \<open>MYSQL_TIME\<close>. What the library stores is the argument \<open>stores\<close>.
\<close>

section \<open>Buffers\<close>

record field =
  f_type :: field_type
  f_length :: nat

definition is_time_field :: "field_type \<Rightarrow> bool" where
  "is_time_field ty \<longleftrightarrow> ty = MYSQL_TYPE_TIME \<or> ty = MYSQL_TYPE_DATE \<or> ty = MYSQL_TYPE_DATETIME \<or> ty = MYSQL_TYPE_TIMESTAMP"

text \<open>A column's buffer (NULL for none) and the length that is told to the library.\<close>

record column_buffer =
  allocated :: "nat option"
  buffer_length :: nat

definition column_buffer_new :: "nat \<Rightarrow> field \<Rightarrow> column_buffer" where
  "column_buffer_new time_size f =
     (if f_type f \<noteq> MYSQL_TYPE_BLOB
      then \<lparr>allocated = Some (if is_time_field (f_type f) then time_size else f_length f), buffer_length = f_length f\<rparr>
      else \<lparr>allocated = None, buffer_length = 0\<rparr>)"

text \<open>\<open>fetch\<close> gives a BLOB column memory for the value at hand.\<close>

definition column_buffer_fetched :: "field \<Rightarrow> nat \<Rightarrow> column_buffer \<Rightarrow> column_buffer" where
  "column_buffer_fetched f actual_length b =
     (if f_type f = MYSQL_TYPE_BLOB
      then (if actual_length \<noteq> 0 then \<lparr>allocated = Some actual_length, buffer_length = actual_length\<rparr>
            else b\<lparr>allocated := None\<rparr>)
      else b)"

text \<open>The bytes that \<open>column_to_string\<close> reads through its casts, or by the actual length.\<close>

definition cast_size :: "field_type \<Rightarrow> nat option" where
  "cast_size ty =
     (case ty of
        MYSQL_TYPE_TINY \<Rightarrow> Some 1 | MYSQL_TYPE_SHORT \<Rightarrow> Some 2 | MYSQL_TYPE_LONG \<Rightarrow> Some 4
      | MYSQL_TYPE_LONGLONG \<Rightarrow> Some 8 | MYSQL_TYPE_DOUBLE \<Rightarrow> Some 8 | MYSQL_TYPE_FLOAT \<Rightarrow> Some 4
      | _ \<Rightarrow> None)"

definition bytes_read :: "nat \<Rightarrow> field \<Rightarrow> nat \<Rightarrow> nat" where
  "bytes_read time_size f actual_length =
     (case cast_size (f_type f) of
        Some n \<Rightarrow> n
      | None \<Rightarrow>
          if f_type f \<in> {MYSQL_TYPE_STRING, MYSQL_TYPE_VAR_STRING, MYSQL_TYPE_BLOB} then actual_length
          else if f_type f \<in> {MYSQL_TYPE_DATETIME, MYSQL_TYPE_TIMESTAMP} then time_size
          else 0)"

section \<open>When everything stays inside\<close>

text \<open>
  The library's documentation: a number is stored in the size of its C type and a time as a
  \<open>MYSQL_TIME\<close>, whatever length it was told; a string or a BLOB up to that length.
\<close>

definition stores_as_documented :: "nat \<Rightarrow> (field_type \<Rightarrow> nat \<Rightarrow> nat \<Rightarrow> nat) \<Rightarrow> bool" where
  "stores_as_documented time_size stores \<longleftrightarrow>
     (\<forall>ty len n k. cast_size ty = Some k \<longrightarrow> stores ty len n = k) \<and>
     (\<forall>ty len n. is_time_field ty \<longrightarrow> stores ty len n = time_size) \<and>
     (\<forall>ty len n. ty \<in> {MYSQL_TYPE_STRING, MYSQL_TYPE_VAR_STRING, MYSQL_TYPE_BLOB} \<longrightarrow> stores ty len n = min n len)"

definition inside :: "column_buffer \<Rightarrow> nat \<Rightarrow> bool" where
  "inside b n \<longleftrightarrow> n \<le> (case allocated b of None \<Rightarrow> 0 | Some k \<Rightarrow> k)"

text \<open>A value of a column is fetched and read.\<close>

definition value_fits :: "nat \<Rightarrow> (field_type \<Rightarrow> nat \<Rightarrow> nat \<Rightarrow> nat) \<Rightarrow> field \<Rightarrow> nat \<Rightarrow> bool" where
  "value_fits time_size stores f actual_length =
     (let b = column_buffer_fetched f actual_length (column_buffer_new time_size f)
      in inside b (stores (f_type f) (buffer_length b) actual_length) \<and> inside b (bytes_read time_size f actual_length))"

lemma field_kinds:
  "f_type f \<noteq> MYSQL_TYPE_OTHER \<Longrightarrow> cast_size (f_type f) \<noteq> None \<or> is_time_field (f_type f) \<or>
     f_type f \<in> {MYSQL_TYPE_STRING, MYSQL_TYPE_VAR_STRING, MYSQL_TYPE_BLOB}"
  by (cases "f_type f") (simp_all add: cast_size_def is_time_field_def)

text \<open>C40. The rows of a statement, read column by column, stay inside the columns' buffers exactly when no numeric column has a display width below the size of its type: strings up to their field's length, times and BLOBs of any length always fit, but an \<open>INT(3)\<close> is stored and read one byte past its buffer.\<close>

theorem column_buffers_fit:
  assumes "stores_as_documented time_size stores"
    and "\<And>f. f \<in> set cols \<Longrightarrow> f_type f \<noteq> MYSQL_TYPE_OTHER"
    and "\<And>f. f \<in> set cols \<Longrightarrow> f_type f \<in> {MYSQL_TYPE_STRING, MYSQL_TYPE_VAR_STRING} \<Longrightarrow> len f \<le> f_length f"
  shows "(\<forall>f \<in> set cols. value_fits time_size stores f (len f)) \<longleftrightarrow>
    (\<forall>f \<in> set cols. \<forall>k. cast_size (f_type f) = Some k \<longrightarrow> k \<le> f_length f)"
proof (rule ball_cong[OF refl])
  fix f assume f: "f \<in> set cols"
  note st = assms(1)[unfolded stores_as_documented_def]
  consider k where "cast_size (f_type f) = Some k" | "cast_size (f_type f) = None" "is_time_field (f_type f)"
    | "cast_size (f_type f) = None" "f_type f \<in> {MYSQL_TYPE_STRING, MYSQL_TYPE_VAR_STRING}" | "f_type f = MYSQL_TYPE_BLOB"
    using field_kinds[OF assms(2)[OF f]] by blast
  then show "value_fits time_size stores f (len f) \<longleftrightarrow> (\<forall>k. cast_size (f_type f) = Some k \<longrightarrow> k \<le> f_length f)"
  proof cases
    case 1
    then have "f_type f \<noteq> MYSQL_TYPE_BLOB" "\<not> is_time_field (f_type f)"
      by (auto simp: cast_size_def is_time_field_def split: field_type.splits)
    then show ?thesis
      using 1 st by (simp add: value_fits_def column_buffer_new_def column_buffer_fetched_def inside_def bytes_read_def)
  next
    case 2
    then have "f_type f \<notin> {MYSQL_TYPE_STRING, MYSQL_TYPE_VAR_STRING, MYSQL_TYPE_BLOB}" by (auto simp: is_time_field_def)
    then show ?thesis
      using 2 st by (simp add: value_fits_def column_buffer_new_def column_buffer_fetched_def inside_def bytes_read_def Let_def)
  next
    case 3
    then have "f_type f \<noteq> MYSQL_TYPE_BLOB" "\<not> is_time_field (f_type f)" by (auto simp: is_time_field_def)
    then show ?thesis
      using 3 st assms(3)[OF f] by (auto simp: value_fits_def column_buffer_new_def column_buffer_fetched_def inside_def bytes_read_def Let_def)
  next
    case 4
    then show ?thesis
      using st by (auto simp: value_fits_def column_buffer_new_def column_buffer_fetched_def inside_def bytes_read_def Let_def cast_size_def)
  qed
qed

text \<open>The columns of the front page of a blog, and one of a narrow number.\<close>

definition sample_stores :: "nat \<Rightarrow> field_type \<Rightarrow> nat \<Rightarrow> nat \<Rightarrow> nat" where
  "sample_stores time_size ty len n =
     (case cast_size ty of Some k \<Rightarrow> k | None \<Rightarrow> if is_time_field ty then time_size else min n len)"

theorem column_buffers_fit_witness:
  "list_all (\<lambda>f. value_fits 40 (sample_stores 40) f 7)
     [\<lparr>f_type = MYSQL_TYPE_LONGLONG, f_length = 20\<rparr>, \<lparr>f_type = MYSQL_TYPE_BLOB, f_length = 262140\<rparr>,
      \<lparr>f_type = MYSQL_TYPE_VAR_STRING, f_length = 20\<rparr>, \<lparr>f_type = MYSQL_TYPE_DATETIME, f_length = 19\<rparr>] \<and>
   \<not> value_fits 40 (sample_stores 40) \<lparr>f_type = MYSQL_TYPE_LONG, f_length = 3\<rparr> 3"
proof -
  have st: "stores_as_documented 40 (sample_stores 40)"
    by (auto simp: stores_as_documented_def sample_stores_def cast_size_def is_time_field_def split: field_type.splits)
  let ?wide = "[\<lparr>f_type = MYSQL_TYPE_LONGLONG, f_length = 20\<rparr>, \<lparr>f_type = MYSQL_TYPE_BLOB, f_length = 262140\<rparr>,
      \<lparr>f_type = MYSQL_TYPE_VAR_STRING, f_length = 20\<rparr>, \<lparr>f_type = MYSQL_TYPE_DATETIME, f_length = 19\<rparr>]"
  have "\<forall>f \<in> set ?wide. value_fits 40 (sample_stores 40) f 7"
    by (subst column_buffers_fit[OF st, where len = "\<lambda>_. 7"]) (auto simp: cast_size_def)
  moreover have "\<not> (\<forall>f \<in> set [\<lparr>f_type = MYSQL_TYPE_LONG, f_length = 3\<rparr>]. value_fits 40 (sample_stores 40) f 3)"
    by (subst column_buffers_fit[OF st, where len = "\<lambda>_. 3"]) (auto simp: cast_size_def)
  ultimately show ?thesis by (simp only: list_all_iff) simp
qed

end
