(* ===== verification/Bound_Params.thy ===== *)
theory Bound_Params
  imports Db_Stmt
begin

text \<open>
  The parameters of a prepared statement as the class \<open>DBStmt\<close> of \<^verbatim>\<open>src/db/db_pool.h\<close>
  keeps them: \<open>bindInt\<close>, \<open>bindDouble\<close> and \<open>bindString\<close> store the address of the caller's
  variable, which the library reads when the statement is executed; \<open>bindBlob\<close> keeps a copy. The
  operations of \<^theory_text>\<open>Db_Stmt\<close> store values; they agree with these as long as the variables live
  and keep their values until the statement is executed.
\<close>

section \<open>Variables and parameters\<close>

type_synonym addr = nat

text \<open>What lives at an address: a number, or the characters of a string (without the NUL byte).\<close>

datatype variable = Int_Variable int | Double_Variable string | Characters string

type_synonym memory = "addr \<Rightarrow> variable option"

datatype param_slot = Unset_Slot | Long_Slot addr | Double_Slot addr | String_Slot addr nat | Blob_Slot

text \<open>\<open>m_bind_in\<close> with as many slots as \<open>m_param_count\<close>, and the list of \<open>BlobParam\<close>.\<close>

record bound =
  slots :: "param_slot list"
  blobs :: "(nat \<times> string) list"

definition fresh_bound :: "nat \<Rightarrow> bound" where
  "fresh_bound params = \<lparr>slots = replicate params Unset_Slot, blobs = []\<rparr>"

definition set_slot :: "nat \<Rightarrow> param_slot \<Rightarrow> bound \<Rightarrow> bound" where
  "set_slot colno x b = (if colno < length (slots b) then b\<lparr>slots := (slots b)[colno := x]\<rparr> else b)"

text \<open>The calls, with the addresses of their arguments; a string is bound with its size at the time.\<close>

datatype bind_call = Bind_Int nat addr | Bind_Double nat addr | Bind_String nat addr | Bind_Blob nat addr

fun bind_address :: "memory \<Rightarrow> bind_call \<Rightarrow> bound \<Rightarrow> bound" where
  "bind_address mem (Bind_Int colno a) b = set_slot colno (Long_Slot a) b"
| "bind_address mem (Bind_Double colno a) b = set_slot colno (Double_Slot a) b"
| "bind_address mem (Bind_String colno a) b =
     set_slot colno (String_Slot a (case mem a of Some (Characters s) \<Rightarrow> length s | _ \<Rightarrow> 0)) b"
| "bind_address mem (Bind_Blob colno a) b =
     (if colno < length (slots b)
      then (set_slot colno Blob_Slot b)\<lparr>blobs := blobs b @ [(colno, case mem a of Some (Characters s) \<Rightarrow> s | _ \<Rightarrow> [])]\<rparr>
      else b)"

text \<open>The library reads the slots: the variable must still live, and a string be long enough.\<close>

fun read_slot :: "memory \<Rightarrow> param_slot \<Rightarrow> bind_param outcome" where
  "read_slot mem Unset_Slot = Undefined"
| "read_slot mem (Long_Slot a) = (case mem a of Some (Int_Variable v) \<Rightarrow> Returns (Bound_Int v) | _ \<Rightarrow> Undefined)"
| "read_slot mem (Double_Slot a) = (case mem a of Some (Double_Variable v) \<Rightarrow> Returns (Bound_Double v) | _ \<Rightarrow> Undefined)"
| "read_slot mem (String_Slot a n) =
     (case mem a of
        Some (Characters s) \<Rightarrow> if n \<le> length s + 1 then Returns (Bound_String (take n (s @ [NUL]))) else Undefined
      | _ \<Rightarrow> Undefined)"
| "read_slot mem Blob_Slot = Returns Bound_Blob"

fun read_slots :: "memory \<Rightarrow> param_slot list \<Rightarrow> bind_param list outcome" where
  "read_slots mem [] = Returns []"
| "read_slots mem (x # xs) =
     bind_outcome (read_slot mem x) (\<lambda>p. bind_outcome (read_slots mem xs) (\<lambda>ps. Returns (p # ps)))"

definition execute_bound :: "memory \<Rightarrow> bound \<Rightarrow> db_stmt \<Rightarrow> db_stmt outcome" where
  "execute_bound mem b st =
     bind_outcome (read_slots mem (slots b)) (\<lambda>ps.
       case sql_execute (m_handler st) (m_stmt st) ps (blobs b) of
         Inl (stage, msg) \<Rightarrow> Throws (Db_Exception msg stage)
       | Inr rows \<Rightarrow> Returns (st\<lparr>m_rows := rows\<rparr>))"

section \<open>Binding by address and by value\<close>

text \<open>The same call on the model that stores values.\<close>

fun bind_value :: "memory \<Rightarrow> bind_call \<Rightarrow> db_stmt \<Rightarrow> db_stmt" where
  "bind_value mem (Bind_Int colno a) st = (case mem a of Some (Int_Variable v) \<Rightarrow> bindInt colno v st | _ \<Rightarrow> st)"
| "bind_value mem (Bind_Double colno a) st = (case mem a of Some (Double_Variable v) \<Rightarrow> bindDouble colno v st | _ \<Rightarrow> st)"
| "bind_value mem (Bind_String colno a) st = (case mem a of Some (Characters v) \<Rightarrow> bindString colno v st | _ \<Rightarrow> st)"
| "bind_value mem (Bind_Blob colno a) st = (case mem a of Some (Characters v) \<Rightarrow> bindBlob colno v st | _ \<Rightarrow> st)"

text \<open>A call on a variable of its type that still has its value in \<open>later_mem\<close>; a copied one need not.\<close>

fun kept :: "memory \<Rightarrow> memory \<Rightarrow> bind_call \<Rightarrow> bool" where
  "kept mem later_mem (Bind_Int colno a) \<longleftrightarrow> (\<exists>v. mem a = Some (Int_Variable v)) \<and> later_mem a = mem a"
| "kept mem later_mem (Bind_Double colno a) \<longleftrightarrow> (\<exists>v. mem a = Some (Double_Variable v)) \<and> later_mem a = mem a"
| "kept mem later_mem (Bind_String colno a) \<longleftrightarrow> (\<exists>v. mem a = Some (Characters v)) \<and> later_mem a = mem a"
| "kept mem later_mem (Bind_Blob colno a) \<longleftrightarrow> (\<exists>v. mem a = Some (Characters v))"

definition slot_stands :: "memory \<Rightarrow> param_slot \<Rightarrow> bind_param \<Rightarrow> bool" where
  "slot_stands mem x p \<longleftrightarrow> (if p = Garbage then x = Unset_Slot else read_slot mem x = Returns p)"

definition stands_for :: "memory \<Rightarrow> bound \<Rightarrow> db_stmt \<Rightarrow> bool" where
  "stands_for mem b st \<longleftrightarrow> list_all2 (slot_stands mem) (slots b) (m_bind_in st) \<and>
     m_param_count st = length (slots b) \<and> blobs b = m_blob_params st"

lemma stands_for_fresh:
  "m_bind_in st = replicate n Garbage \<Longrightarrow> m_param_count st = n \<Longrightarrow> m_blob_params st = [] \<Longrightarrow> stands_for mem (fresh_bound n) st"
  by (simp add: stands_for_def fresh_bound_def list_all2_conv_all_nth slot_stands_def)

lemma stands_for_set:
  assumes "stands_for mem b st" "slot_stands mem x p"
  shows "stands_for mem (set_slot colno x b)
    (if colno < m_param_count st then st\<lparr>m_bind_in := (m_bind_in st)[colno := p]\<rparr> else st)"
  using assms by (auto simp: stands_for_def set_slot_def intro: list_all2_update_cong)

lemma stands_for_bind:
  assumes "stands_for later_mem b st" "kept mem later_mem c"
  shows "stands_for later_mem (bind_address mem c b) (bind_value mem c st)"
proof (cases c)
  case (Bind_Int colno a)
  then show ?thesis
    using assms stands_for_set[OF assms(1), of "Long_Slot a" _ colno]
    by (auto simp: bindInt_def slot_stands_def)
next
  case (Bind_Double colno a)
  then show ?thesis
    using assms stands_for_set[OF assms(1), of "Double_Slot a" _ colno]
    by (auto simp: bindDouble_def slot_stands_def)
next
  case (Bind_String colno a)
  then show ?thesis
    using assms stands_for_set[OF assms(1), of "String_Slot a _" _ colno]
    by (auto simp: bindString_def slot_stands_def)
next
  case (Bind_Blob colno a)
  then obtain v where "mem a = Some (Characters v)" using assms(2) by auto
  moreover have "stands_for later_mem (set_slot colno Blob_Slot b)
      (if colno < m_param_count st then st\<lparr>m_bind_in := (m_bind_in st)[colno := Bound_Blob]\<rparr> else st)"
    using assms(1) by (rule stands_for_set) (simp add: slot_stands_def)
  ultimately show ?thesis
    using assms(1) Bind_Blob by (auto simp: bindBlob_def stands_for_def set_slot_def)
qed

lemma read_slot_cases: "read_slot mem x = Undefined \<or> (\<exists>p. read_slot mem x = Returns p)"
  by (cases x) (auto split: option.splits variable.splits)

lemma read_slots_stand:
  assumes "list_all2 (slot_stands mem) xs ps"
  shows "read_slots mem xs = (if Garbage \<in> set ps then Undefined else Returns ps)"
  using assms
proof (induction rule: list_all2_induct)
  case (Cons x xs p ps)
  then show ?case using read_slot_cases[of mem x] by (auto simp: slot_stands_def)
qed simp

lemma execute_stands:
  assumes "stands_for mem b st"
  shows "execute_bound mem b st = execute st"
  using assms read_slots_stand[of mem "slots b" "m_bind_in st"]
  by (simp add: stands_for_def execute_bound_def execute_def)

text \<open>
  A new statement, bound by any calls and then executed: with the variables alive and unchanged the
  library gets the values that the calls were given.
\<close>

lemma bound_values_arrive:
  assumes "DBStmt_new conn sql = Returns st"
    and "\<And>mem c. (mem, c) \<in> set calls \<Longrightarrow> kept mem later_mem c"
  shows "execute_bound later_mem (fold (\<lambda>(mem, c). bind_address mem c) calls (fresh_bound (m_param_count st)))
      (fold (\<lambda>(mem, c). bind_value mem c) calls st) =
    execute (fold (\<lambda>(mem, c). bind_value mem c) calls st)"
proof (rule execute_stands)
  have "stands_for later_mem (fresh_bound (m_param_count st)) st"
    using assms(1) by (intro stands_for_fresh) (auto simp: DBStmt_new_def split: sum.splits prod.splits)
  then show "stands_for later_mem (fold (\<lambda>(mem, c). bind_address mem c) calls (fresh_bound (m_param_count st)))
      (fold (\<lambda>(mem, c). bind_value mem c) calls st)"
    using assms(2)
  proof (induction calls arbitrary: st rule: rev_induct)
    case (snoc mc calls)
    obtain mem c where mc: "mc = (mem, c)" by (cases mc)
    then show ?case using snoc stands_for_bind[of later_mem _ _ mem c] by auto
  qed simp
qed

text \<open>A variable that has died in between, such as a temporary, is read all the same.\<close>

lemma read_slots_dead:
  "x \<in> set xs \<Longrightarrow> read_slot mem x = Undefined \<Longrightarrow> read_slots mem xs = Undefined"
proof (induction xs)
  case (Cons y ys)
  then show ?case using read_slot_cases[of mem y] by auto
qed simp

lemma bound_temporary_is_read:
  assumes "colno < length (slots b)" "mem a = Some (Characters s)" "later_mem a = None"
  shows "execute_bound later_mem (bind_address mem (Bind_String colno a) b) st = Undefined"
proof -
  have "String_Slot a (length s) \<in> set (slots (bind_address mem (Bind_String colno a) b))"
    using assms(1,2) by (simp add: set_slot_def set_update_memI)
  then have "read_slots later_mem (slots (bind_address mem (Bind_String colno a) b)) = Undefined"
    by (rule read_slots_dead) (simp add: assms(3))
  then show ?thesis by (simp add: execute_bound_def)
qed

text \<open>
  The list of \<open>BlobParam\<close> is never emptied: a statement that is bound and executed a second time sends
  the first value again, before the second, to the same parameter.
\<close>

lemma blob_sent_again:
  assumes "colno < m_param_count st" "execute (bindBlob colno v st) = Returns st1"
  shows "m_blob_params (bindBlob colno v2 st1) = m_blob_params st @ [(colno, v), (colno, v2)]"
proof -
  have "m_blob_params st1 = m_blob_params st @ [(colno, v)]" "m_param_count st1 = m_param_count st"
    using assms by (auto simp: execute_def bindBlob_def split: if_splits sum.splits prod.splits)
  then show ?thesis using assms(1) by (simp add: bindBlob_def)
qed

end
