(* ===== verification/Pool_Use.thy ===== *)
theory Pool_Use
  imports Cleanup
begin

text \<open>
  How the request handlers (\<^verbatim>\<open>src/server/wp_handler.cpp\<close>,
  \<^verbatim>\<open>src/server/sitemap_handler.cpp\<close>) use the connection pool: a rule for each construct of a
  program says which calls its runs append to the trace, whatever the libraries answer (a closing
  that fails included), and the rules give the protocol of a request towards the pool. It is the
  protocol of the threads of \<open>pool_step\<close>: a thread takes one connection, uses it and returns it.
\<close>

section \<open>Which calls a program makes\<close>

named_theorems calls_intros \<open>rules about the calls a program makes\<close>

definition only :: "(lib_call \<Rightarrow> bool) \<Rightarrow> (world, 'a) prog \<Rightarrow> bool" where
  "only C m \<longleftrightarrow> (\<forall>w. \<exists>cs. trace (snd (m w)) = trace w @ cs \<and> list_all C cs)"

lemma onlyI: "(\<And>w. \<exists>cs. trace (snd (m w)) = trace w @ cs \<and> list_all C cs) \<Longrightarrow> only C m"
  by (simp add: only_def)

lemma onlyD: "only C m \<Longrightarrow> m w = (x, w1) \<Longrightarrow> \<exists>cs. trace w1 = trace w @ cs \<and> list_all C cs"
  by (metis only_def snd_conv)

lemma only_silent: "(\<And>w. trace (snd (m w)) = trace w) \<Longrightarrow> only C m"
  by (simp add: only_def)

lemma only_ret [calls_intros]: "only C (ret a)"
  by (simp add: only_silent ret_apply)

lemma only_raise [calls_intros]: "only C (raise e)"
  by (simp add: only_silent raise_apply)

lemma only_outcome [calls_intros]: "only C (of_outcome r)"
  by (cases r) (simp_all add: only_silent of_outcome_simps)

lemma only_new_ptr [calls_intros]: "only C new_ptr"
  by (simp add: only_silent new_ptr_def)

lemma only_call [calls_intros]: "C c \<Longrightarrow> only C (call c)"
  by (simp add: only_def call_def after_def)

text \<open>Programs one after the other: the calls of the second follow.\<close>

lemma calls_then:
  assumes "\<exists>cs. trace w1 = trace w @ cs \<and> list_all C cs" "\<exists>cs. trace w2 = trace w1 @ cs \<and> list_all C cs"
  shows "\<exists>cs. trace w2 = trace w @ cs \<and> list_all C cs"
  using assms by force

lemma only_bnd [calls_intros]:
  assumes "only C m" "\<And>a. only C (k a)"
  shows "only C (bnd m k)"
proof (rule onlyI)
  fix w
  obtain x w1 where m: "m w = (x, w1)" by fastforce
  note before = onlyD[OF assms(1) m]
  show "\<exists>cs. trace (snd (bnd m k w)) = trace w @ cs \<and> list_all C cs"
  proof (cases x)
    case (Done a)
    have "\<exists>cs. trace (snd (k a w1)) = trace w1 @ cs \<and> list_all C cs"
      using assms(2)[of a] by (simp add: only_def)
    then show ?thesis using before Done m by (auto simp: bnd_def intro: calls_then)
  qed (use before m in \<open>auto simp: bnd_def\<close>)
qed

lemma only_try_db [calls_intros]:
  assumes "only C m" "\<And>what. only C (h what)"
  shows "only C (try_db m h)"
proof (rule onlyI)
  fix w
  obtain x w1 where m: "m w = (x, w1)" by fastforce
  note before = onlyD[OF assms(1) m]
  have "\<exists>cs. trace (snd (h what w1)) = trace w1 @ cs \<and> list_all C cs" for what
    using assms(2)[of what] by (simp add: only_def)
  then show "\<exists>cs. trace (snd (try_db m h w)) = trace w @ cs \<and> list_all C cs"
    using before m by (auto simp: try_db_def split: exit.splits exn.splits intro: calls_then)
qed

lemma only_scope [calls_intros]:
  assumes "only C ctor" "\<And>x. only C (dtor x)" "\<And>x. only C (body x)"
  shows "only C (scope ctor dtor body)"
proof -
  have "only C (\<lambda>w. case body x w of
      (Done a, w1) \<Rightarrow> bnd (dtor x) (\<lambda>_. ret a) w1
    | (Raised e, w1) \<Rightarrow> (case dtor x w1 of (Raised _, w2) \<Rightarrow> (Terminated, w2) | (r, w2) \<Rightarrow> bnd (\<lambda>_. (r, w2)) (\<lambda>_. raise e) w1)
    | r \<Rightarrow> r)" (is "only C ?b") for x
  proof (rule onlyI)
    fix w
    obtain y w1 where b: "body x w = (y, w1)" by fastforce
    obtain z w2 where d: "dtor x w1 = (z, w2)" by fastforce
    have "trace (snd (?b w)) = trace w1 \<or> trace (snd (?b w)) = trace w2"
      using b d by (cases y; cases z) (simp_all add: bnd_def ret_apply raise_apply)
    then show "\<exists>cs. trace (snd (?b w)) = trace w @ cs \<and> list_all C cs"
      by (elim disjE) (simp_all only: onlyD[OF assms(3) b] calls_then[OF onlyD[OF assms(3) b] onlyD[OF assms(2) d]])
  qed
  then show ?thesis unfolding scope_def by (rule only_bnd[OF assms(1)])
qed

lemma only_each [calls_intros]: "(\<And>x. only C (f x)) \<Longrightarrow> only C (each f xs)"
  by (induction xs) (auto intro: calls_intros)

lemma only_fetching [calls_intros]:
  assumes "\<And>st. only C (body st)"
  shows "only C (fetching body st)"
  using assms
proof (induction body st rule: fetching.induct)
  case (1 body st)
  then show ?case
    by (subst fetching.simps) (auto split: outcome.splits intro!: calls_intros)
qed

lemma only_if [calls_intros]: "only C m \<Longrightarrow> only C n \<Longrightarrow> only C (if b then m else n)"
  by simp

lemma only_prod [calls_intros]: "(\<And>a b. only C (f a b)) \<Longrightarrow> only C (case p of (a, b) \<Rightarrow> f a b)"
  by (cases p) simp

lemma only_option [calls_intros]:
  "only C m \<Longrightarrow> (\<And>a. only C (f a)) \<Longrightarrow> only C (case x of None \<Rightarrow> m | Some a \<Rightarrow> f a)"
  by (cases x) simp_all

section \<open>Calls on the pool and on the database\<close>

fun pool_call :: "lib_call \<Rightarrow> bool" where
  "pool_call (Pool_Get _) = True"
| "pool_call (Pool_Put _) = True"
| "pool_call _ = False"

fun stmt_call :: "lib_call \<Rightarrow> bool" where
  "stmt_call (Stmt_Init _ _) = True"
| "stmt_call (Stmt_Prepare _) = True"
| "stmt_call (Stmt_Error _) = True"
| "stmt_call (Result_Metadata _) = True"
| "stmt_call (Free_Result _) = True"
| "stmt_call (Stmt_Close _) = True"
| "stmt_call _ = False"

abbreviation no_pool :: "lib_call \<Rightarrow> bool" where "no_pool c \<equiv> \<not> pool_call c"

abbreviation no_db :: "lib_call \<Rightarrow> bool" where "no_db c \<equiv> \<not> pool_call c \<and> \<not> stmt_call c"

lemma only_weaken: "only no_db m \<Longrightarrow> only no_pool m"
  by (fastforce simp: only_def list_all_iff)

text \<open>Documents, nodes, log messages and responses do without both.\<close>

lemma log_calls [calls_intros]: "only no_db (log_info msg)" "only no_db (log_error msg)" "only no_db (LogSQL sql)"
  unfolding log_info_def log_error_def LogSQL_def by (rule calls_intros; simp)+

lemma node_objects [calls_intros]:
  "only no_db (XMLNode_wrap n)" "only no_db (XMLNode_get x)" "only no_db (XMLNode_release x)"
  "only no_db (XMLText_get x)" "only no_db (XMLText_release x)"
  "only no_db (\<lambda>w. (Done n, w\<lparr>m_node := f w\<rparr>))"
  by (rule only_silent, simp add: XMLNode_wrap_def XMLNode_get_def XMLNode_release_def XMLText_get_def XMLText_release_def)+

lemma node_destroy_calls [calls_intros]: "only no_db (XMLNode_destroy x)" "only no_db (XMLText_destroy x)"
  by (auto simp: only_def XMLNode_destroy_def XMLText_destroy_def call_def after_def)

lemma node_calls [calls_intros]:
  "only no_db (XMLText_make s)" "only no_db (XMLNode_make name)" "only no_db (XMLNode_add x child)"
  "only no_db (XMLNode_add_text x s)" "only no_db (XMLNode_set_attr x name val)"
  "only no_db (XMLNode_set_attr_int x name i)"
  unfolding XMLText_make_def XMLNode_make_def XMLNode_add_def XMLNode_add_text_def XMLNode_set_attr_def
    XMLNode_set_attr_int_def
  by (intro calls_intros; simp)+

lemma doc_calls [calls_intros]:
  "only no_db (XMLDoc_make name version)" "only no_db (XMLDoc_make_ns name ns version)"
  "only no_db (XMLDoc_add doc n)" "only no_db (XMLDoc_add_pi doc name s)" "only no_db (XMLDoc_destroy doc)"
  "only no_db (give child parent)" "only no_db (give_doc child doc)"
  unfolding XMLDoc_make_def XMLDoc_make_ns_def XMLDoc_add_def XMLDoc_add_pi_def XMLDoc_destroy_def give_def give_doc_def
  by (intro calls_intros; simp)+

lemma doc_written [calls_intros]: "only no_db (XMLDoc_write dump_memory doc)"
proof -
  have "only no_db (\<lambda>w. (case dump_memory (trace w) (fst doc) of
      None \<Rightarrow> raise (Runtime_Error ''cannot serialize document'') w
    | Some s \<Rightarrow> bnd (call (Dump_Doc (fst doc) mem)) (\<lambda>_. bnd (call (Write s)) (\<lambda>_. call (Free_Mem mem))) w))" for mem
    by (rule onlyI) (auto simp: raise_apply bnd_def call_def after_def split: option.splits)
  then show ?thesis unfolding XMLDoc_write_def by (intro calls_intros)
qed

lemma page_calls [calls_intros]:
  "only no_db (respond dump_memory ctype doc)" "only no_db (on_db_error method what)"
  "only no_db (stylesheet rq doc)" "only no_db not_found_scopes"
  unfolding respond_def on_db_error_def stylesheet_def not_found_scopes_def by (intro calls_intros; simp)+

lemmas no_pool_intros [calls_intros] = log_calls [THEN only_weaken] node_destroy_calls [THEN only_weaken]
  node_calls [THEN only_weaken] doc_calls [THEN only_weaken] page_calls [THEN only_weaken]

text \<open>Statements do without the pool.\<close>

lemma stmt_calls [calls_intros]:
  "only no_pool (DBStmt_make holder sql)" "only no_pool (DBStmt_destroy close_error stmt)"
  unfolding DBStmt_make_def DBStmt_destroy_def
  by (auto intro!: calls_intros split: outcome.splits option.splits)

lemma row_calls [calls_intros]:
  "only no_pool (column_element name st col parent m)" if "only no_pool m"
  unfolding column_element_def by (intro calls_intros that)

lemma text_child_calls [calls_intros]: "only no_pool m \<Longrightarrow> only no_pool (text_child name s parent m)"
  unfolding text_child_def by (intro calls_intros)

lemma blog_calls [calls_intros]:
  "only no_pool (post_of_row posts st)" "only no_pool (show_posts dump_memory rq st)"
  "only no_pool (show_post dump_memory rq st)"
  unfolding post_of_row_def add_content_def post_content_def show_posts_def show_post_def Let_def
  by (intro calls_intros)+

lemma url_calls [calls_intros]:
  "only no_pool (add_url_scopes doc loc lastmod changefreq priority)" "only no_pool (add_pages_scopes doc url lastmod ps)"
  unfolding add_url_scopes_def add_pages_scopes_def by (intro calls_intros)+

lemma url_row_calls [calls_intros]:
  "only no_pool (page_row_scopes base_url doc st)" "only no_pool (post_row_scopes hostname base_url doc st)"
  "only no_pool (term_row_scopes base_url n taxonomy doc st)" "only no_pool (author_row_scopes base_url doc st)"
  "only no_pool (front_row_scopes hostname base_url n doc st)"
  unfolding page_row_scopes_def post_row_scopes_def term_row_scopes_def author_row_scopes_def front_row_scopes_def Let_def
  by (intro calls_intros)+

lemma url_block_calls [calls_intros]: "(\<And>st. only no_pool (row st)) \<Longrightarrow> only no_pool (url_block close_error conn sql bind row)"
  unfolding url_block_def by (intro calls_intros)

lemma sitemap_calls [calls_intros]: "only no_pool (sitemap_scopes close_error dump_memory hostname conn)"
  unfolding sitemap_scopes_def get_base_url_scopes_def get_num_posts_per_page_scopes_def
  by (intro calls_intros)

section \<open>One connection for a request\<close>

text \<open>The calls of a request: no connection and no statement, or one connection, the statements
  between its two calls, and nothing after the first of them when the process does not go on.\<close>

inductive one_connection :: "'a exit \<Rightarrow> lib_call list \<Rightarrow> bool" for x :: "'a exit" where
  none: "list_all no_db cs \<Longrightarrow> one_connection x cs"
| returned: "list_all no_db before \<Longrightarrow> list_all no_pool during \<Longrightarrow> list_all no_db rest \<Longrightarrow>
     one_connection x (before @ Pool_Get c # during @ Pool_Put c # rest)"
| held: "list_all no_db before \<Longrightarrow> list_all no_pool during \<Longrightarrow> x \<in> {Stuck, Endless, Terminated} \<Longrightarrow>
     one_connection x (before @ Pool_Get c # during)"

definition takes_one :: "(world, 'a) prog \<Rightarrow> bool" where
  "takes_one m \<longleftrightarrow> (\<forall>w. \<exists>cs. trace (snd (m w)) = trace w @ cs \<and> one_connection (fst (m w)) cs)"

lemma takes_oneI: "(\<And>w. \<exists>cs. trace (snd (m w)) = trace w @ cs \<and> one_connection (fst (m w)) cs) \<Longrightarrow> takes_one m"
  by (simp add: takes_one_def)

lemma takes_oneD: "takes_one m \<Longrightarrow> m w = (x, w1) \<Longrightarrow> \<exists>cs. trace w1 = trace w @ cs \<and> one_connection x cs"
  by (metis takes_one_def fst_conv snd_conv)

lemma takes_none: "only no_db m \<Longrightarrow> takes_one m"
  by (auto simp: only_def takes_one_def intro: none)

lemma one_connection_before:
  assumes "list_all no_db cs" "one_connection x ds"
  shows "one_connection x (cs @ ds)"
  using assms(2)
proof cases
  case none
  then show ?thesis using assms(1) by (simp add: one_connection.none)
next
  case (returned before during rest c)
  then show ?thesis using one_connection.returned[of "cs @ before" during rest x c] assms(1) by simp
next
  case (held before during c)
  then show ?thesis using one_connection.held[of "cs @ before" during x c] assms(1) by simp
qed

lemma one_connection_later:
  assumes "one_connection x cs" "x \<notin> {Stuck, Endless, Terminated}" "list_all no_db ds"
  shows "one_connection y (cs @ ds)"
  using assms(1)
proof cases
  case none
  then show ?thesis using assms(3) by (simp add: one_connection.none)
next
  case (returned before during rest c)
  then show ?thesis using one_connection.returned[of before during "rest @ ds" y c] assms(3) by simp
qed (use assms(2) in simp)

lemma one_connection_exit:
  "one_connection x cs \<Longrightarrow> x \<in> {Stuck, Endless, Terminated} \<Longrightarrow> y \<in> {Stuck, Endless, Terminated} \<Longrightarrow> one_connection y cs"
  by (cases rule: one_connection.cases) (auto intro: one_connection.intros)

text \<open>Rules for \<open>takes_one\<close>: steps before and after, a guard, and the scope of a holder.\<close>

lemma takes_after:
  assumes "only no_db m" "\<And>a. takes_one (k a)"
  shows "takes_one (bnd m k)"
proof (rule takes_oneI)
  fix w
  obtain x w1 where m: "m w = (x, w1)" by fastforce
  obtain cs where cs: "trace w1 = trace w @ cs" "list_all no_db cs" using onlyD[OF assms(1) m] by blast
  show "\<exists>cs. trace (snd (bnd m k w)) = trace w @ cs \<and> one_connection (fst (bnd m k w)) cs"
  proof (cases x)
    case (Done a)
    obtain ds where "trace (snd (k a w1)) = trace w1 @ ds" "one_connection (fst (k a w1)) ds"
      using assms(2)[of a] by (auto simp: takes_one_def)
    then show ?thesis using cs Done m by (intro exI[of _ "cs @ ds"]) (simp add: bnd_Done one_connection_before)
  qed (use cs m in \<open>auto simp: bnd_def intro: one_connection.none\<close>)
qed

lemma takes_before:
  assumes "takes_one m" "\<And>a. only no_db (k a)"
  shows "takes_one (bnd m k)"
proof (rule takes_oneI)
  fix w
  obtain x w1 where m: "m w = (x, w1)" by fastforce
  obtain cs where cs: "trace w1 = trace w @ cs" "one_connection x cs" using takes_oneD[OF assms(1) m] by blast
  show "\<exists>cs. trace (snd (bnd m k w)) = trace w @ cs \<and> one_connection (fst (bnd m k w)) cs"
  proof (cases x)
    case (Done a)
    obtain ds where "trace (snd (k a w1)) = trace w1 @ ds" "list_all no_db ds"
      using assms(2)[of a] by (auto simp: only_def)
    then show ?thesis using cs Done m one_connection_later[OF cs(2)]
      by (intro exI[of _ "cs @ ds"]) (simp add: bnd_Done)
  next
    case (Raised e)
    then show ?thesis using cs m one_connection_later[OF cs(2), of "[]"] by (auto simp: bnd_def)
  qed (use cs m in \<open>auto simp: bnd_def intro: one_connection_exit\<close>)
qed

lemma takes_guarded:
  assumes "takes_one m" "\<And>what. only no_db (h what)"
  shows "takes_one (try_db m h)"
proof (rule takes_oneI)
  fix w
  obtain x w1 where m: "m w = (x, w1)" by fastforce
  obtain cs where cs: "trace w1 = trace w @ cs" "one_connection x cs" using takes_oneD[OF assms(1) m] by blast
  have "\<exists>ds. trace (snd (h what w1)) = trace w1 @ ds \<and> list_all no_db ds" for what
    using assms(2)[of what] by (simp add: only_def)
  then show "\<exists>cs. trace (snd (try_db m h w)) = trace w @ cs \<and> one_connection (fst (try_db m h w)) cs"
    using cs m by (cases x) (force simp: try_db_def split: exn.splits intro: one_connection_later)+
qed

lemma takes_holder:
  assumes "\<And>h. only no_pool (body h)"
  shows "takes_one (scope (DBConnHolder_make pool_get) DBConnHolder_destroy body)"
proof (rule takes_oneI)
  fix w
  let ?m = "scope (DBConnHolder_make pool_get) DBConnHolder_destroy body"
  show "\<exists>cs. trace (snd (?m w)) = trace w @ cs \<and> one_connection (fst (?m w)) cs"
  proof (cases pool_get)
    case (Returns conn)
    define n where "n = next_ptr w"
    obtain w1 where c: "DBConnHolder_make pool_get w = (Done (n, conn), w1)" "trace w1 = trace w @ [Pool_Get n]"
      by (simp add: Returns DBConnHolder_make_def bnd_def new_ptr_apply call_apply ret_apply after_def n_def)
    obtain x w2 where b: "body (n, conn) w1 = (x, w2)" by fastforce
    obtain cs where cs: "trace w2 = trace w1 @ cs" "list_all no_pool cs" using onlyD[OF assms b] by blast
    show ?thesis
      using c b cs one_connection.returned[of "[]" cs "[]" "fst (?m w)" n]
        one_connection.held[of "[]" cs "fst (?m w)" n]
      by (cases x) (simp_all add: scope_def bnd_def DBConnHolder_destroy_def call_apply ret_apply raise_apply)
  qed (auto simp: scope_def bnd_def DBConnHolder_make_def of_outcome_simps intro: one_connection.none)
qed

lemma takes_if: "takes_one m \<Longrightarrow> takes_one n \<Longrightarrow> takes_one (if b then m else n)"
  by simp

lemma takes_option: "takes_one m \<Longrightarrow> (\<And>a. takes_one (f a)) \<Longrightarrow> takes_one (case x of None \<Rightarrow> m | Some a \<Rightarrow> f a)"
  by (cases x) simp_all

lemma wp_takes_one: "takes_one (wp_handle_scopes close_error dump_memory pool_get rq)"
proof -
  have routes: "takes_one (blogroll_scopes close_error dump_memory pool_get rq)"
    "takes_one (category_scopes close_error pool_get name)" "takes_one (author_scopes close_error pool_get name)"
    "takes_one (post_scopes close_error dump_memory pool_get rq name)" for name
    unfolding blogroll_scopes_def category_scopes_def author_scopes_def post_scopes_def
    by (rule takes_after[OF log_calls(1)] takes_guarded takes_holder | intro calls_intros)+
  show ?thesis
    unfolding wp_handle_scopes_def Let_def
    by (intro takes_if takes_after[OF only_outcome] takes_before routes) (intro calls_intros)
qed

lemma sitemap_takes_one: "takes_one (sitemap_handle_scopes close_error dump_memory get_conn sites rq)"
  unfolding sitemap_handle_scopes_def Let_def
  by (rule takes_after takes_option takes_guarded takes_holder | intro calls_intros takes_none | simp)+

section \<open>The protocol of a request\<close>

lemma one_connection_spelled:
  assumes "one_connection x cs"
  shows "list_all no_db cs \<or>
    (\<exists>before c during. list_all no_db before \<and> list_all no_pool during \<and>
       ((\<exists>rest. cs = before @ Pool_Get c # during @ Pool_Put c # rest \<and> list_all no_db rest) \<or>
        cs = before @ Pool_Get c # during \<and> x \<in> {Stuck, Endless, Terminated}))"
  using assms by cases blast+

text \<open>C23. Whatever the databases and the libraries answer, a request to the blog or to the site map takes at most one connection from the pool: every statement is made and closed while the request holds it, no second connection is asked for in between, and the connection goes back to the pool whenever the handler returns or throws, also when a statement cannot be closed. Only an undefined access, an endless loop or the end of the process keeps it.\<close>

theorem one_connection_per_request:
  assumes "m \<in> {wp_handle_scopes close_error dump_memory (get_conn db_pool) rq, sitemap_handle_scopes close_error dump_memory get_conn sites rq}"
    and "m w0 = (x, w)"
  shows "\<exists>cs. trace w = trace w0 @ cs \<and>
    (list_all (\<lambda>c. \<not> pool_call c \<and> \<not> stmt_call c) cs \<or>
     (\<exists>before c during. list_all (\<lambda>c. \<not> pool_call c \<and> \<not> stmt_call c) before \<and> list_all (\<lambda>c. \<not> pool_call c) during \<and>
        ((\<exists>rest. cs = before @ Pool_Get c # during @ Pool_Put c # rest \<and> list_all (\<lambda>c. \<not> pool_call c \<and> \<not> stmt_call c) rest) \<or>
         cs = before @ Pool_Get c # during \<and> x \<in> {Stuck, Endless, Terminated})))"
proof -
  have "takes_one m" using assms(1) wp_takes_one sitemap_takes_one by auto
  then obtain cs where "trace w = trace w0 @ cs" "one_connection x cs" using takes_oneD[of m w0 x w] assms(2) by blast
  then show ?thesis using one_connection_spelled by (intro exI[of _ cs] conjI)
qed

theorem one_connection_per_request_witness:
  "\<exists>w before c during rest.
    wp_handle_scopes (\<lambda>_. None) (\<lambda>_ _. None) (Returns \<lparr>sql_prepare = (\<lambda>_. Inl ''gone''), sql_execute = (\<lambda>_ _ _. Inr [])\<rparr>)
      (request_for ''/'') new_world = (Done (), w) \<and>
    trace w = before @ Pool_Get c # during @ Pool_Put c # rest \<and> list_all (\<lambda>c. \<not> pool_call c) during"
proof -
  let ?conn = "\<lparr>sql_prepare = (\<lambda>_. Inl ''gone''), sql_execute = (\<lambda>_ _ _. Inr [])\<rparr>"
  let ?m = "wp_handle_scopes (\<lambda>_. None) (\<lambda>_ _. None) (Returns ?conn) (request_for ''/'')"
  obtain w where w: "?m new_world = (Done (), w)" "handle_stays ''gone'' w"
    using handler_not_prepared[of ?conn "''gone''" "\<lambda>_. None" "\<lambda>_ _. None" "request_for ''/''"] by auto
  then obtain c where "Pool_Put c \<in> set (trace w)" by (auto simp: handle_stays_def)
  then have "\<not> list_all (\<lambda>c. \<not> pool_call c \<and> \<not> stmt_call c) (trace w)" by (force simp: list_all_iff)
  then show ?thesis
    using one_connection_per_request[of ?m "\<lambda>_. None" "\<lambda>_ _. None" "\<lambda>_. Returns ?conn" 0 "request_for ''/''" "[]", OF _ w(1)] w(1)
    by auto
qed

end
