(* ===== verification/Parser_Life.thy ===== *)
theory Parser_Life
  imports Scopes Request
begin

text \<open>
  The memory of a \<open>formdata_parser\<close> (\<^verbatim>\<open>src/server/fcgi_handler.cpp\<close>): its constructor
  allocates the header accumulator and the output buffer before it looks at the content type, its
  destructor frees them, and \<open>parse_form_data\<close> allocates the buffer of the reading loop.
  The heap is a map from addresses to the sizes of arrays; memory does not run out (\<open>new\<close>
  never gives NULL, so the constructor's tests for it have no branch). The values are those of the
  functions of the theories Formdata and Request.
\<close>

section \<open>Arrays on the heap\<close>

record heap =
  blocks :: "nat \<Rightarrow> nat option"
  next_block :: nat

definition new_array :: "nat \<Rightarrow> (heap, nat) prog" where
  "new_array n h = (Done (next_block h), h\<lparr>blocks := (blocks h)(next_block h := Some n), next_block := next_block h + 1\<rparr>)"

definition delete_array :: "nat \<Rightarrow> (heap, unit) prog" where
  "delete_array a h = (if blocks h a = None then (Stuck, h) else (Done (), h\<lparr>blocks := (blocks h)(a := None)\<rparr>))"

section \<open>The parser object\<close>

text \<open>An object: the addresses of \<open>header_accumulator\<close> and \<open>output_buffer\<close>, and its other fields.\<close>

type_synonym parser_object = "nat \<times> nat \<times> formdata_parser"

definition formdata_parser_make :: "string \<Rightarrow> nat \<Rightarrow> nat \<Rightarrow> params \<Rightarrow> (heap, parser_object) prog" where
  "formdata_parser_make ct header_len buf_size params =
     bnd (new_array (header_len + 1)) (\<lambda>header.
     bnd (new_array buf_size) (\<lambda>output.
     bnd (of_outcome (of_result (formdata_parser_new ct header_len buf_size params))) (\<lambda>p.
       ret (header, output, p))))"

definition formdata_parser_destroy :: "parser_object \<Rightarrow> (heap, unit) prog" where
  "formdata_parser_destroy x = bnd (delete_array (fst x)) (\<lambda>_. delete_array (fst (snd x)))"

definition read_form :: "nat \<Rightarrow> fcgi_request \<Rightarrow> parser_object \<Rightarrow> (heap, fcgi_request) prog" where
  "read_form clen r x =
     bnd (new_array clen) (\<lambda>buf.
       (case read_loop (fcgi_in r) clen (snd (snd x)) of
          None \<Rightarrow> of_outcome Diverges
        | Some (s, p) \<Rightarrow> bnd (delete_array buf) (\<lambda>_.
            ret (r\<lparr>fcgi_in := s, m_formdata_params := formdata_params p\<rparr>))))"

definition parse_form_data_scopes :: "fcgi_request \<Rightarrow> (heap, fcgi_request) prog" where
  "parse_form_data_scopes r =
     (let ct = get_fcgi_param r ''CONTENT_TYPE'';
          cl = get_fcgi_param r ''CONTENT_LENGTH''
      in if ct = [] then
           raise (Logic_Error ''HTTP server is not configured to pass CONTENT_TYPE variable'')
         else if cl \<noteq> [] then
           (let clen = nat (strtol10 cl mod 18446744073709551616) in
            if clen = 0 then
              raise (Runtime_Error (''can'' @ [CHR 0x27] @ ''t parse '' @ [QUOTE] @ ''CONTENT_LENGTH'' @ [LF]))
            else
              bnd (scope (formdata_parser_make ct 512 (128 * 1024) (m_formdata_params r)) formdata_parser_destroy
                    (read_form (if STDIN_MAX < clen then STDIN_MAX else clen) r)) (\<lambda>r1.
                ret (r1\<lparr>fcgi_in := in_ignore_all (fcgi_in r1)\<rparr>)))
         else raise (Logic_Error ''HTTP server is not configured to pass CONTENT_LENGTH variable''))"

section \<open>The contract of the class\<close>

definition heap_view :: "(nat \<Rightarrow> nat option) \<Rightarrow> heap \<Rightarrow> bool" where
  "heap_view L h \<longleftrightarrow> blocks h = L \<and> (\<forall>a. L a \<noteq> None \<longrightarrow> a < next_block h)"

definition owns :: "parser_object \<Rightarrow> (nat \<Rightarrow> nat option) \<Rightarrow> bool" where
  "owns x L \<longleftrightarrow> fst x \<noteq> fst (snd x) \<and> L (fst x) \<noteq> None \<and> L (fst (snd x)) \<noteq> None"

definition freed :: "parser_object \<Rightarrow> (nat \<Rightarrow> nat option) \<Rightarrow> nat \<Rightarrow> nat option" where
  "freed x L = L(fst x := None, fst (snd x) := None)"

lemma heap_view_new:
  "heap_view L h \<Longrightarrow> \<exists>a h1. new_array n h = (Done a, h1) \<and> L a = None \<and> heap_view (L(a := Some n)) h1"
  by (fastforce simp: new_array_def heap_view_def intro: less_SucI)

lemma heap_view_delete:
  "heap_view L h \<Longrightarrow> L a \<noteq> None \<Longrightarrow> \<exists>h1. delete_array a h = (Done (), h1) \<and> heap_view (L(a := None)) h1"
  by (auto simp: delete_array_def heap_view_def)

lemma corr_new_array:
  "corr heap_view L (new_array n) (Returns ()) (\<lambda>a _ L1. L a = None \<and> L1 = L(a := Some n)) E"
  using heap_view_new by (intro corr_ReturnsI) blast

lemma corr_delete_array:
  "L a \<noteq> None \<Longrightarrow> corr heap_view L (delete_array a) (Returns ()) (\<lambda>_ _ L1. L1 = L(a := None)) E"
  using heap_view_delete by (intro corr_ReturnsI) blast

interpretation parser_object: destructible heap_view formdata_parser_destroy owns freed
proof
  fix L h x
  assume "heap_view L h" "owns x L"
  then obtain h1 where h1: "delete_array (fst x) h = (Done (), h1)" "heap_view (L(fst x := None)) h1"
    using heap_view_delete by (force simp: owns_def)
  moreover have "(L(fst x := None)) (fst (snd x)) \<noteq> None" using \<open>owns x L\<close> by (simp add: owns_def)
  ultimately obtain h2 where "delete_array (fst (snd x)) h1 = (Done (), h2)" "heap_view (freed x L) h2"
    using heap_view_delete by (fastforce simp: freed_def)
  with h1 show "\<exists>w'. formdata_parser_destroy x h = (Done (), w') \<and> heap_view (freed x L) w'"
    by (simp add: formdata_parser_destroy_def bnd_Done)
qed

text \<open>What a refused content type leaves: the two arrays of the parser that was not made.\<close>

definition two_arrays :: "(nat \<Rightarrow> nat option) \<Rightarrow> (nat \<Rightarrow> nat option) \<Rightarrow> bool" where
  "two_arrays L L1 \<longleftrightarrow> (\<exists>a b. a \<noteq> b \<and> L a = None \<and> L b = None \<and> L1 = L(a := Some 513, b := Some 131072))"

lemma corr_parser_make:
  "corr heap_view L (formdata_parser_make ct 512 131072 params) (of_result (formdata_parser_new ct 512 131072 params))
     (\<lambda>x p L1. snd (snd x) = p \<and> owns x L1 \<and> freed x L1 = L) (\<lambda>e. two_arrays L)"
proof -
  let ?r = "of_result (formdata_parser_new ct 512 131072 params)"
  have tail: "corr heap_view (L(a := Some 513, b := Some 131072)) (bnd (of_outcome ?r) (\<lambda>p. ret (a, b, p))) ?r
      (\<lambda>x p L1. snd (snd x) = p \<and> owns x L1 \<and> freed x L1 = L) (\<lambda>e. two_arrays L)"
    if "L a = None" "(L(a := Some 513)) b = None" for a b
  proof -
    have ab: "a \<noteq> b" "L b = None" using that by (auto split: if_splits)
    have "corr heap_view (L(a := Some 513, b := Some 131072)) (bnd (of_outcome ?r) (\<lambda>p. ret (a, b, p))) (bind_outcome ?r Returns)
        (\<lambda>x p L1. snd (snd x) = p \<and> owns x L1 \<and> freed x L1 = L) (\<lambda>e. two_arrays L)"
      using that(1) ab
      by (intro corr_read corr_ret) (auto simp: two_arrays_def owns_def freed_def)
    moreover have "bind_outcome ?r Returns = ?r" by (cases ?r) simp_all
    ultimately show ?thesis by simp
  qed
  show ?thesis
    unfolding formdata_parser_make_def
    by (rule corr_step[OF corr_new_array], simp, rule corr_step[OF corr_new_array]) (elim conjE; simp only: tail)
qed

lemma corr_read_form:
  assumes "snd (snd x) = p"
  shows "corr heap_view L (read_form clen r x)
     (case read_loop (fcgi_in r) clen p of
        None \<Rightarrow> Diverges
      | Some (s, p1) \<Rightarrow> Returns (r\<lparr>fcgi_in := s, m_formdata_params := formdata_params p1\<rparr>))
     (\<lambda>a b L1. a = b \<and> L1 = L) (\<lambda>e L1. False)"
proof -
  have "corr heap_view (L(a := Some clen)) (bnd (delete_array a) (\<lambda>_. ret r1)) (Returns r1) (\<lambda>a b L1. a = b \<and> L1 = L) (\<lambda>e L1. False)"
    if "L a = None" for a r1
    using that by (intro corr_then[OF corr_delete_array] corr_ret) auto
  then show ?thesis
    unfolding read_form_def assms
    by (rule_tac corr_step[OF corr_new_array]) (auto split: option.splits prod.splits)
qed

section \<open>Forms\<close>

text \<open>What \<open>parse_form_data\<close> returns or throws.\<close>

definition form_outcome :: "fcgi_request \<Rightarrow> fcgi_request outcome" where
  "form_outcome r =
     (case parse_form_data r of
        None \<Rightarrow> Diverges
      | Some (None, r1) \<Rightarrow> Returns r1
      | Some (Some e, r1) \<Rightarrow> Throws e)"

text \<open>A form whose length is given and whose content type the parser refuses.\<close>

definition refused :: "fcgi_request \<Rightarrow> bool" where
  "refused r \<longleftrightarrow> get_fcgi_param r ''CONTENT_TYPE'' \<noteq> [] \<and> get_fcgi_param r ''CONTENT_LENGTH'' \<noteq> [] \<and>
     nat (strtol10 (get_fcgi_param r ''CONTENT_LENGTH'') mod 18446744073709551616) \<noteq> 0 \<and>
     (case formdata_parser_new (get_fcgi_param r ''CONTENT_TYPE'') 512 131072 (m_formdata_params r) of Inl _ \<Rightarrow> True | Inr _ \<Rightarrow> False)"

text \<open>Weakening that knows the outcome.\<close>

lemma corr_known:
  assumes "corr view l m r Q E" "\<And>a b l1. r = Returns b \<Longrightarrow> Q a b l1 \<Longrightarrow> Q' a b l1" "\<And>e l1. r = Throws e \<Longrightarrow> E e l1 \<Longrightarrow> E' e l1"
  shows "corr view l m r Q' E'"
proof (rule corrI)
  fix w assume "view l w"
  from corrD[OF assms(1) this] show "ends_as view Q' E' r (m w)" using assms(2,3) by (cases r) fastforce+
qed

lemma corr_parse_form_data:
  "corr heap_view L (parse_form_data_scopes r) (form_outcome r) (\<lambda>a b L1. a = b \<and> L1 = L \<and> \<not> refused r)
     (\<lambda>e L1. if refused r then two_arrays L L1 else L1 = L)"
proof -
  let ?ct = "get_fcgi_param r ''CONTENT_TYPE''" and ?cl = "get_fcgi_param r ''CONTENT_LENGTH''"
  define clen where "clen = nat (strtol10 ?cl mod 18446744073709551616)"
  show ?thesis
  proof (cases "?ct = [] \<or> ?cl = [] \<or> clen = 0")
    case True
    then show ?thesis
      by (auto simp: parse_form_data_scopes_def form_outcome_def parse_form_data_def refused_def clen_def Let_def intro!: corr_raise)
  next
    case False
    let ?n = "if STDIN_MAX < clen then STDIN_MAX else clen"
    let ?new = "formdata_parser_new ?ct 512 131072 (m_formdata_params r)"
    let ?read = "\<lambda>p. (case read_loop (fcgi_in r) ?n p of
        None \<Rightarrow> Diverges
      | Some (s, p1) \<Rightarrow> Returns (r\<lparr>fcgi_in := s, m_formdata_params := formdata_params p1\<rparr>))"
    have "corr heap_view L (scope (formdata_parser_make ?ct 512 131072 (m_formdata_params r)) formdata_parser_destroy (read_form ?n r))
        (bind_outcome (of_result ?new) ?read) (\<lambda>a b L1. a = b \<and> L1 = L) (\<lambda>e. two_arrays L)"
      by (rule parser_object.scope_bind_corr[OF corr_parser_make], rule corr_conseq[OF corr_read_form]) auto
    then have "corr heap_view L (scope (formdata_parser_make ?ct 512 131072 (m_formdata_params r)) formdata_parser_destroy (read_form ?n r))
        (bind_outcome (of_result ?new) ?read) (\<lambda>a b L1. a = b \<and> L1 = L \<and> \<not> refused r) (\<lambda>e L1. if refused r then two_arrays L L1 else L1 = L)"
      by (rule corr_known)
        (use False in \<open>auto simp: refused_def clen_def of_result_def split: sum.splits option.splits\<close>)
    then have "corr heap_view L (bnd (scope (formdata_parser_make ?ct 512 131072 (m_formdata_params r)) formdata_parser_destroy (read_form ?n r))
          (\<lambda>r1. ret (r1\<lparr>fcgi_in := in_ignore_all (fcgi_in r1)\<rparr>)))
        (bind_outcome (bind_outcome (of_result ?new) ?read) (\<lambda>r1. Returns (r1\<lparr>fcgi_in := in_ignore_all (fcgi_in r1)\<rparr>)))
        (\<lambda>a b L1. a = b \<and> L1 = L \<and> \<not> refused r) (\<lambda>e L1. if refused r then two_arrays L L1 else L1 = L)"
      by (rule corr_bind) (auto intro: corr_ret)
    moreover have "form_outcome r = bind_outcome (bind_outcome (of_result ?new) ?read) (\<lambda>r1. Returns (r1\<lparr>fcgi_in := in_ignore_all (fcgi_in r1)\<rparr>))"
      using False
      by (auto simp: form_outcome_def parse_form_data_def clen_def Let_def of_result_def split: sum.splits option.splits)
    moreover have "parse_form_data_scopes r =
        bnd (scope (formdata_parser_make ?ct 512 131072 (m_formdata_params r)) formdata_parser_destroy (read_form ?n r))
          (\<lambda>r1. ret (r1\<lparr>fcgi_in := in_ignore_all (fcgi_in r1)\<rparr>))"
      using False by (simp add: parse_form_data_scopes_def clen_def)
    ultimately show ?thesis by (simp only:)
  qed
qed

section \<open>The bytes in use\<close>

definition heap_ok :: "heap \<Rightarrow> bool" where
  "heap_ok h \<longleftrightarrow> (\<forall>a. blocks h a \<noteq> None \<longrightarrow> a < next_block h)"

definition in_use :: "heap \<Rightarrow> nat" where
  "in_use h = (\<Sum>a \<in> dom (blocks h). the (blocks h a))"

lemma heap_view_self: "heap_ok h \<Longrightarrow> heap_view (blocks h) h"
  by (simp add: heap_view_def heap_ok_def)

lemma heap_view_ok: "heap_view L h \<Longrightarrow> heap_ok h \<and> blocks h = L"
  by (auto simp: heap_view_def heap_ok_def)

lemma heap_finite: "heap_ok h \<Longrightarrow> finite (dom (blocks h))"
  by (rule finite_subset[of _ "{..<next_block h}"]) (auto simp: heap_ok_def)

lemma two_arrays_in_use:
  assumes "heap_ok h" "two_arrays (blocks h) (blocks h1)"
  shows "in_use h1 = in_use h + 131585 \<and> blocks h \<subseteq>\<^sub>m blocks h1"
proof -
  obtain a b where ab: "a \<noteq> b" "blocks h a = None" "blocks h b = None" "blocks h1 = (blocks h)(a := Some 513, b := Some 131072)"
    using assms(2) by (auto simp: two_arrays_def)
  have "a \<notin> dom (blocks h)" "b \<notin> dom (blocks h)" using ab by auto
  moreover have "(\<Sum>x \<in> dom (blocks h). the (blocks h1 x)) = in_use h"
    unfolding in_use_def using ab by (intro sum.cong) auto
  moreover have "dom (blocks h1) = insert a (insert b (dom (blocks h)))" using ab by auto
  ultimately show ?thesis
    using ab heap_finite[OF assms(1)] by (auto simp: in_use_def map_le_def)
qed

definition exit_of :: "'a outcome \<Rightarrow> 'a exit" where
  "exit_of r = (case r of Returns a \<Rightarrow> Done a | Throws e \<Rightarrow> Raised e | Undefined \<Rightarrow> Stuck | Diverges \<Rightarrow> Endless)"

text \<open>Reading a form always ends.\<close>

lemma read_loop_ends: "clen \<noteq> 0 \<Longrightarrow> \<exists>s1 p1. read_loop s clen p = Some (s1, p1)"
  using read_loop_whole[of clen s p] by (cases "in_eof s \<or> in_fail s") (auto simp: read_loop.simps[of s clen p])

lemma form_outcome_ends: "(\<exists>r1. form_outcome r = Returns r1) \<or> (\<exists>e. form_outcome r = Throws e)"
proof -
  define clen where "clen = nat (strtol10 (get_fcgi_param r ''CONTENT_LENGTH'') mod 18446744073709551616)"
  have ends: "read_loop (fcgi_in r) STDIN_MAX p \<noteq> None" "0 < clen \<Longrightarrow> read_loop (fcgi_in r) clen p \<noteq> None" for p
    using read_loop_ends[of STDIN_MAX "fcgi_in r" p] read_loop_ends[of clen "fcgi_in r" p]
    by (auto simp: STDIN_MAX_def)
  have "parse_form_data r \<noteq> None"
    unfolding parse_form_data_def Let_def clen_def[symmetric] using ends
    by (auto split: sum.split option.split simp del: not_None_eq)
  then show ?thesis by (auto simp: form_outcome_def split: option.splits)
qed

text \<open>C5. Reading a form gives what \<open>parse_form_data\<close> is specified to give, and frees its memory, unless the content type is refused: then the constructor of the parser throws with its two buffers allocated, nobody frees them, and every such request takes 131585 bytes from the process.\<close>

theorem refused_content_type_leaks:
  assumes "heap_ok h"
  shows "\<exists>h1. parse_form_data_scopes r h = (exit_of (form_outcome r), h1) \<and> heap_ok h1 \<and>
    (if refused r then in_use h1 = in_use h + 131585 \<and> blocks h \<subseteq>\<^sub>m blocks h1 else blocks h1 = blocks h)"
proof -
  note run = corrD[OF corr_parse_form_data[of "blocks h" r], OF heap_view_self[OF assms]]
  consider r1 where "form_outcome r = Returns r1" | e where "form_outcome r = Throws e"
    using form_outcome_ends[of r] by blast
  then show ?thesis
  proof cases
    case (1 r1)
    then obtain h1 where "parse_form_data_scopes r h = (Done r1, h1)" "heap_view (blocks h) h1" "\<not> refused r"
      using run by auto
    then show ?thesis using 1 heap_view_ok[of "blocks h" h1] by (simp add: exit_of_def)
  next
    case (2 e)
    then obtain h1 L1 where "parse_form_data_scopes r h = (Raised e, h1)" "heap_view L1 h1"
      "if refused r then two_arrays (blocks h) L1 else L1 = blocks h"
      using run by auto
    then show ?thesis
      using 2 heap_view_ok[of L1 h1] two_arrays_in_use[OF assms, of h1] by (auto simp: exit_of_def)
  qed
qed

text \<open>A request with a form whose content type names no boundary.\<close>

definition unbounded_form :: fcgi_request where
  "unbounded_form = \<lparr>fcgi_in = in_open ''x'', m_params = [], m_formdata_params = [],
     envp = (\<lambda>name. if name = ''CONTENT_TYPE'' then Some ''text/plain'' else if name = ''CONTENT_LENGTH'' then Some ''1'' else None)\<rparr>"

definition empty_heap :: heap where
  "empty_heap = \<lparr>blocks = Map.empty, next_block = 0\<rparr>"

lemma unbounded_form_refused: "refused unbounded_form"
proof -
  have "strtol10 ''1'' = 1" by code_simp
  moreover have "index_of (CHR '';'') (c_str ''text/plain'') = None" by code_simp
  ultimately show ?thesis
    by (simp add: refused_def unbounded_form_def get_fcgi_param_def formdata_parser_new_def upload_parse_content_type_def)
qed

theorem refused_content_type_leaks_witness:
  "in_use (snd (parse_form_data_scopes unbounded_form empty_heap)) = 131585"
proof -
  have "heap_ok empty_heap" "in_use empty_heap = 0" by (simp_all add: heap_ok_def empty_heap_def in_use_def)
  then show ?thesis
    using refused_content_type_leaks[of empty_heap unbounded_form] unbounded_form_refused by auto
qed

end
