(* ===== verification/Stop_Signals.thy ===== *)
theory Stop_Signals
  imports Supervisor
begin

text \<open>
  The stop signal between the main process and its workers (\<^verbatim>\<open>src/server/main.cpp\<close>,
  \<^verbatim>\<open>src/server/worker.cpp\<close>). The main process is blocked in \<open>waitpid\<close> or
  somewhere before it in its loop; a worker process has the signal handler it was forked with, or its
  own, or has ended and not been waited for. A signal that comes while the main process is blocked
  interrupts \<open>waitpid\<close> (\<open>sa_flags\<close> is 0), and the rest of the turn is
  \<open>run_turn\<close> of \<^theory_text>\<open>Supervisor\<close>.
\<close>

section \<open>Processes and signal handlers\<close>

datatype proc = Young | Ready | Zombie

text \<open>\<open>sigquit_handler\<close> of the main process, by \<open>MainProcess::exit\<close>.\<close>

definition main_sigquit :: "main_process \<Rightarrow> main_process" where
  "main_sigquit mp = mp\<lparr>m_exiting := True\<rparr>"

text \<open>A young worker runs the handler of the main process on its copy of the flag, which it never
  reads; later \<open>sigquit_handler\<close> of the worker exits.\<close>

fun worker_sigquit :: "proc \<Rightarrow> proc" where
  "worker_sigquit Young = Young"
| "worker_sigquit Ready = Zombie"
| "worker_sigquit Zombie = Zombie"

record family =
  main :: main_process
  blocked :: bool
  procs :: "int \<Rightarrow> proc option"

text \<open>The turn after \<open>waitpid\<close> has returned: the waited child is gone, the workers that are told to
  quit run their handlers, and forked workers are young.\<close>

definition told :: "turn \<Rightarrow> main_process \<Rightarrow> int set" where
  "told ev mp = set (drop (length (kills mp)) (kills (run_turn ev mp)))"

definition waited :: "turn \<Rightarrow> (int \<Rightarrow> proc option) \<Rightarrow> int \<Rightarrow> proc option" where
  "waited ev P = (case wait_pid ev of None \<Rightarrow> P | Some pid \<Rightarrow> P(pid := None))"

definition take_turn :: "turn \<Rightarrow> family \<Rightarrow> family" where
  "take_turn ev f =
     (let mp = run_turn ev (main f)
      in f\<lparr>main := mp, blocked := False,
           procs := (\<lambda>p. if waited ev (procs f) p = None \<and> p \<in> pids (m_workers mp) then Some Young
                         else if p \<in> told ev (main f) then map_option worker_sigquit (waited ev (procs f) p)
                         else waited ev (procs f) p)\<rparr>)"

datatype event = Blocks | Stop_Asked | Waited int | No_Child | Sets_Handler int | Ends int

inductive family_event :: "event \<Rightarrow> family \<Rightarrow> family \<Rightarrow> bool" where
  blocks: "\<not> exited (main f) \<Longrightarrow> \<not> blocked f \<Longrightarrow> family_event Blocks f (f\<lparr>blocked := True\<rparr>)"
| stop_unblocked: "\<not> exited (main f) \<Longrightarrow> \<not> blocked f \<Longrightarrow>
     family_event Stop_Asked f (f\<lparr>main := main_sigquit (main f)\<rparr>)"
| stop_blocked: "blocked f \<Longrightarrow> wait_pid ev = None \<Longrightarrow> quit_signal ev \<Longrightarrow> kernel_ok ev (main f) \<Longrightarrow>
     family_event Stop_Asked f (take_turn ev f)"
| wait_returns: "blocked f \<Longrightarrow> procs f pid = Some Zombie \<Longrightarrow> wait_pid ev = Some pid \<Longrightarrow> \<not> quit_signal ev \<Longrightarrow>
     kernel_ok ev (main f) \<Longrightarrow> family_event (Waited pid) f (take_turn ev f)"
| no_child: "blocked f \<Longrightarrow> procs f = Map.empty \<Longrightarrow> wait_pid ev = None \<Longrightarrow> \<not> quit_signal ev \<Longrightarrow>
     kernel_ok ev (main f) \<Longrightarrow> family_event No_Child f (take_turn ev f)"
| sets_handler: "procs f pid = Some Young \<Longrightarrow>
     family_event (Sets_Handler pid) f (f\<lparr>procs := (procs f)(pid := Some Ready)\<rparr>)"
| ends: "procs f pid = Some Young \<or> procs f pid = Some Ready \<Longrightarrow>
     family_event (Ends pid) f (f\<lparr>procs := (procs f)(pid := Some Zombie)\<rparr>)"

definition moves :: "(event \<Rightarrow> bool) \<Rightarrow> family \<Rightarrow> family \<Rightarrow> bool" where
  "moves A f f1 \<longleftrightarrow> (\<exists>a. A a \<and> family_event a f f1)"

abbreviation any_event :: "event \<Rightarrow> bool" where "any_event \<equiv> \<lambda>_. True"

definition started :: "(nat \<times> nat) list \<Rightarrow> family \<Rightarrow> bool" where
  "started conf f \<longleftrightarrow> family_start conf (main f) \<and> \<not> blocked f \<and>
     procs f = (\<lambda>p. if p \<in> pids (m_workers (main f)) then Some Young else None)"

section \<open>The processes are those the main process knows\<close>

definition known :: "family \<Rightarrow> bool" where
  "known f \<longleftrightarrow> dom (procs f) = pids (m_workers (main f)) \<and> (blocked f \<longrightarrow> \<not> exited (main f)) \<and>
     (signalled (main f) \<longrightarrow> m_exiting (main f))"

lemma reap_workers:
  "m_workers (reap pid r mp) = filter (\<lambda>e. fst e \<noteq> pid) (m_workers mp)"
proof -
  have "filter (\<lambda>e. fst e \<noteq> pid) (m_workers mp) = m_workers mp" if "map_find (m_workers mp) pid = None"
    using that by (intro filter_True) (force simp: map_find_None_iff)
  then show ?thesis by (simp add: reap_def split: option.splits)
qed

lemma reap_flags [simp]:
  "m_exiting (reap pid r mp) = m_exiting mp" "signalled (reap pid r mp) = signalled mp"
  "kills (reap pid r mp) = kills mp" "exited (reap pid r mp) = exited mp"
  by (simp_all add: reap_def split: option.splits)

lemma after_wait_fields [simp]:
  "m_exiting (after_wait ev mp) = (m_exiting mp \<or> quit_signal ev)" "signalled (after_wait ev mp) = signalled mp"
  "kills (after_wait ev mp) = kills mp" "exited (after_wait ev mp) = exited mp"
  "m_workers (after_wait ev mp) = filter (\<lambda>e. wait_pid ev \<noteq> Some (fst e)) (m_workers mp)"
  by (auto simp: after_wait_def Let_def reap_workers split: option.splits intro!: filter_cong)

lemma spawn_fields [simp]:
  "m_exiting (spawn now fks mp) = m_exiting mp" "signalled (spawn now fks mp) = signalled mp"
  "kills (spawn now fks mp) = kills mp" "exited (spawn now fks mp) = exited mp"
  by (simp_all add: spawn_def split: prod.splits)

lemma dom_waited: "dom P = pids ws \<Longrightarrow> dom (waited ev P) = pids (filter (\<lambda>e. wait_pid ev \<noteq> Some (fst e)) ws)"
  by (auto simp: waited_def split: option.splits if_splits)

lemma map_insert_pids: "pids ws \<subseteq> pids (map_insert pid f ws)"
  by (auto simp: map_insert_def)

lemma spawn_function_grows: "spawn_function fks f n mn ws = (ok, fks1, n1, ws1) \<Longrightarrow> pids ws \<subseteq> pids ws1"
proof (induction fks f n mn ws rule: spawn_function.induct)
  case (2 pid fks f n mn ws)
  then show ?case using map_insert_pids[of ws pid f] by (force split: if_splits)
qed auto

lemma spawn_loop_grows: "spawn_loop fks fns ws = (fns1, ws1) \<Longrightarrow> pids ws \<subseteq> pids ws1"
proof (induction fks fns ws arbitrary: fns1 ws1 rule: spawn_loop.induct)
  case (2 fks f n mn fns ws)
  obtain ok fks2 n2 ws2 where one: "spawn_function fks f n mn ws = (ok, fks2, n2, ws2)"
    by (cases "spawn_function fks f n mn ws")
  have "pids ws2 \<subseteq> pids ws1"
    using 2 one by (cases ok) (auto split: prod.splits)
  then show ?case using spawn_function_grows[OF one] by blast
qed auto

lemma spawn_grows: "pids (m_workers mp) \<subseteq> pids (m_workers (spawn now fks mp))"
  unfolding spawn_def by (auto split: prod.splits dest!: spawn_loop_grows)

text \<open>A turn, before and after the stop has been seen.\<close>

lemma turn_keeps: "pids (m_workers (after_wait ev mp)) \<subseteq> pids (m_workers (run_turn ev mp))"
  using spawn_grows[of "after_wait ev mp"] by (auto simp: run_turn_def Let_def)

lemma turn_stops:
  assumes "m_exiting mp \<or> quit_signal ev"
  shows "m_workers (run_turn ev mp) = m_workers (after_wait ev mp)" "m_exiting (run_turn ev mp)" "signalled (run_turn ev mp)"
    "kills (run_turn ev mp) = kills mp @ (if signalled mp then [] else map fst (m_workers (after_wait ev mp)))"
    "exited (run_turn ev mp) \<longleftrightarrow> m_workers (run_turn ev mp) = []"
  using assms by (simp_all add: run_turn_def Let_def)

lemma turn_goes_on:
  assumes "\<not> m_exiting mp" "\<not> quit_signal ev"
  shows "\<not> m_exiting (run_turn ev mp)" "signalled (run_turn ev mp) = signalled mp" "kills (run_turn ev mp) = kills mp"
  using assms by (simp_all add: run_turn_def Let_def)

lemma take_turn_fields [simp]:
  "main (take_turn ev f) = run_turn ev (main f)" "\<not> blocked (take_turn ev f)"
  by (simp_all add: take_turn_def Let_def)

lemma waited_known: "known f \<Longrightarrow> dom (waited ev (procs f)) = pids (m_workers (after_wait ev (main f)))"
  by (simp add: known_def dom_waited)

lemma dom_forked:
  "dom (\<lambda>p. if Q p = None \<and> p \<in> A then Some y else if p \<in> B then map_option g (Q p) else Q p) = dom Q \<union> A"
  "dom (\<lambda>p. if p \<in> A then Some y else None) = A"
  by (auto simp: dom_def)

lemma known_turn:
  assumes "known f"
  shows "known (take_turn ev f)"
proof -
  have "dom (procs (take_turn ev f)) = dom (waited ev (procs f)) \<union> pids (m_workers (run_turn ev (main f)))"
    by (simp add: take_turn_def Let_def dom_forked)
  also have "\<dots> = pids (m_workers (run_turn ev (main f)))"
    using waited_known[OF assms, of ev] turn_keeps[of ev "main f"] by auto
  finally have "dom (procs (take_turn ev f)) = pids (m_workers (main (take_turn ev f)))" by simp
  moreover have "signalled (run_turn ev (main f)) \<longrightarrow> m_exiting (run_turn ev (main f))"
    using assms turn_stops(2)[of "main f" ev] turn_goes_on(2)[of "main f" ev] by (auto simp: known_def)
  ultimately show ?thesis by (simp add: known_def)
qed

lemma known_event: "family_event a f f1 \<Longrightarrow> known f \<Longrightarrow> known f1"
proof (induction rule: family_event.induct)
  case (sets_handler f pid)
  then show ?case by (auto simp: known_def)
next
  case (ends f pid)
  then show ?case by (auto simp: known_def)
qed (auto simp: known_turn, auto simp: known_def main_sigquit_def)

lemma known_start: "started conf f \<Longrightarrow> known f"
proof -
  assume s: "started conf f"
  have "\<not> signalled (configured conf now)" for now
    unfolding configured_def
    by (induction conf rule: rev_induct) (auto simp: MainProcess_new_def add_function_def)
  then have "\<not> signalled (main f)" using s by (auto simp: started_def family_start_def)
  then show ?thesis using s by (simp add: started_def known_def dom_forked)
qed

interpretation stop_family: invariant_system "started conf" "moves any_event" known for conf
  by unfold_locales (auto simp: moves_def known_start intro: known_event)

text \<open>A turn of a stop that has been announced only takes the waited child out.\<close>

lemma stopping_turn_procs:
  assumes "known f" "m_exiting (main f)" "signalled (main f)"
  shows "procs (take_turn ev f) = waited ev (procs f)" "kills (run_turn ev (main f)) = kills (main f)"
    "m_exiting (run_turn ev (main f))" "signalled (run_turn ev (main f))"
proof -
  note s = turn_stops[of "main f" ev] assms(2,3)
  have "waited ev (procs f) p \<noteq> None" if "p \<in> pids (m_workers (run_turn ev (main f)))" for p
    using that waited_known[OF assms(1), of ev] s by auto
  moreover have "told ev (main f) = {}" using s by (simp add: told_def)
  ultimately show "procs (take_turn ev f) = waited ev (procs f)"
    by (intro ext) (auto simp: take_turn_def Let_def)
qed (use turn_stops[of "main f" ev] assms(2,3) in simp_all)

text \<open>The turn in which the main process learns of the stop while blocked.\<close>

lemma first_stopping_turn:
  assumes "known f" "\<not> signalled (main f)" "wait_pid ev = None" "quit_signal ev"
  shows "procs (take_turn ev f) = (\<lambda>p. map_option worker_sigquit (procs f p))"
    "kills (run_turn ev (main f)) = kills (main f) @ map fst (m_workers (main f))"
    "m_workers (run_turn ev (main f)) = m_workers (main f)"
proof -
  note s = turn_stops[of "main f" ev] assms(2-4)
  have w: "waited ev (procs f) = procs f" using assms(3) by (simp add: waited_def)
  have "told ev (main f) = pids (m_workers (main f))" using s by (simp add: told_def)
  moreover have "procs f p = None" if "p \<notin> pids (m_workers (main f))" for p
    using assms(1) that unfolding known_def by blast
  moreover have "procs f p \<noteq> None" if "p \<in> pids (m_workers (main f))" for p
    using assms(1) that unfolding known_def by blast
  ultimately show "procs (take_turn ev f) = (\<lambda>p. map_option worker_sigquit (procs f p))"
    using s w by (intro ext) (simp add: take_turn_def Let_def)
qed (use turn_stops[of "main f" ev] assms(2-4) in simp_all)

section \<open>A worker that misses the signal\<close>

definition missed_by :: "int \<Rightarrow> int list \<Rightarrow> family \<Rightarrow> bool" where
  "missed_by pid ks f \<longleftrightarrow> known f \<and> m_exiting (main f) \<and> signalled (main f) \<and> kills (main f) = ks \<and>
     \<not> exited (main f) \<and> procs f pid \<in> {Some Young, Some Ready}"

lemma missed_turn:
  assumes "missed_by pid ks f" "wait_pid ev \<noteq> Some pid"
  shows "missed_by pid ks (take_turn ev f)"
proof -
  have k: "known f" "m_exiting (main f)" "signalled (main f)" and p: "procs f pid \<in> {Some Young, Some Ready}"
    using assms(1) by (auto simp: missed_by_def)
  note s = stopping_turn_procs[OF k, of ev]
  have stays: "procs (take_turn ev f) pid = procs f pid"
    using assms(2) by (simp add: s(1) waited_def split: option.splits)
  then have "pid \<in> dom (procs (take_turn ev f))" using p by auto
  then have "m_workers (run_turn ev (main f)) \<noteq> []"
    using known_turn[OF k(1), of ev] by (auto simp: known_def)
  then show ?thesis
    using assms(1) s stays known_turn[OF k(1), of ev] turn_stops(5)[of "main f" ev] k(2)
    by (simp add: missed_by_def)
qed

lemma missed_event: "family_event a f f1 \<Longrightarrow> missed_by pid ks f \<Longrightarrow> a \<noteq> Ends pid \<Longrightarrow> missed_by pid ks f1"
proof (induction rule: family_event.induct)
  case (wait_returns f q ev)
  then have "q \<noteq> pid" by (auto simp: missed_by_def)
  then show ?case using wait_returns by (intro missed_turn) auto
next
  case (sets_handler f q)
  then have "known (f\<lparr>procs := (procs f)(q := Some Ready)\<rparr>)"
    using known_event[OF family_event.sets_handler] by (simp add: missed_by_def)
  then show ?case using sets_handler by (auto simp: missed_by_def)
next
  case (ends f q)
  then have "known (f\<lparr>procs := (procs f)(q := Some Zombie)\<rparr>)"
    using known_event[OF family_event.ends] by (simp add: missed_by_def)
  then show ?case using ends by (auto simp: missed_by_def)
qed (auto intro: missed_turn, auto simp: missed_by_def known_def main_sigquit_def)

lemma missed_moves:
  assumes "(moves (\<lambda>a. a \<noteq> Ends pid))\<^sup>*\<^sup>* f f1" "missed_by pid ks f"
  shows "missed_by pid ks f1"
  using assms by (induction rule: rtranclp_induct) (auto simp: moves_def intro: missed_event)

text \<open>The event of the stop signal while the main process is blocked.\<close>

lemma kernel_ok_quiet: "kernel_ok (turn_of None quit []) mp"
  by (simp add: kernel_ok_def turn_of_def)

lemma stop_event: "blocked f \<Longrightarrow> family_event Stop_Asked f (take_turn (turn_of None True []) f)"
  by (rule stop_blocked) (simp_all add: kernel_ok_quiet, simp_all add: turn_of_def)

text \<open>C18. A stop can be lost on a new worker: when the signal comes while a worker still has the handler it was forked with, the worker is told to quit and ignores it, and from then on, as long as this worker does not end by itself, the main process neither tells any worker again, however often it is asked to stop, nor ever leaves its loop.\<close>

theorem stop_lost_on_young_worker:
  assumes "reach (started conf) (moves any_event) f" "blocked f" "\<not> m_exiting (main f)" "procs f pid = Some Young"
  shows "\<exists>f1. family_event Stop_Asked f f1 \<and> pid \<in> set (kills (main f1)) \<and>
    (\<forall>f2. (moves (\<lambda>a. a \<noteq> Ends pid))\<^sup>*\<^sup>* f1 f2 \<longrightarrow>
       \<not> exited (main f2) \<and> kills (main f2) = kills (main f1) \<and> procs f2 pid \<in> {Some Young, Some Ready})"
proof -
  let ?ev = "turn_of None True []"
  let ?f = "take_turn ?ev f"
  have k: "known f" using assms(1) by (rule stop_family.reach_inv)
  then have s: "\<not> signalled (main f)" using assms(3) by (auto simp: known_def)
  have ev: "wait_pid ?ev = None" "quit_signal ?ev" by (simp_all add: turn_of_def)
  note first = first_stopping_turn[OF k s ev]
  have pid: "pid \<in> pids (m_workers (main f))" using k assms(4) by (auto simp: known_def)
  have "missed_by pid (kills (main ?f)) ?f"
    using first known_turn[OF k, of ?ev] turn_stops[of "main f" ?ev] ev assms(4) pid by (auto simp: missed_by_def)
  then have "\<not> exited (main f2) \<and> kills (main f2) = kills (main ?f) \<and> procs f2 pid \<in> {Some Young, Some Ready}"
    if "(moves (\<lambda>a. a \<noteq> Ends pid))\<^sup>*\<^sup>* ?f f2" for f2
    using missed_moves[OF that] by (simp add: missed_by_def)
  moreover have "pid \<in> set (kills (main ?f))" using first(2) pid by simp
  ultimately show ?thesis using stop_event[OF assms(2)] by blast
qed

text \<open>The configuration of \<open>main\<close> right after the first \<open>spawn\<close>.\<close>

definition one_family :: "bool \<Rightarrow> proc \<Rightarrow> family" where
  "one_family b x = \<lparr>main = one_worker, blocked = b, procs = [100 \<mapsto> x]\<rparr>"

lemma one_family_reach:
  "reach (started [(1, 1)]) (moves any_event) (one_family False Young)"
  "reach (started [(1, 1)]) (moves any_event) (one_family True Young)"
  "reach (started [(1, 1)]) (moves any_event) (one_family True Ready)"
proof -
  have "started [(1, 1)] (one_family False Young)"
    using one_worker_start by (auto simp: started_def one_family_def one_worker_def fun_eq_iff)
  then show a: "reach (started [(1, 1)]) (moves any_event) (one_family False Young)" by (rule reach_start)
  have "family_event Blocks (one_family False Young) (one_family True Young)"
    using blocks[of "one_family False Young"] by (simp add: one_family_def one_worker_def)
  then show b: "reach (started [(1, 1)]) (moves any_event) (one_family True Young)"
    by (intro reach_step[OF a]) (auto simp: moves_def)
  have "family_event (Sets_Handler 100) (one_family True Young) (one_family True Ready)"
    using sets_handler[of "one_family True Young" 100] by (simp add: one_family_def)
  then show "reach (started [(1, 1)]) (moves any_event) (one_family True Ready)"
    by (intro reach_step[OF b]) (auto simp: moves_def)
qed

theorem stop_lost_on_young_worker_witness:
  "\<exists>f1. family_event Stop_Asked (one_family True Young) f1 \<and> 100 \<in> set (kills (main f1)) \<and> \<not> exited (main f1)"
proof -
  have "blocked (one_family True Young)" "\<not> m_exiting (main (one_family True Young))"
    "procs (one_family True Young) 100 = Some Young"
    by (simp_all add: one_family_def one_worker_def)
  from stop_lost_on_young_worker[OF one_family_reach(2) this] show ?thesis by blast
qed

section \<open>A stop that finds every worker ready\<close>

definition stopping :: "int list \<Rightarrow> family \<Rightarrow> bool" where
  "stopping ks f \<longleftrightarrow> known f \<and> kills (main f) = ks \<and> m_exiting (main f) \<and> signalled (main f) \<and>
     (exited (main f) \<longleftrightarrow> m_workers (main f) = []) \<and> ran (procs f) \<subseteq> {Zombie}"

lemma stopping_turn_taken:
  assumes "stopping ks f"
  shows "stopping ks (take_turn ev f)" "m_workers (main (take_turn ev f)) = filter (\<lambda>e. wait_pid ev \<noteq> Some (fst e)) (m_workers (main f))"
proof -
  have k: "known f" "m_exiting (main f)" "signalled (main f)" and z: "ran (procs f) \<subseteq> {Zombie}"
    and ks: "kills (main f) = ks"
    using assms by (auto simp: stopping_def)
  have "ran (waited ev (procs f)) \<subseteq> {Zombie}"
    using z by (auto simp: waited_def ran_def split: option.splits if_splits)
  then show "stopping ks (take_turn ev f)"
    using stopping_turn_procs[OF k, of ev] known_turn[OF k(1), of ev] turn_stops(5)[of "main f" ev] k(2) ks
    by (simp add: stopping_def)
  show "m_workers (main (take_turn ev f)) = filter (\<lambda>e. wait_pid ev \<noteq> Some (fst e)) (m_workers (main f))"
    using turn_stops(1)[of "main f" ev] k(2) by simp
qed

lemma stopping_event: "family_event a f f1 \<Longrightarrow> stopping ks f \<Longrightarrow> stopping ks f1"
proof (induction rule: family_event.induct)
  case (sets_handler f pid)
  then show ?case by (auto simp: stopping_def ran_def)
next
  case (ends f pid)
  then show ?case by (auto simp: stopping_def ran_def)
qed (auto intro: stopping_turn_taken, auto simp: stopping_def known_def main_sigquit_def)

text \<open>The runs from a state, with their events in order.\<close>

inductive event_run :: "family \<Rightarrow> event list \<Rightarrow> family \<Rightarrow> bool" where
  no_event: "event_run f [] f"
| next_event: "family_event a f f1 \<Longrightarrow> event_run f1 as f2 \<Longrightarrow> event_run f (a # as) f2"

definition asks :: "event list \<Rightarrow> nat" where
  "asks as = length (filter (\<lambda>a. a = Stop_Asked) as)"

lemma asks_simps [simp]: "asks [] = 0" "asks (a # as) = (if a = Stop_Asked then 1 else 0) + asks as"
  by (simp_all add: asks_def)

text \<open>What is left to do: a worker to wait for, twice, and to block once more. Each event but another stop
  signal takes some of it away.\<close>

definition remaining :: "family \<Rightarrow> nat" where
  "remaining f = 2 * length (m_workers (main f)) + (if blocked f then 0 else 1)"

lemma remaining_event:
  assumes "family_event a f f1" "stopping ks f"
  shows "remaining f1 + (if a = Stop_Asked then 0 else 1) \<le> remaining f + (if a = Stop_Asked then 1 else 0)"
  using assms
proof (induction rule: family_event.induct)
  case (blocks f)
  then show ?case by (simp add: remaining_def)
next
  case (stop_unblocked f)
  then show ?case by (simp add: remaining_def main_sigquit_def)
next
  case (stop_blocked f ev)
  then show ?case using stopping_turn_taken(2)[OF stop_blocked.prems, of ev] by (simp add: remaining_def)
next
  case (wait_returns f pid ev)
  have "pid \<in> pids (m_workers (main f))"
    using wait_returns.prems wait_returns.hyps(2) by (auto simp: stopping_def known_def)
  then have "length (filter (\<lambda>e. pid \<noteq> fst e) (m_workers (main f))) < length (m_workers (main f))"
    by (auto intro: length_filter_less)
  then show ?case
    using stopping_turn_taken(2)[OF wait_returns.prems, of ev] wait_returns.hyps by (simp add: remaining_def)
next
  case (no_child f ev)
  then have "m_workers (main f) = []" by (auto simp: stopping_def known_def)
  then show ?case using no_child by (auto simp: stopping_def known_def)
next
  case (sets_handler f pid)
  then show ?case by (auto simp: stopping_def ran_def)
next
  case (ends f pid)
  then show ?case by (auto simp: stopping_def ran_def)
qed

lemma stopping_run:
  assumes "event_run f as f1" "stopping ks f"
  shows "stopping ks f1 \<and> remaining f1 + length as \<le> remaining f + 2 * asks as"
  using assms
proof (induction rule: event_run.induct)
  case (next_event a f f1 as f2)
  have "stopping ks f1" using next_event.hyps(1) next_event.prems by (rule stopping_event)
  then have "stopping ks f2 \<and> remaining f2 + length as \<le> remaining f1 + 2 * asks as" by (rule next_event.IH)
  then show ?case
    using remaining_event[OF next_event.hyps(1) next_event.prems] by (auto split: if_splits)
qed simp

text \<open>A blocked main process can wait for an ended worker; a running one can block again.\<close>

lemma stopping_goes_on:
  assumes "stopping ks f" "\<not> exited (main f)"
  shows "\<exists>a f1. family_event a f f1 \<and> a \<noteq> Stop_Asked"
proof (cases "blocked f")
  case False
  then have "family_event Blocks f (f\<lparr>blocked := True\<rparr>)" using assms(2) by (intro blocks)
  then show ?thesis by blast
next
  case True
  obtain e ws where w: "m_workers (main f) = e # ws"
    using assms by (cases "m_workers (main f)") (auto simp: stopping_def)
  have "dom (procs f) = pids (m_workers (main f))" using assms(1) by (simp add: stopping_def known_def)
  then have "fst e \<in> dom (procs f)" using w by simp
  then have z: "procs f (fst e) = Some Zombie" using assms(1) by (force simp: stopping_def ran_def)
  let ?ev = "turn_of (Some (fst e)) False []"
  have "family_event (Waited (fst e)) f (take_turn ?ev f)"
    by (rule wait_returns[OF True z]) (simp_all add: turn_of_def kernel_ok_def)
  then show ?thesis by blast
qed

lemma stopping_exited: "stopping ks f \<Longrightarrow> exited (main f) \<Longrightarrow> procs f = Map.empty"
  by (auto simp: stopping_def known_def)

lemma ready_told:
  assumes "Young \<notin> ran P"
  shows "ran (\<lambda>p. map_option worker_sigquit (P p)) \<subseteq> {Zombie}"
proof -
  have "worker_sigquit x = Zombie" if "P p = Some x" for p x
    using that assms by (cases x) (auto simp: ran_def)
  then show ?thesis by (auto simp: ran_def)
qed

text \<open>C17. A stop that finds every worker ready comes to an end: when the signal comes while the main process waits and each worker has its own handler or has ended, every worker is told once and never again. From then on only a bounded number of events can happen, whatever their order, two for each worker and one more, besides those in which the signal comes again, each of which makes room for one more; and a run that cannot go on without another signal has left the loop of the main process with no child left behind.\<close>

theorem stop_completes_when_ready:
  assumes "reach (started conf) (moves any_event) f" "blocked f" "\<not> m_exiting (main f)" "Young \<notin> ran (procs f)"
  shows "(\<exists>f1. family_event Stop_Asked f f1) \<and>
    (\<forall>f1 as f2. family_event Stop_Asked f f1 \<and> event_run f1 as f2 \<longrightarrow>
       kills (main f2) = kills (main f) @ map fst (m_workers (main f)) \<and>
       length as \<le> 2 * length (m_workers (main f)) + 1 + 2 * asks as \<and>
       ((\<forall>a f3. family_event a f2 f3 \<longrightarrow> a = Stop_Asked) \<longrightarrow> exited (main f2) \<and> procs f2 = Map.empty))"
proof (intro conjI allI impI)
  show "\<exists>f1. family_event Stop_Asked f f1" using stop_event[OF assms(2)] by blast
next
  fix f1 as f2
  assume run: "family_event Stop_Asked f f1 \<and> event_run f1 as f2"
  then obtain ev where ev: "wait_pid ev = None" "quit_signal ev" and f1: "f1 = take_turn ev f"
    using assms(2) by (auto elim: family_event.cases)
  have k: "known f" using assms(1) by (rule stop_family.reach_inv)
  then have s: "\<not> signalled (main f)" using assms(3) by (auto simp: known_def)
  note first = first_stopping_turn[OF k s ev]
  have "stopping (kills (main f1)) f1"
    using first ready_told[OF assms(4)] known_turn[OF k, of ev] turn_stops[of "main f" ev] ev
    by (simp add: stopping_def f1)
  from stopping_run[OF conjunct2[OF run] this]
  have st: "stopping (kills (main f1)) f2" and le: "remaining f2 + length as \<le> remaining f1 + 2 * asks as"
    by auto
  show "kills (main f2) = kills (main f) @ map fst (m_workers (main f))"
    using st first(2) by (simp add: stopping_def f1)
  have "remaining f1 = 2 * length (m_workers (main f)) + 1" using first(3) by (simp add: remaining_def f1)
  then show "length as \<le> 2 * length (m_workers (main f)) + 1 + 2 * asks as" using le by linarith
  assume stuck: "\<forall>a f3. family_event a f2 f3 \<longrightarrow> a = Stop_Asked"
  show "exited (main f2)" using stopping_goes_on[OF st] stuck by blast
  then show "procs f2 = Map.empty" using st stopping_exited by blast
qed

text \<open>A ready worker: the run of the stop, two events later.\<close>

lemma ready_stop_run:
  "event_run (take_turn (turn_of None True []) (one_family True Ready)) [Blocks, Waited 100]
     (take_turn (turn_of (Some 100) False []) (take_turn (turn_of None True []) (one_family True Ready)\<lparr>blocked := True\<rparr>))"
proof -
  let ?f = "take_turn (turn_of None True []) (one_family True Ready)"
  have m: "main ?f = one_worker\<lparr>m_exiting := True, signalled := True, kills := [100], exited := False\<rparr>"
    by (simp add: one_family_def one_worker_def run_turn_def after_wait_def turn_of_def Let_def)
  have p: "procs ?f 100 = Some Zombie"
    by (simp add: one_family_def one_worker_def take_turn_def run_turn_def after_wait_def turn_of_def Let_def
        told_def waited_def)
  have "family_event Blocks ?f (?f\<lparr>blocked := True\<rparr>)" using m by (intro blocks) simp_all
  moreover have "family_event (Waited 100) (?f\<lparr>blocked := True\<rparr>)
      (take_turn (turn_of (Some 100) False []) (?f\<lparr>blocked := True\<rparr>))"
    using p by (intro wait_returns) (simp_all add: turn_of_def kernel_ok_def)
  ultimately show ?thesis by (rule next_event[OF _ next_event[OF _ no_event]])
qed

theorem stop_completes_when_ready_witness:
  "\<exists>f2. event_run (take_turn (turn_of None True []) (one_family True Ready)) [Blocks, Waited 100] f2 \<and> kills (main f2) = [100]"
proof -
  have "blocked (one_family True Ready)" "\<not> m_exiting (main (one_family True Ready))"
    "Young \<notin> ran (procs (one_family True Ready))" and w: "kills (main (one_family True Ready)) = []"
    "m_workers (main (one_family True Ready)) = [(100, 1)]"
    by (auto simp: one_family_def one_worker_def ran_def split: if_splits)
  note c = stop_completes_when_ready[OF one_family_reach(3) this(1-3)]
  have "family_event Stop_Asked (one_family True Ready) (take_turn (turn_of None True []) (one_family True Ready))"
    by (rule stop_event) (simp add: one_family_def)
  then show ?thesis using c ready_stop_run w by fastforce
qed

section \<open>A stop that is not noticed\<close>

text \<open>Between the test of the flag and \<open>waitpid\<close> the handler only sets the flag: the main process
  blocks all the same.\<close>

definition unnoticed :: "main_process \<Rightarrow> family \<Rightarrow> bool" where
  "unnoticed mp f \<longleftrightarrow> main f = mp \<and> blocked f \<and> procs f \<noteq> Map.empty \<and> Zombie \<notin> ran (procs f)"

lemma unnoticed_event:
  "family_event a f f1 \<Longrightarrow> unnoticed mp f \<Longrightarrow> a \<noteq> Stop_Asked \<Longrightarrow> (\<And>p. a \<noteq> Ends p) \<Longrightarrow> unnoticed mp f1"
proof (induction rule: family_event.induct)
  case (wait_returns f pid ev)
  then show ?case by (auto simp: unnoticed_def ran_def)
qed (auto simp: unnoticed_def ran_def split: if_splits)

text \<open>A stop can go unnoticed: when the signal comes after the main process has tested its flag and before it waits, no worker is told to quit, and the main process stays in \<open>waitpid\<close> with its state unchanged until the signal comes a second time or a worker ends for another reason.\<close>

theorem stop_unnoticed_before_wait:
  assumes "\<not> exited (main f)" "\<not> blocked f" "procs f \<noteq> Map.empty" "Zombie \<notin> ran (procs f)"
  shows "\<exists>f1 f2. family_event Stop_Asked f f1 \<and> family_event Blocks f1 f2 \<and> main f2 = main_sigquit (main f) \<and>
    (\<forall>f3. (moves (\<lambda>a. a \<noteq> Stop_Asked \<and> (\<forall>p. a \<noteq> Ends p)))\<^sup>*\<^sup>* f2 f3 \<longrightarrow> main f3 = main_sigquit (main f) \<and> blocked f3)"
proof -
  define f1 where "f1 = f\<lparr>main := main_sigquit (main f)\<rparr>"
  define f2 where "f2 = f1\<lparr>blocked := True\<rparr>"
  have "family_event Stop_Asked f f1" unfolding f1_def using assms(1,2) by (rule stop_unblocked)
  moreover have "family_event Blocks f1 f2"
    unfolding f2_def using assms(1,2) by (intro blocks) (simp_all add: f1_def main_sigquit_def)
  moreover have "unnoticed (main_sigquit (main f)) f3"
    if "(moves (\<lambda>a. a \<noteq> Stop_Asked \<and> (\<forall>p. a \<noteq> Ends p)))\<^sup>*\<^sup>* f2 f3" for f3
    using that
  proof (induction rule: rtranclp_induct)
    case base
    then show ?case using assms(3,4) by (simp add: unnoticed_def f1_def f2_def)
  qed (auto simp: moves_def intro: unnoticed_event)
  ultimately show ?thesis by (intro exI[of _ f1] exI[of _ f2]) (auto simp: unnoticed_def f1_def f2_def)
qed

theorem stop_unnoticed_before_wait_witness:
  "\<exists>f1 f2. family_event Stop_Asked (one_family False Ready) f1 \<and> family_event Blocks f1 f2 \<and> m_exiting (main f2) \<and> kills (main f2) = []"
proof -
  have "\<not> exited (main (one_family False Ready))" "\<not> blocked (one_family False Ready)"
    "procs (one_family False Ready) \<noteq> Map.empty" "Zombie \<notin> ran (procs (one_family False Ready))"
    by (auto simp: one_family_def one_worker_def ran_def split: if_splits)
  from stop_unnoticed_before_wait[OF this]
  obtain f1 f2 where "family_event Stop_Asked (one_family False Ready) f1" "family_event Blocks f1 f2"
    "main f2 = main_sigquit (main (one_family False Ready))"
    by blast
  moreover have "m_exiting (main_sigquit (main (one_family False Ready)))" "kills (main_sigquit (main (one_family False Ready))) = []"
    by (simp_all add: main_sigquit_def one_family_def one_worker_def)
  ultimately show ?thesis by metis
qed

end
