(* ===== verification/Pool_Progress.thy ===== *)
theory Pool_Progress
  imports Db_Pool
begin

text \<open>
  What becomes of the threads that wait in \<open>DBPool::get\<close>
  (\<^verbatim>\<open>src/db/db_pool.h\<close> and \<^verbatim>\<open>src/db/db_pool.cpp\<close>). A thread waits only while
  the maximum of connections is open, every one of them is in use, and
  \<open>put\<close> signals one waiting thread for each connection it takes back. So as
  long as a thread waits there are at least as many threads on their way (with a connection, or woken
  up for one) as the pool may have connections; the invariant is separate from
  \<^theory_text>\<open>pool_inv\<close>, of which it uses the counters.
\<close>

section \<open>Threads on their way\<close>

definition under_way :: "(tid \<Rightarrow> thread) \<Rightarrow> tid set" where
  "under_way T = {t. T t = Woken} \<union> users T"

definition waiters_ok :: "nat \<Rightarrow> sys \<Rightarrow> bool" where
  "waiters_ok M s \<longleftrightarrow> finite (under_way (threads s)) \<and>
     ((\<exists>w. threads s w = Waiting) \<longrightarrow> M \<le> card (under_way (threads s)))"

lemma under_way_start [simp]: "under_way (\<lambda>_. Outside) = {}"
  by (simp add: under_way_def)

lemma under_way_move [simp]:
  "under_way (T(t := Using c)) = insert t (under_way T)"
  "under_way (T(t := Woken)) = insert t (under_way T)"
  "under_way (T(t := Outside)) = under_way T - {t}"
  "under_way (T(t := Waiting)) = under_way T - {t}"
  by (auto simp: under_way_def)

lemma not_under_way [simp]: "T t = Outside \<or> T t = Waiting \<Longrightarrow> t \<notin> under_way T"
  by (auto simp: under_way_def users_def)

lemma is_under_way [simp]: "T t = Woken \<or> T t = Using c \<Longrightarrow> t \<in> under_way T"
  by (auto simp: under_way_def users_def)

lemma card_insert_ge: "finite A \<Longrightarrow> M \<le> card A \<Longrightarrow> M \<le> card (insert t A)"
  by (simp add: card_insert_if)

lemma waiters_start: "pool_start mn mx s \<Longrightarrow> waiters_ok mx s"
  by (simp add: pool_start_def fresh_sys_def waiters_ok_def)

lemma waiters_join:
  assumes "waiters_ok M s" "x = Woken \<or> x = Using c" "threads s' = (threads s)(t := x)"
  shows "waiters_ok M s'"
  using assms by (auto simp: waiters_ok_def intro: card_insert_ge split: if_splits)

text \<open>A thread that starts to wait found every one of the \<open>M\<close> connections in use.\<close>

lemma waits_when_full:
  assumes "pool_inv M s" "pool_get opened now (the_pool s) = Must_Wait"
  shows "M \<le> card (users (threads s))"
proof -
  have none: "m_available_connections (the_pool s) = []"
    using assms(2) by (rule pool_get_Must_Wait)
  have "\<not> (m_num_available (the_pool s) = 0 \<and> m_num_connections (the_pool s) < m_max_connections (the_pool s))"
    using assms(2) by (auto simp: pool_get_def grow_def split: if_splits sum.splits)
  then show ?thesis using assms(1) none by (auto simp: pool_inv_def counts_ok_def)
qed

lemma users_under_way: "users T \<subseteq> under_way T"
  by (auto simp: under_way_def)

lemma waiters_step:
  assumes "pool_inv M s" "waiters_ok M s" "pool_step s s'"
  shows "waiters_ok M s'"
  using assms(3)
proof cases
  case (get_grown t c now p)
  then show ?thesis using waiters_join[OF assms(2), of "Using c" c s' t] by simp
next
  case (get_reused t opened now c p)
  then show ?thesis using waiters_join[OF assms(2), of "Using c" c s' t] by simp
next
  case (get_waits t opened now)
  have "M \<le> card (users (threads s))" using assms(1) get_waits(4) by (rule waits_when_full)
  also have "\<dots> \<le> card (under_way (threads s))"
    using assms(2) users_under_way by (auto simp: waiters_ok_def intro: card_mono)
  finally show ?thesis using assms(2) get_waits(1,3) by (simp add: waiters_ok_def)
next
  case (put_signals t c w now)
  have "w \<noteq> t" using put_signals(3,4) by auto
  then have "under_way (threads s') = insert w (under_way (threads s) - {t})"
    using put_signals(1) by simp
  moreover have "card (insert w (under_way (threads s) - {t})) = card (under_way (threads s))"
    using assms(2) put_signals(3,4)
    by (simp add: waiters_ok_def card_insert_if card_Suc_Diff1 del: card_Diff_insert)
  ultimately show ?thesis using assms(2) put_signals(4) by (auto simp: waiters_ok_def)
next
  case (put_quiet t c now)
  then show ?thesis using assms(2) by (simp add: waiters_ok_def)
next
  case (spurious w)
  then show ?thesis using waiters_join[OF assms(2), of Woken _ s' w] by simp
next
  case (resumes t now c p)
  then show ?thesis using waiters_join[OF assms(2), of "Using c" c s' t] by simp
qed (use assms(2) in \<open>simp_all add: waiters_ok_def\<close>)

definition pool_inv_waiters :: "nat \<Rightarrow> sys \<Rightarrow> bool" where
  "pool_inv_waiters M s \<longleftrightarrow> pool_inv M s \<and> waiters_ok M s"

interpretation waiters: invariant_system "pool_start mn mx" pool_step "pool_inv_waiters mx" for mn mx
  by unfold_locales (auto simp: pool_inv_waiters_def pool_inv_start waiters_start
      intro: pool_step_inv waiters_step)

lemma waiters_reach:
  assumes "reach (pool_start mn mx) pool_step s"
  shows "pool_inv mx s" "waiters_ok mx s"
  using waiters.reach_inv[OF assms] by (auto simp: pool_inv_waiters_def)

section \<open>A waiting thread can be served\<close>

text \<open>
  A spurious wakeup is no service: \<open>pthread_cond_wait\<close> may return without a signal, but nothing
  makes it. The steps without it are those the program and its signals take by themselves.
\<close>

definition spurious_wakeup :: "sys \<Rightarrow> sys \<Rightarrow> bool" where
  "spurious_wakeup s s' \<longleftrightarrow> (\<exists>w. threads s w = Waiting \<and> s' = s\<lparr>threads := move s w Woken\<rparr>)"

definition signalled_step :: "sys \<Rightarrow> sys \<Rightarrow> bool" where
  "signalled_step s s' \<longleftrightarrow> pool_step s s' \<and> \<not> spurious_wakeup s s'"

lemma changes_pool: "pool_step s s' \<Longrightarrow> the_pool s' \<noteq> the_pool s \<Longrightarrow> signalled_step s s'"
  by (auto simp: signalled_step_def spurious_wakeup_def)

text \<open>The next thread in the line of a connection: with no connection in use a woken thread takes the
  available one; then there is a user, who returns it to a waiting thread, which takes it.\<close>

lemma woken_takes:
  assumes "runs s" "threads s u = Woken" "m_available_connections (the_pool s) \<noteq> []"
  shows "\<exists>s' c. signalled_step s s' \<and> threads s' = move s u (Using c) \<and> runs s'"
proof -
  obtain c p where p: "take_front 0 (the_pool s) = Some (c, p)"
    using assms(3) take_front_None[of 0 "the_pool s"] by fastforce
  with assms(1,2) have "pool_step s (s\<lparr>the_pool := p, threads := move s u (Using c)\<rparr>)"
    by (rule resumes)
  moreover have "p \<noteq> the_pool s" using take_front_Some(1)[OF p] by auto
  ultimately show ?thesis using assms(1)
    by (intro exI[of _ "s\<lparr>the_pool := p, threads := move s u (Using c)\<rparr>"] exI[of _ c])
      (simp add: runs_def changes_pool)
qed

lemma user_serves:
  assumes "runs s" "threads s t = Using c" "threads s w = Waiting"
  shows "\<exists>s1 s2 c'. signalled_step s s1 \<and> signalled_step s1 s2 \<and> threads s2 w = Using c' \<and> runs s2"
proof -
  define s1 where "s1 = s\<lparr>the_pool := pool_put c 0 (the_pool s),
    threads := (threads s)(t := Outside, w := Woken)\<rparr>"
  have "pool_step s s1" unfolding s1_def using assms by (rule put_signals)
  moreover have "the_pool s1 \<noteq> the_pool s"
  proof
    assume "the_pool s1 = the_pool s"
    then have "m_available_connections (pool_put c 0 (the_pool s)) = m_available_connections (the_pool s)"
      by (simp add: s1_def)
    then show False by simp
  qed
  ultimately have "signalled_step s s1" by (rule changes_pool)
  moreover obtain s2 c' where "signalled_step s1 s2" "threads s2 = move s1 w (Using c')" "runs s2"
    using woken_takes[of s1 w] assms(1) by (auto simp: s1_def runs_def)
  ultimately show ?thesis by (intro exI[of _ s1] exI[of _ s2] exI[of _ c']) simp
qed

lemma some_under_way:
  assumes "waiters_ok M s" "threads s w = Waiting" "0 < M"
  shows "\<exists>t. threads s t = Woken \<or> t \<in> users (threads s)"
proof -
  have "under_way (threads s) \<noteq> {}" using assms by (auto simp: waiters_ok_def)
  then show ?thesis by (auto simp: under_way_def)
qed

text \<open>C10. No wakeup is lost: in every reachable state in which a thread waits for a connection, at
  least as many threads as the maximum of the pool have a connection or have been woken up to take
  one. (A signal goes to a waiting thread whenever there is one; only the stolen wakeup of
  \<open>wakeup_stolen\<close> spends one in vain, by an undefined access.)\<close>

theorem waiters_not_forgotten:
  assumes "reach (pool_start mn mx) pool_step s" "threads s w = Waiting"
  shows "finite {t. threads s t = Woken \<or> (\<exists>c. threads s t = Using c)}
    \<and> mx \<le> card {t. threads s t = Woken \<or> (\<exists>c. threads s t = Using c)}"
proof -
  have "{t. threads s t = Woken \<or> (\<exists>c. threads s t = Using c)} = under_way (threads s)"
    by (auto simp: under_way_def users_def)
  then show ?thesis using waiters_reach(2)[OF assms(1)] assms(2) by (auto simp: waiters_ok_def)
qed

theorem waiters_not_forgotten_witness:
  "1 \<le> card {t. threads one_user_waited t = Woken \<or> (\<exists>c. threads one_user_waited t = Using c)}"
proof -
  have "threads one_user_waited 1 = Waiting" by (simp add: one_user_waited_def)
  from waiters_not_forgotten[OF one_user_waited_reach this] show ?thesis by blast
qed

text \<open>C11. The pool never deadlocks with its waiting threads: from every reachable state in which the
  lock works, the pool has a connection and a thread waits, the other threads can go on in a way that
  gives this thread a connection, and the pool works afterwards. They need no spurious wakeup for it:
  the signals that \<open>put\<close> sends are enough.\<close>

theorem waiter_can_be_served:
  assumes "reach (pool_start mn mx) pool_step s" "runs s" "threads s w = Waiting"
    and "0 < m_num_connections (the_pool s)"
  shows "\<exists>s' c. signalled_step\<^sup>*\<^sup>* s s' \<and> threads s' w = Using c \<and> runs s'"
proof -
  note inv = waiters_reach[OF assms(1)]
  have "m_num_connections (the_pool s) \<le> mx" using inv(1) by (simp add: pool_inv_def counts_ok_def)
  with assms(4) have "0 < mx" by linarith
  show ?thesis
  proof (cases "users (threads s) = {}")
    case False
    then obtain t c where "threads s t = Using c" by (auto simp: users_def)
    with assms(2) obtain s1 s2 c' where "signalled_step s s1" "signalled_step s1 s2" "threads s2 w = Using c'" "runs s2"
      using assms(3) user_serves by blast
    then show ?thesis by (meson converse_rtranclp_into_rtranclp rtranclp.rtrancl_refl)
  next
    case True
    then obtain u where u: "threads s u = Woken"
      using some_under_way[OF inv(2) assms(3) \<open>0 < mx\<close>] by auto
    have "m_available_connections (the_pool s) \<noteq> []"
      using inv(1) assms(4) True by (auto simp: pool_inv_def counts_ok_def)
    with assms(2) u obtain s0 c where s0: "signalled_step s s0" "threads s0 = move s u (Using c)" "runs s0"
      using woken_takes by blast
    have "threads s0 w = Waiting" "threads s0 u = Using c" using s0(2) u assms(3) by auto
    with s0(3) obtain s1 s2 c' where "signalled_step s0 s1" "signalled_step s1 s2" "threads s2 w = Using c'" "runs s2"
      using user_serves by blast
    with s0(1) show ?thesis by (meson converse_rtranclp_into_rtranclp rtranclp.rtrancl_refl)
  qed
qed

theorem waiter_can_be_served_witness:
  "\<exists>s' c. signalled_step\<^sup>*\<^sup>* one_user_waited s' \<and> threads s' 1 = Using c"
proof -
  have "runs one_user_waited" "threads one_user_waited 1 = Waiting"
    "0 < m_num_connections (the_pool one_user_waited)"
    by (simp_all add: one_user_waited_def one_user_def runs_def)
  from waiter_can_be_served[OF one_user_waited_reach this] show ?thesis by blast
qed

end
