(* ===== verification/Worker_Pool.thy ===== *)
theory Worker_Pool
  imports Worker Pool_Progress
begin

text \<open>
  The connection pool of the worker process (\<^verbatim>\<open>src/server/worker.cpp\<close>): a pool of
  5 to 40 connections that only the five threads of the server use, each for one connection at a time
  (the property \<open>one_connection_per_request\<close> of \<^theory_text>\<open>Pool_Use\<close>). The threads are those
  with numbers below \<open>NUM_WORKERS\<close>; the others stay outside the pool.
\<close>

definition pool_wp_com :: sys where
  "pool_wp_com = fresh_sys 5 40"

definition worker_pool_step :: "sys \<Rightarrow> sys \<Rightarrow> bool" where
  "worker_pool_step s s1 \<longleftrightarrow> pool_step s s1 \<and> (\<forall>t. NUM_WORKERS \<le> t \<longrightarrow> threads s1 t = Outside)"

text \<open>No thread waits or has been woken up, for the pool only grows when each of its connections is in use
  by one of the five threads.\<close>

definition roomy :: "sys \<Rightarrow> bool" where
  "roomy s \<longleftrightarrow> pool_inv 40 s \<and> (\<forall>t. NUM_WORKERS \<le> t \<longrightarrow> threads s t = Outside) \<and>
     (\<forall>t. threads s t \<noteq> Waiting \<and> threads s t \<noteq> Woken) \<and>
     m_num_connections (the_pool s) \<le> NUM_WORKERS \<and> fault s = None"

lemma few_users:
  assumes "\<forall>t. NUM_WORKERS \<le> t \<longrightarrow> threads s t = Outside"
  shows "card (users (threads s)) \<le> NUM_WORKERS"
proof -
  have "t < NUM_WORKERS" if "threads s t = Using c" for t c
    using assms that by (cases "NUM_WORKERS \<le> t") auto
  then have "users (threads s) \<subseteq> {..<NUM_WORKERS}" by (auto simp: users_def)
  then show ?thesis using card_mono[of "{..<NUM_WORKERS}" "users (threads s)"] by simp
qed

lemma roomy_start: "s = pool_wp_com \<Longrightarrow> roomy s"
  using pool_inv_start[of 5 40 "fresh_sys 5 40"]
  by (simp add: roomy_def pool_wp_com_def pool_start_def npos_def) (simp add: fresh_sys_def DBPool_new_def)

lemma roomy_step:
  assumes "roomy s" "worker_pool_step s s1"
  shows "roomy s1"
proof -
  have inv: "pool_inv 40 s" and r: "\<forall>t. NUM_WORKERS \<le> t \<longrightarrow> threads s t = Outside"
    "\<forall>t. threads s t \<noteq> Waiting \<and> threads s t \<noteq> Woken" "m_num_connections (the_pool s) \<le> NUM_WORKERS" "fault s = None"
    using assms(1) by (auto simp: roomy_def)
  have step: "pool_step s s1" and out: "\<forall>t. NUM_WORKERS \<le> t \<longrightarrow> threads s1 t = Outside"
    using assms(2) by (auto simp: worker_pool_step_def)
  have inv1: "pool_inv 40 s1" using inv step by (rule pool_step_inv)
  have "(\<forall>t. threads s1 t \<noteq> Waiting \<and> threads s1 t \<noteq> Woken) \<and> m_num_connections (the_pool s1) \<le> NUM_WORKERS \<and> fault s1 = None"
    using step
  proof cases
    case (get_grown t c now p)
    have "m_num_connections (the_pool s1) = card (users (threads s1))"
      using inv1 get_grown(1) pool_get_Grown(2,5)[OF get_grown(5)] inv
      by (simp add: pool_inv_def counts_ok_def)
    then show ?thesis using few_users[OF out] r get_grown(1) by simp
  next
    case (get_reused t opened now c p)
    then show ?thesis using r take_front_Some(4)[OF pool_get_Reused[OF get_reused(4)]] by simp
  next
    case (get_waits t opened now)
    have "40 \<le> card (users (threads s))" using waits_when_full[OF inv get_waits(4)] .
    then show ?thesis using few_users[OF r(1)] by (simp add: NUM_WORKERS_def)
  next
    case (uses_closed t c)
    then show ?thesis using inv1 by (simp add: pool_inv_def)
  next
    case (removes_dead c)
    then show ?thesis using inv1 by (simp add: pool_inv_def)
  next
    case (maintains now p c)
    have "0 < m_num_connections (the_pool s)"
      using inv maintain_Some(1)[OF maintains(4)] by (auto simp: pool_inv_def counts_ok_def dest: length_pos_if_in_set)
    then have "m_num_connections p = m_num_connections (the_pool s) - 1"
      using maintain_Some(6)[OF maintains(4)] inv counts_bound[of 40 "the_pool s" "users (threads s)"]
        size_pred[of "m_num_connections (the_pool s)"] by (simp add: pool_inv_def)
    then show ?thesis using r maintains(1) by simp
  qed (use r in \<open>auto dest: take_front_Some(4)\<close>)
  then show ?thesis using inv1 out by (simp add: roomy_def)
qed

interpretation worker_pool: invariant_system "\<lambda>s. s = pool_wp_com" worker_pool_step roomy
  by unfold_locales (auto intro: roomy_start roomy_step)

text \<open>C12. In the worker process as it is configured no thread ever waits for a connection: with one connection for each of the five threads the pool never reaches its maximum of 40, it never counts more than five connections, and the undefined accesses that a wait can lead to never happen. Six connections exist at most: the five and the one that the maintenance thread has taken out and not yet deleted.\<close>

theorem worker_never_waits:
  assumes "reach (\<lambda>s. s = pool_wp_com) worker_pool_step s"
  shows "(\<forall>t. threads s t \<noteq> Waiting \<and> threads s t \<noteq> Woken) \<and> m_num_connections (the_pool s) \<le> NUM_WORKERS
    \<and> finite (live s) \<and> card (live s) \<le> NUM_WORKERS + (if removing s = None then 0 else 1) \<and> fault s = None"
proof -
  have r: "roomy s" using assms by (rule worker_pool.reach_inv)
  then show ?thesis using counters_from_inv[of 40 s] by (auto simp: roomy_def being_removed_def split: option.splits)
qed

text \<open>Thread 0 opens connection 7, as an example.\<close>

theorem worker_never_waits_witness:
  "\<exists>s. reach (\<lambda>s. s = pool_wp_com) worker_pool_step s \<and> threads s 0 = Using 7 \<and> card (live s) \<le> NUM_WORKERS"
proof -
  let ?p = "touch 7 0 (touch 7 0 (DBPool_new 5 40)\<lparr>m_all_connections := [7], m_num_connections := 1\<rparr>)"
  let ?s = "pool_wp_com\<lparr>the_pool := ?p, threads := move pool_wp_com 0 (Using 7), live := insert 7 (live pool_wp_com)\<rparr>"
  have "pool_step pool_wp_com ?s"
    by (rule get_grown[where now = 0])
      (simp_all add: pool_wp_com_def fresh_sys_def runs_def pool_get_def grow_def DBPool_new_def touch_def)
  then have "worker_pool_step pool_wp_com ?s"
    by (simp add: worker_pool_step_def pool_wp_com_def fresh_sys_def NUM_WORKERS_def)
  then have r: "reach (\<lambda>s. s = pool_wp_com) worker_pool_step ?s" by (intro reach_step[OF reach_start]) simp
  then show ?thesis using worker_never_waits[OF r] by (intro exI[of _ ?s]) (simp add: pool_wp_com_def fresh_sys_def)
qed

end
