(* ===== verification/Requests_End.thy ===== *)
theory Requests_End
  imports Cleanup
begin

text \<open>
  Termination of the requests to the blog and to the site map
  (\<^verbatim>\<open>src/server/wp_handler.cpp\<close>, \<^verbatim>\<open>src/server/sitemap_handler.cpp\<close>): rules that say
  of a program that none of its runs goes on for ever, in the order of its constructs, and of an
  outcome that it is not \<open>Diverges\<close>. The loops are those over the rows of a result, which is finite,
  and over the pages of an archive, which end when an archive has pages of at least one post.
\<close>

section \<open>Programs that end\<close>

named_theorems ends_intros \<open>rules about programs that end\<close>
named_theorems no_loop \<open>outcomes that are values, exceptions or undefined\<close>

definition ends :: "('w, 'a) prog \<Rightarrow> bool" where
  "ends m \<longleftrightarrow> (\<forall>w. fst (m w) \<noteq> Endless)"

lemma endsI: "(\<And>w. fst (m w) \<noteq> Endless) \<Longrightarrow> ends m"
  by (simp add: ends_def)

lemma ends_run: "ends m \<Longrightarrow> m w \<noteq> (Endless, w1)"
  by (metis ends_def fst_conv)

lemma ends_basic [ends_intros]:
  "ends (ret a)" "ends (raise e)" "ends (call c)" "ends new_ptr"
  by (simp_all add: ends_def ret_apply raise_apply call_def new_ptr_def)

definition halts :: "'a outcome \<Rightarrow> bool" where
  "halts r \<longleftrightarrow> r \<noteq> Diverges"

lemma halts_simps [simp]: "halts (Returns a)" "halts (Throws e)" "halts Undefined" "\<not> halts Diverges"
  by (simp_all add: halts_def)

lemma ends_outcome [ends_intros]: "halts r \<Longrightarrow> ends (of_outcome r)"
  by (cases r) (simp_all add: halts_def ends_def of_outcome_simps)

text \<open>A program whose first part is known to give only some values.\<close>

lemma ends_bnd_value:
  assumes "ends m" "\<And>w a w1. m w = (Done a, w1) \<Longrightarrow> ends (k a)"
  shows "ends (bnd m k)"
proof (rule endsI)
  fix w
  obtain x w1 where m: "m w = (x, w1)" by fastforce
  then show "fst (bnd m k w) \<noteq> Endless"
    using assms(2)[of w _ w1] ends_run[OF assms(1), of w w1] by (cases x) (simp_all add: bnd_def ends_def)
qed

lemma ends_bnd [ends_intros]: "ends m \<Longrightarrow> (\<And>a. ends (k a)) \<Longrightarrow> ends (bnd m k)"
  by (rule ends_bnd_value)

lemma ends_try_db [ends_intros]:
  assumes "ends m" "\<And>what. ends (h what)"
  shows "ends (try_db m h)"
proof (rule endsI)
  fix w
  obtain x w1 where m: "m w = (x, w1)" by fastforce
  then show "fst (try_db m h w) \<noteq> Endless"
    using ends_run[OF assms(1), of w w1] assms(2) by (cases x) (auto simp: try_db_def ends_def split: exn.splits)
qed

lemma ends_scope_value:
  assumes "ends ctor" "\<And>x. ends (dtor x)" "\<And>w x w1. ctor w = (Done x, w1) \<Longrightarrow> ends (body x)"
  shows "ends (scope ctor dtor body)"
  unfolding scope_def
proof (rule ends_bnd_value[OF assms(1)], rule endsI)
  fix w0 x w' w
  assume "ctor w0 = (Done x, w')"
  then have b: "ends (body x)" by (rule assms(3))
  obtain y w1 where y: "body x w = (y, w1)" by fastforce
  obtain z w2 where d: "dtor x w1 = (z, w2)" by fastforce
  show "fst (case body x w of
      (Done a, w1) \<Rightarrow> bnd (dtor x) (\<lambda>_. ret a) w1
    | (Raised e, w1) \<Rightarrow> (case dtor x w1 of (Raised _, w2) \<Rightarrow> (Terminated, w2) | (r, w2) \<Rightarrow> bnd (\<lambda>_. (r, w2)) (\<lambda>_. raise e) w1)
    | r \<Rightarrow> r) \<noteq> Endless"
    using y d ends_run[OF b, of w w1] ends_run[OF assms(2), of x w1 w2]
    by (cases y; cases z) (simp_all add: bnd_def ret_apply raise_apply)
qed

lemma ends_scope [ends_intros]: "ends ctor \<Longrightarrow> (\<And>x. ends (dtor x)) \<Longrightarrow> (\<And>x. ends (body x)) \<Longrightarrow> ends (scope ctor dtor body)"
  by (rule ends_scope_value)

lemma ends_each [ends_intros]: "(\<And>x. ends (f x)) \<Longrightarrow> ends (each f xs)"
  by (induction xs) (auto intro: ends_intros)

lemma ends_cases [ends_intros]:
  "ends m \<Longrightarrow> ends n \<Longrightarrow> ends (if b then m else n)"
  "(\<And>a b. ends (f a b)) \<Longrightarrow> ends (case p of (a, b) \<Rightarrow> f a b)"
  by (simp_all split: prod.splits)

section \<open>Outcomes\<close>

lemma bind_no_loop [no_loop]:
  "halts r \<Longrightarrow> (\<And>a. halts (f a)) \<Longrightarrow> halts (bind_outcome r f)"
  by (cases r) (simp_all add: halts_def)

lemma result_no_loop [no_loop]: "halts (of_result r)"
  by (cases r) (simp_all add: of_result_def)

lemma column_no_loop: "halts (column_to_string col)"
  by (simp add: column_to_string_def split: buffer.splits)

lemma stmt_no_loop [no_loop]:
  "halts (DBStmt_new conn sql)" "halts (execute st)" "halts (asString st col)" "halts (asInt st col)"
proof -
  show s: "halts (asString st col)" by (simp add: asString_def column_no_loop)
  show "halts (asInt st col)"
    unfolding asInt_def by (rule bind_no_loop[OF s]) (simp split: option.splits)
qed (simp_all add: DBStmt_new_def execute_def split: sum.splits)

lemma fetch_columns_no_loop: "halts (fetch_columns cols cells)"
proof (induction cols cells rule: fetch_columns.induct)
  case (1 col cols cell cells)
  have "halts (fetch_column col cell)" by (simp add: fetch_column_def split: server_cell.splits)
  then show ?case using 1 by (auto intro!: no_loop)
qed simp_all

lemma fetch_no_loop [no_loop]: "halts (fetch st)"
  unfolding fetch_def by (auto split: list.splits server_row.splits intro!: no_loop fetch_columns_no_loop)

lemma ends_fetching [ends_intros]:
  assumes "\<And>st. ends (body st)"
  shows "ends (fetching body st)"
  using assms
proof (induction body st rule: fetching.induct)
  case (1 body st)
  then show ?case
    using fetch_no_loop[of st] by (subst fetching.simps) (auto split: outcome.splits intro!: ends_intros)
qed

lemma time_no_loop [no_loop]: "halts (iso_time s)" "halts (modified_or_posted st)"
  by (auto simp: iso_time_def modified_or_posted_def intro!: no_loop)

section \<open>Objects\<close>

lemma node_ends [ends_intros]:
  "ends (XMLNode_wrap n)" "ends (XMLNode_get x)" "ends (XMLNode_release x)" "ends (XMLText_get x)" "ends (XMLText_release x)"
  "ends (XMLNode_destroy x)" "ends (XMLText_destroy x)" "ends (\<lambda>w. (Done n, w\<lparr>m_node := f w\<rparr>))"
  by (auto simp: ends_def XMLNode_wrap_def XMLNode_get_def XMLNode_release_def XMLText_get_def XMLText_release_def
      XMLNode_destroy_def XMLText_destroy_def call_def)

lemma log_ends [ends_intros]: "ends (log_info msg)" "ends (log_error msg)" "ends (LogSQL sql)"
  unfolding log_info_def log_error_def LogSQL_def by (intro ends_intros)+

lemma xml_ends [ends_intros]:
  "ends (XMLText_make s)" "ends (XMLNode_make name)" "ends (XMLNode_add x child)"
  "ends (XMLNode_add_text x s)" "ends (XMLNode_set_attr x name val)" "ends (XMLNode_set_attr_int x name i)"
  "ends (XMLDoc_make name version)" "ends (XMLDoc_make_ns name ns version)" "ends (XMLDoc_add doc n)"
  "ends (XMLDoc_add_pi doc name s)" "ends (XMLDoc_destroy doc)" "ends (give child parent)" "ends (give_doc child doc)"
  unfolding XMLText_make_def XMLNode_make_def XMLNode_add_def XMLNode_add_text_def XMLNode_set_attr_def XMLNode_set_attr_int_def
    XMLDoc_make_def XMLDoc_make_ns_def XMLDoc_add_def XMLDoc_add_pi_def XMLDoc_destroy_def give_def give_doc_def
  by (intro ends_intros)+

lemma write_ends [ends_intros]: "ends (XMLDoc_write dump_memory doc)"
  by (rule endsI) (simp add: XMLDoc_write_def bnd_def new_ptr_def call_def raise_apply split: option.splits)

lemma page_ends [ends_intros]:
  "ends (respond dump_memory ctype doc)" "ends (on_db_error method what)" "ends (stylesheet rq doc)" "ends not_found_scopes"
  unfolding respond_def on_db_error_def stylesheet_def not_found_scopes_def by (intro ends_intros)+

lemma stmt_ends [ends_intros]:
  "ends (DBStmt_make holder sql)" "ends (DBStmt_destroy close_error stmt)" "ends (DBConnHolder_destroy holder)"
  unfolding DBStmt_make_def DBStmt_destroy_def DBConnHolder_destroy_def
  using stmt_no_loop(1)[of "snd holder" sql]
  by (auto intro!: ends_intros no_loop split: outcome.splits option.splits)

lemma holder_ends [ends_intros]: "halts pool_get \<Longrightarrow> ends (DBConnHolder_make pool_get)"
  unfolding DBConnHolder_make_def by (intro ends_intros)

section \<open>The handlers\<close>

lemma blog_ends [ends_intros]:
  "ends (post_of_row posts st)" "ends (show_posts dump_memory rq st)" "ends (show_post dump_memory rq st)"
  unfolding post_of_row_def column_element_def add_content_def post_content_def show_posts_def show_post_def Let_def
  by (intro ends_intros no_loop)+

lemma url_ends [ends_intros]: "ends (add_url_scopes doc loc lastmod changefreq priority)" "ends (add_pages_scopes doc url lastmod ps)"
  unfolding add_url_scopes_def text_child_def add_pages_scopes_def by (intro ends_intros)+

lemma row_ends [ends_intros]:
  "ends (page_row_scopes base_url doc st)" "ends (post_row_scopes hostname base_url doc st)" "ends (author_row_scopes base_url doc st)"
  unfolding page_row_scopes_def post_row_scopes_def author_row_scopes_def
  by (auto intro!: ends_intros no_loop)

text \<open>The loops over the pages of an archive, when a page has posts.\<close>

lemma paged_row_ends [ends_intros]:
  assumes "per \<noteq> 0"
  shows "ends (term_row_scopes base_url per taxonomy doc st)" "ends (front_row_scopes hostname base_url per doc st)"
  unfolding term_row_scopes_def front_row_scopes_def Let_def term_pages_some[OF assms] front_page_lists_one[OF assms] option.case
  by (intro ends_intros no_loop)+

lemma block_ends [ends_intros]: "(\<And>st. ends (row st)) \<Longrightarrow> ends (url_block close_error conn sql bind row)"
  unfolding url_block_def by (intro ends_intros no_loop)

lemma options_end [ends_intros]: "ends (get_base_url_scopes close_error conn)" "ends (get_num_posts_per_page_scopes close_error conn)"
  unfolding get_base_url_scopes_def get_num_posts_per_page_scopes_def
  by (auto intro!: ends_intros no_loop)

text \<open>The number of posts on a page is the one of \<open>get_num_posts_per_page\<close>.\<close>

lemma Done_bnd: "bnd m k w = (Done b, w2) \<Longrightarrow> \<exists>a w1. m w = (Done a, w1) \<and> k a w1 = (Done b, w2)"
  by (auto simp: bnd_def split: prod.splits exit.splits)

lemma Done_outcome: "of_outcome r w = (Done a, w1) \<Longrightarrow> r = Returns a"
  by (cases r) (simp_all add: of_outcome_simps)

lemma Done_scope:
  assumes "scope ctor dtor body w = (Done b, w3)"
  shows "\<exists>x w1 w2. ctor w = (Done x, w1) \<and> body x w1 = (Done b, w2)"
  using assms unfolding scope_def
  by (auto dest!: Done_bnd simp: ret_apply split: prod.splits exit.splits) (auto simp: bnd_def raise_apply split: prod.splits exit.splits)

lemma Done_stmt: "DBStmt_make holder sql w = (Done x, w1) \<Longrightarrow> DBStmt_new (snd holder) sql = Returns (snd x)"
  by (cases "DBStmt_new (snd holder) sql")
    (auto simp: DBStmt_make_def LogSQL_def log_info_def bnd_def new_ptr_apply call_apply ret_apply raise_apply of_outcome_simps
      split: if_splits)

lemma Done_holder: "DBConnHolder_make pool_get w = (Done x, w1) \<Longrightarrow> pool_get = Returns (snd x)"
  by (cases pool_get) (auto simp: DBConnHolder_make_def bnd_def new_ptr_apply call_apply ret_apply of_outcome_simps)

lemma posts_per_page_Done:
  assumes "get_num_posts_per_page_scopes close_error conn w = (Done n, w1)"
  shows "get_num_posts_per_page (snd conn) = Returns n"
  using assms unfolding get_num_posts_per_page_scopes_def
  by (auto dest!: Done_scope Done_bnd Done_outcome Done_stmt simp: get_num_posts_per_page_def split: prod.splits)

lemma sitemap_ends:
  assumes "get_num_posts_per_page (snd conn) \<noteq> Returns 0"
  shows "ends (sitemap_scopes close_error dump_memory hostname conn)"
proof -
  have "n \<noteq> 0" if "get_num_posts_per_page_scopes close_error conn w = (Done n, w1)" for n w w1
    using posts_per_page_Done[OF that] assms by auto
  then show ?thesis
    unfolding sitemap_scopes_def
    by (intro ends_bnd[OF options_end(1)] ends_bnd_value[OF options_end(2)]) (intro ends_intros; simp)
qed

lemma routes_end:
  assumes "halts pool_get"
  shows "ends (wp_handle_scopes close_error dump_memory pool_get rq)"
  unfolding wp_handle_scopes_def blogroll_scopes_def category_scopes_def author_scopes_def post_scopes_def Let_def
  by (intro ends_intros no_loop assms)

text \<open>C24. Every request that gets its connection ends: provided that \<open>DBPool::get\<close> returns or throws (after a refused connection it never does again, \<open>failed_connect_blocks_pool\<close>) and the option posts_per_page is not 0, no request to the blog or to the site map goes on for ever, whatever rows the database gives or error it answers, and whether statements can be closed or not; each run returns, throws, terminates the process or does something undefined. A call of the MySQL or XML library is taken to return.\<close>

theorem requests_end:
  assumes "\<And>db_pool. get_conn db_pool \<noteq> Diverges"
    and "\<And>db_pool conn. get_conn db_pool = Returns conn \<Longrightarrow> get_num_posts_per_page conn \<noteq> Returns 0"
  shows "fst (wp_handle_scopes close_error dump_memory (get_conn db_pool) rq w) \<noteq> Endless \<and>
    fst (sitemap_handle_scopes close_error dump_memory get_conn sites rq w) \<noteq> Endless"
proof -
  have get: "halts (get_conn p)" for p using assms(1) by (simp add: halts_def)
  have holder: "ends (scope (DBConnHolder_make (get_conn p)) DBConnHolder_destroy (sitemap_scopes close_error dump_memory hostname))" for p hostname
    using Done_holder assms(2) by (intro ends_scope_value holder_ends get stmt_ends(3) sitemap_ends) blast
  have "ends (sitemap_handle_scopes close_error dump_memory get_conn sites rq)"
    unfolding sitemap_handle_scopes_def Let_def
    by (auto intro!: ends_intros holder split: option.splits)
  then show ?thesis using routes_end[OF get] by (simp add: ends_def)
qed

text \<open>With a database of a blog and statements that cannot be closed, as an example.\<close>

theorem requests_end_witness:
  "fst (sitemap_handle_scopes (\<lambda>_. Some ''gone'') (\<lambda>_ _. None) (\<lambda>_. Returns (site_conn sample_site))
     [(''wordpress.example.com'', 0)] sitemap_request new_world) \<noteq> Endless"
proof -
  have "read_int (per_page_text sample_site) = Some 10"
    by (simp add: sample_site_def read_int_def is_space_def is_digit_def digits_val_def digit_val_def)
  then have "get_num_posts_per_page (site_conn sample_site) = Returns 10"
    using options_eq(2)[OF sample_site_db] by simp
  then show ?thesis
    using requests_end[of "\<lambda>_. Returns (site_conn sample_site)" "\<lambda>_. Some ''gone''" "\<lambda>_ _. None"] by simp
qed

end
