(* ===== verification/Spec2Isabelle.thy ===== *)
theory Spec2Isabelle
  imports Worker_Counts Worker Url Date Json_Build Stmt_Memory Adapters Worker_Objects Conn_Life Scoped_Lock Column_Buffers
    Bound_Params Pool_Use Parser_Life Stop_Signals Worker_Pool Requests_End
begin

text \<open>
  A model of the FastCGI application server of this repository, a front end for blogs: a main
  process that keeps worker processes alive; in each worker a FastCGI server of five threads with
  two request handlers, the blog and the site map; a pool of MySQL connections with prepared
  statements; and the parsers and writers around them.

  \<^bold>\<open>How the parts interact.\<close> \<open>MainProcess::run\<close> forks a \<open>worker_process\<close> for each function and
  minimum that \<open>main\<close> registers, and forks again when one ends. A worker starts the maintenance thread of
  its connection pool, creates the server, gives up its privileges, maps locations to its handlers
  and runs the server. A thread of the server accepts a request, builds the request object (which
  parses the query string), chooses the handler by the longest matching location, and turns
  exceptions into error responses. The handlers take a connection from the pool, read rows through
  prepared statements and write XML documents. Handlers may ask the request for form data, which
  runs the multipart parser over the body.

  \<^bold>\<open>Theories and sources\<close> (file names are below \<^verbatim>\<open>src/\<close>).

  \<^item> \<open>Prelude\<close>: exceptions, results (\<open>exn + 'a\<close>) and outcomes (a value, an exception, undefined behaviour or no end), positions
    with \<open>npos\<close>, and the C and C++ string functions in use. \<open>Std_Map\<close>: \<open>std::map\<close> and
    \<open>std::multimap\<close> as sorted lists, with the contracts \<open>first_wins_map\<close> and \<open>ordered_multimap\<close>.
    \<open>Stream_Machine\<close>, \<open>Step_System\<close> and \<open>Deallocation\<close>: contracts for machines that are fed bytes, for
    systems with a choice of steps and their invariants, and for loops of \<open>delete\<close>.
  \<^item> \<open>Query\<close>, \<open>Formdata\<close>, \<open>Multipart\<close>, \<open>Request\<close> (\<^verbatim>\<open>server/fcgi_handler.cpp\<close>, \<^verbatim>\<open>server/fcgi_handler.h\<close>): the parser of query
    strings; the class \<open>formdata_parser\<close>, one definition per method, the state machine as a function of one
    byte; a reference for multipart bodies; and the class \<open>fcgi_request\<close> with the read loop of \<open>parse_form_data\<close>. \<open>Parser_Life\<close>: the
    arrays that the parser and \<open>parse_form_data\<close> allocate and free.
  \<^item> \<open>Server\<close>, \<open>Server_Run\<close> (\<^verbatim>\<open>server/fcgi_server.cpp\<close>, \<^verbatim>\<open>server/fcgi_server.h\<close>): the class \<open>fcgi_server\<close>, dispatch, the answer to
    one request, and the five threads with the accept mutex as a step relation.
  \<^item> \<open>Db_Pool\<close> (\<^verbatim>\<open>db/db_pool.h\<close>, \<^verbatim>\<open>db/db_pool.cpp\<close>): \<open>DBPool\<close>, \<open>DBConnHolder\<close> and the maintenance thread, as a step relation
    between a pool, threads and live connections; \<open>Pool_Progress\<close>: its waiting threads; \<open>Worker_Pool\<close>: the pool of
    \<^verbatim>\<open>server/worker.cpp\<close> with the five threads of the server. \<open>Db_Stmt\<close>: \<open>DBStmt\<close> and \<open>DBScopedLock\<close> over a MySQL library
    that is a parameter. \<open>Bound_Params\<close>: the addresses it keeps of bound variables. \<open>Stmt_Memory\<close> and \<open>Column_Buffers\<close>: the buffers that \<open>DBStmt\<close> allocates and
    frees, and their sizes.
  \<^item> \<open>Supervisor\<close> (\<^verbatim>\<open>server/main.cpp\<close>, \<^verbatim>\<open>server/main.h\<close>): \<open>MainProcess\<close> and the options of \<open>main\<close>. \<open>Stop_Signals\<close>:
    the same process with its children, their signal handlers and the points at which a signal can come. \<open>Worker_Counts\<close>:
    what holds of its counts although it reads erased entries.
  \<^item> \<open>Xml\<close>, \<open>Wp_Handler\<close>, \<open>Sitemap_Handler\<close>, \<open>Sitemap_Document\<close> (\<^verbatim>\<open>server/xml.h\<close>, \<^verbatim>\<open>server/wp_handler.cpp\<close>,
    \<^verbatim>\<open>server/sitemap_handler.cpp\<close>): documents as the calls that build them, the pages of the blog, and the site map.
  \<^item> \<open>Scopes\<close>: programs with objects that are destroyed when their scope is left, a correspondence between such
    programs and outcomes, and the contracts \<open>destructible\<close> and \<open>scoped_class\<close> of the classes. \<open>Lib_Calls\<close>: the calls
    on libxml2, MySQL, the pool and syslog with the ledger of what they may be applied to; the owning classes of
    \<^verbatim>\<open>server/xml.h\<close>, \<open>DBConnHolder\<close>, the handle of a \<open>DBStmt\<close>, and \<^verbatim>\<open>logger/\<close>. \<open>Ownership\<close> and \<open>Handler_Objects\<close>: these
    classes meet the contracts. \<open>Page_Scopes\<close>, \<open>Blog_Scopes\<close>, \<open>Sitemap_Scopes\<close>: the handlers once more, with every object,
    message and write in its place. \<open>Cleanup\<close>: what they leave behind, and what failing calls do to them.
    \<open>Pool_Use\<close>: the order of the calls a request makes on the pool and on statements. \<open>Requests_End\<close>: the total
    correctness rules by which every request ends.
    \<open>Conn_Life\<close>: \<open>DBConn\<close>. \<open>Scoped_Lock\<close> (\<^verbatim>\<open>server/scoped_lock.h\<close>): the guards of a readers-writer lock.
  \<^item> \<open>Worker\<close> (\<^verbatim>\<open>server/worker.cpp\<close>): the configured server, the change of user and group, the exit code.
    \<open>Worker_Objects\<close>: the worker whose handlers are those of \<open>Blog_Scopes\<close> and \<open>Sitemap_Scopes\<close>.
  \<^item> \<open>Url\<close> (\<^verbatim>\<open>server/url.h\<close>), \<open>Date\<close> (\<^verbatim>\<open>server/date.h\<close>), \<open>Json\<close>, \<open>Json_Text\<close> and \<open>Json_Build\<close> (\<^verbatim>\<open>server/json.h\<close>, \<^verbatim>\<open>server/json.cpp\<close>), and
    \<open>Adapters\<close> (\<^verbatim>\<open>server/regex.h\<close>, \<^verbatim>\<open>server/gearman_client.h\<close>, \<^verbatim>\<open>server/gearman_worker.h\<close>).

  Records carry the fields of the classes, step relations the states of threads. What comes from
  outside is an argument: the bytes of a stream, the results of accept, fork, waitpid and connect,
  clocks, the user database, and the MySQL, XML, regular expression and Gearman libraries.

  \<^bold>\<open>What the lemmas show.\<close>

  \<^item> Requests: an encoded form is read back field by field; the scanner of part data finds the
    delimiter that a reference definition finds, also after a part that ended at a lone LF, when the CR of the next
    delimiter counts as data; every byte is processed inside the bounds of the
    boundary and of both buffers; the division of the body into pieces does not matter; the read loop
    ends. The query parser inserts what its segments say, which shows what becomes of a third argument.
    A form leaves no memory behind, except when its content type is refused: then the parser's buffers are lost.
    A request uses one connection at most and ends, provided that \<open>DBPool::get\<close> returns or throws, that
    \<open>posts_per_page\<close> is not zero and that the calls of the libraries return.
  \<^item> Server: the longest registered location wins; the threads answer each accepted request exactly
    once, in every interleaving, and stop after at most one more request each; a request for the site
    map is followed from the dispatch to the bytes of the response.
  \<^item> Pool: a connection is with one thread at most and the counters are exact in every reachable state, while one
    connection more than is counted exists as long as the maintenance thread has one to delete; a
    lost race reads an empty list, a failed connect blocks the pool, a closed connection is deleted again. No
    wakeup is forgotten, and a waiting thread can always be served by the signals that are sent while the lock works; in the worker as it is
    configured nobody waits, so that the lost race needs a pool with fewer connections than threads.
  \<^item> Statements: bound variables arrive with their values if they live until the statement is executed (as all of the
    program's do); integers and times read back from their text; a BLOB that becomes empty is freed twice, and
    nothing else goes wrong with the lives of the buffers; their sizes fit unless a number has a narrow display width.
  \<^item> Processes: the counts of workers add up to the living workers, never more than the minima ask for, whatever
    an erased entry reads as, and a turn starts a worker of the function that is read, so that the counts are exact and
    restored while entries read as they were (\<open>counts_while_intact\<close>, \<open>respawn_while_intact\<close>); the shutdown ends; what a
    worker keeps of the rights of root. A stop that comes while the main process
    waits and every worker has its handler completes after a bounded number of events; one that meets a young worker, or comes
    just before the wait, does not.
  \<^item> Pages: the front page, a post and the site map are functions of the rows of the database, which have the column types
    of the WordPress tables, post numbers below \<open>2^31\<close> and, for the site map, no NULL and a positive number of
    posts to a page; on a blog without posts the site map reads memory that was never written.
  \<^item> Objects: the handlers with their objects refine these functions, use the libraries within their terms and
    give back what they took whether they return or throw, as long as statements can be closed; a statement that cannot be prepared stays open, one that cannot be
    closed spoils a page that is complete or ends the process; a failed connect leaves its handler.
  \<^item> URLs, dates and JSON: round trips; the increment of a date is the calendar's; what is made
    of documents in the store is well typed; documents whose parts are attached once are owned once and freed once, up to the
    values lost to a duplicate key, and an object that is attached twice is deleted twice.

  \<^bold>\<open>Bounds and fuel.\<close> The read loop, the loops over rows and the loops over strings recurse on what is
  left of their input and need no fuel; the loop over the pages of a term is a partial function with
  \<open>None\<close> for no end, and is shown to return for every positive number of posts to a page and never for
  zero. The loop of the supervisor takes its turns from a list. JSON documents are written and deleted
  with a limit on the depth of nesting; the height of the document is enough. The reader of JSON texts
  uses the length of the text. Sizes wrap at 64 bits where the code computes with \<open>size_t\<close>, the numbers
  of posts and pages are words of 32 bits.

  \<^bold>\<open>Not modelled.\<close> The inside of the libraries: what libxml2, MySQL, syslog and the threads do is given by the
  terms they are used on; the parser that is commented out in \<^verbatim>\<open>server/json.cpp\<close>; failures of \<open>new\<close> and of
  \<open>mysql_stmt_init\<close>; the handlers' constructors, \<open>init\<close> and \<open>shutdown\<close>, which are empty; what \<open>exit\<close> runs
  in a worker whose signal handler is called (to the main process the worker has ended); the exception classes of the Gearman wrappers beyond their
  text; build files and start scripts.
\<close>

end
